(* ===== verification/Rtp_Prelude.thy ===== *)
theory Rtp_Prelude
  imports Complex_Main "HOL-Library.Word"
begin

text \<open>
  The prelude of the development: the names of the machine types and of the library
  types every component uses, the hint collections, and the facts on lists, options and
  maps that several components share.

  Machine integers keep their width (\<open>u8\<close> to \<open>u64\<close>, where addition wraps as it does in
  the release build the project ships); wall-clock times are integers, because the range
  chrono accepts stays far below the width of an \<open>i64\<close>. A Rust \<open>String\<close>, \<open>&str\<close> or
  \<open>Vec<u8>\<close> is a list of bytes: \<open>char\<close> has 256 values, and a \<open>String\<close> is the UTF-8
  sequence Rust keeps.
\<close>

section \<open>Types\<close>

type_synonym u8 = "8 word"
type_synonym u16 = "16 word"
type_synonym u32 = "32 word"
type_synonym u64 = "64 word"

text \<open>Nanoseconds since the Unix epoch (chrono's \<open>DateTime\<close>, whatever its time zone).\<close>

type_synonym datetime = int

text \<open>Nanoseconds of the monotonic clock (\<open>std::time::Instant\<close>).\<close>

type_synonym instant = nat

type_synonym bytes = string

text \<open>A Unicode scalar value (Rust's \<open>char\<close>).\<close>

type_synonym rchar = nat

section \<open>Hint collections\<close>

text \<open>
  \<open>fp_eval\<close> evaluates closed floating-point terms with the simplifier; \<open>inv_intros\<close>
  collects the preservation lemmas of the components' invariants.
\<close>

named_theorems fp_eval
named_theorems inv_intros

section \<open>Clocks\<close>

definition nanos_per_sec :: int where
  "nanos_per_sec = 1000000000"

text \<open>\<open>DateTime::timestamp\<close> and \<open>DateTime::timestamp_micros\<close>: floors, also before the epoch.\<close>

definition timestamp :: "datetime \<Rightarrow> int" where
  "timestamp t = t div nanos_per_sec"

definition timestamp_micros :: "datetime \<Rightarrow> int" where
  "timestamp_micros t = t div 1000"

text \<open>\<open>Instant::elapsed\<close> at the moment \<open>now\<close>: saturates at zero.\<close>

definition elapsed :: "instant \<Rightarrow> instant \<Rightarrow> nat" where
  "elapsed now t = now - t"

definition secs :: "nat \<Rightarrow> nat" where
  "secs n = n * 1000000000"

lemma timestamp_mono: "a \<le> b \<Longrightarrow> timestamp a \<le> timestamp b"
  by (simp add: timestamp_def nanos_per_sec_def zdiv_mono1)

lemma timestamp_micros_mono: "a \<le> b \<Longrightarrow> timestamp_micros a \<le> timestamp_micros b"
  by (simp add: timestamp_micros_def zdiv_mono1)

section \<open>Lists, options, maps\<close>

text \<open>\<open>VecDeque::push_back\<close> and then \<open>pop_front\<close> while longer than \<open>n\<close>.\<close>

definition keep_last :: "nat \<Rightarrow> 'a list \<Rightarrow> 'a list" where
  "keep_last n xs = drop (length xs - n) xs"

lemma length_keep_last [simp]: "length (keep_last n xs) = min n (length xs)"
  by (simp add: keep_last_def)

lemma keep_last_short [simp]: "length xs \<le> n \<Longrightarrow> keep_last n xs = xs"
  by (simp add: keep_last_def)

lemma set_keep_last: "set (keep_last n xs) \<subseteq> set xs"
  by (simp add: keep_last_def set_drop_subset)

lemma last_keep_last: "0 < n \<Longrightarrow> xs \<noteq> [] \<Longrightarrow> last (keep_last n xs) = last xs"
  by (simp add: keep_last_def last_drop)

lemma map_of_map_inj:
  "inj f \<Longrightarrow> map_of (map (\<lambda>(k, v). (f k, v)) xs) (f k) = map_of xs k"
  by (induction xs) (auto dest: injD)

end
