(* ===== verification/Ieee_Float.thy ===== *)
theory Ieee_Float
  imports Rtp_Prelude
begin

text \<open>
  IEEE 754 binary floating point, as Rust's \<open>f32\<close> and \<open>f64\<close> compute it: exact rational
  arithmetic followed by one rounding to nearest, ties to even. A finite value is kept as
  the rational it denotes; the negative zero, the infinities and NaN are constructors of
  their own. Everything here is executable: the simp set \<open>fp_eval\<close> evaluates closed terms.

  The facts the components need of it: a value that is representable is rounded to itself
  (\<open>rnd_val_exact\<close>), rounding is monotone against representable bounds (\<open>rnd_val_le\<close>,
  \<open>rnd_val_ge\<close>), and a bounded result is finite (\<open>rnd_finite\<close>).
\<close>

section \<open>Values and formats\<close>

datatype fp = NaN | PInf | NInf | NZero | Fin rat

type_synonym f64 = fp
type_synonym f32 = fp

datatype fmt = B32 | B64

fun prec :: "fmt \<Rightarrow> int" where
  "prec B32 = 24"
| "prec B64 = 53"

fun emin :: "fmt \<Rightarrow> int" where
  "emin B32 = - 149"
| "emin B64 = - 1074"

fun emax :: "fmt \<Rightarrow> int" where
  "emax B32 = 128"
| "emax B64 = 1024"

text \<open>The rational a finite value denotes, and whether the sign bit is set.\<close>

fun fval :: "fp \<Rightarrow> rat" where
  "fval (Fin x) = x"
| "fval _ = 0"

fun is_fin :: "fp \<Rightarrow> bool" where
  "is_fin (Fin x) = True"
| "is_fin NZero = True"
| "is_fin _ = False"

fun sign_bit :: "fp \<Rightarrow> bool" where
  "sign_bit NInf = True"
| "sign_bit NZero = True"
| "sign_bit (Fin x) = (x < 0)"
| "sign_bit _ = False"

section \<open>Rounding\<close>

function bit_count :: "int \<Rightarrow> int" where
  "bit_count n = (if n \<le> 0 then 0 else 1 + bit_count (n div 2))"
  by pat_completeness auto
termination
  by (relation "measure nat") auto

declare bit_count.simps [simp del]

definition two_pow :: "int \<Rightarrow> rat" where
  "two_pow e = (if 0 \<le> e then 2 ^ nat e else 1 / 2 ^ nat (- e))"

text \<open>The exponent of the leading bit of a positive rational.\<close>

definition ilog2 :: "rat \<Rightarrow> int" where
  "ilog2 x = (if 1 \<le> x then bit_count \<lfloor>x\<rfloor> - 1 else - bit_count (\<lceil>1 / x\<rceil> - 1))"

text \<open>Round to the nearest integer, ties to even.\<close>

definition round_even :: "rat \<Rightarrow> int" where
  "round_even y = (let n = \<lfloor>y\<rfloor>; r = y - of_int n in
     if 2 * r < 1 then n else if 1 < 2 * r then n + 1 else if even n then n else n + 1)"

text \<open>The exponent of the last place of the format at \<open>x\<close>.\<close>

definition ulp_exp :: "fmt \<Rightarrow> rat \<Rightarrow> int" where
  "ulp_exp f x = max (emin f) (ilog2 \<bar>x\<bar> - (prec f - 1))"

definition rnd_val :: "fmt \<Rightarrow> rat \<Rightarrow> rat" where
  "rnd_val f x = (if x = 0 then 0
     else of_int (round_even (x / two_pow (ulp_exp f x))) * two_pow (ulp_exp f x))"

text \<open>\<open>neg\<close> is the sign an exact zero takes.\<close>

definition rnd :: "fmt \<Rightarrow> bool \<Rightarrow> rat \<Rightarrow> fp" where
  "rnd f neg x = (let y = rnd_val f x in
     if y = 0 then (if x < 0 \<or> x = 0 \<and> neg then NZero else Fin 0)
     else if two_pow (emax f) \<le> y then PInf
     else if y \<le> - two_pow (emax f) then NInf
     else Fin y)"

section \<open>Comparison\<close>

fun fp_rank :: "fp \<Rightarrow> int" where
  "fp_rank NInf = - 1"
| "fp_rank PInf = 1"
| "fp_rank _ = 0"

definition fp_lt :: "fp \<Rightarrow> fp \<Rightarrow> bool" where
  "fp_lt a b = (a \<noteq> NaN \<and> b \<noteq> NaN \<and>
     (fp_rank a < fp_rank b \<or> fp_rank a = fp_rank b \<and> fval a < fval b))"

definition fp_le :: "fp \<Rightarrow> fp \<Rightarrow> bool" where
  "fp_le a b = (a \<noteq> NaN \<and> b \<noteq> NaN \<and>
     (fp_rank a < fp_rank b \<or> fp_rank a = fp_rank b \<and> fval a \<le> fval b))"

definition fp_eq :: "fp \<Rightarrow> fp \<Rightarrow> bool" where
  "fp_eq a b = (a \<noteq> NaN \<and> b \<noteq> NaN \<and> fp_rank a = fp_rank b \<and> fval a = fval b)"

section \<open>Arithmetic\<close>

definition signed_inf :: "bool \<Rightarrow> fp" where
  "signed_inf s = (if s then NInf else PInf)"

definition signed_zero :: "bool \<Rightarrow> fp" where
  "signed_zero s = (if s then NZero else Fin 0)"

fun fp_neg :: "fp \<Rightarrow> fp" where
  "fp_neg NaN = NaN"
| "fp_neg PInf = NInf"
| "fp_neg NInf = PInf"
| "fp_neg NZero = Fin 0"
| "fp_neg (Fin x) = (if x = 0 then NZero else Fin (- x))"

fun fp_abs :: "fp \<Rightarrow> fp" where
  "fp_abs NaN = NaN"
| "fp_abs PInf = PInf"
| "fp_abs NInf = PInf"
| "fp_abs NZero = Fin 0"
| "fp_abs (Fin x) = Fin \<bar>x\<bar>"

definition fp_add :: "fmt \<Rightarrow> fp \<Rightarrow> fp \<Rightarrow> fp" where
  "fp_add f a b =
     (if a = NaN \<or> b = NaN then NaN
      else if is_fin a \<and> is_fin b then rnd f (a = NZero \<and> b = NZero) (fval a + fval b)
      else if is_fin a then b
      else if is_fin b then a
      else if a = b then a else NaN)"

definition fp_sub :: "fmt \<Rightarrow> fp \<Rightarrow> fp \<Rightarrow> fp" where
  "fp_sub f a b = fp_add f a (fp_neg b)"

definition fp_mul :: "fmt \<Rightarrow> fp \<Rightarrow> fp \<Rightarrow> fp" where
  "fp_mul f a b = (let s = (sign_bit a \<noteq> sign_bit b) in
     if a = NaN \<or> b = NaN then NaN
     else if is_fin a \<and> is_fin b then rnd f s (fval a * fval b)
     else if is_fin a \<and> fval a = 0 \<or> is_fin b \<and> fval b = 0 then NaN
     else signed_inf s)"

definition fp_div :: "fmt \<Rightarrow> fp \<Rightarrow> fp \<Rightarrow> fp" where
  "fp_div f a b = (let s = (sign_bit a \<noteq> sign_bit b) in
     if a = NaN \<or> b = NaN then NaN
     else if is_fin a \<and> is_fin b then
       (if fval b = 0 then (if fval a = 0 then NaN else signed_inf s)
        else rnd f s (fval a / fval b))
     else if is_fin a then signed_zero s
     else if is_fin b then signed_inf s
     else NaN)"

text \<open>\<open>f64::max\<close> and \<open>f64::min\<close> ignore a NaN operand.\<close>

definition fp_max :: "fp \<Rightarrow> fp \<Rightarrow> fp" where
  "fp_max a b = (if a = NaN then b else if b = NaN then a else if fp_lt a b then b else a)"

definition fp_min :: "fp \<Rightarrow> fp \<Rightarrow> fp" where
  "fp_min a b = (if a = NaN then b else if b = NaN then a else if fp_lt b a then b else a)"

section \<open>Rounding to an integral value, and casts\<close>

fun fp_integral :: "(rat \<Rightarrow> int) \<Rightarrow> fp \<Rightarrow> fp" where
  "fp_integral g (Fin x) = (if g x = 0 \<and> x < 0 then NZero else Fin (of_int (g x)))"
| "fp_integral g a = a"

definition trunc_rat :: "rat \<Rightarrow> int" where
  "trunc_rat x = (if x < 0 then \<lceil>x\<rceil> else \<lfloor>x\<rfloor>)"

text \<open>Half away from zero, as \<open>f64::round\<close> does.\<close>

definition round_away :: "rat \<Rightarrow> int" where
  "round_away x = (if x < 0 then - \<lfloor>- x + 1 / 2\<rfloor> else \<lfloor>x + 1 / 2\<rfloor>)"

definition fp_floor :: "fp \<Rightarrow> fp" where
  "fp_floor = fp_integral floor"

definition fp_ceil :: "fp \<Rightarrow> fp" where
  "fp_ceil = fp_integral ceiling"

definition fp_trunc :: "fp \<Rightarrow> fp" where
  "fp_trunc = fp_integral trunc_rat"

definition fp_round :: "fp \<Rightarrow> fp" where
  "fp_round = fp_integral round_away"

text \<open>The saturating cast \<open>as\<close> to an integer type with the bounds \<open>lo\<close> and \<open>hi\<close>; NaN gives 0.\<close>

fun fp_to_int :: "int \<Rightarrow> int \<Rightarrow> fp \<Rightarrow> int" where
  "fp_to_int lo hi NaN = 0"
| "fp_to_int lo hi PInf = hi"
| "fp_to_int lo hi NInf = lo"
| "fp_to_int lo hi NZero = 0"
| "fp_to_int lo hi (Fin x) = max lo (min hi (trunc_rat x))"

definition fp_to_u8 :: "fp \<Rightarrow> u8" where
  "fp_to_u8 a = word_of_int (fp_to_int 0 255 a)"

definition fp_to_u32 :: "fp \<Rightarrow> u32" where
  "fp_to_u32 a = word_of_int (fp_to_int 0 4294967295 a)"

definition fp_to_u64 :: "fp \<Rightarrow> u64" where
  "fp_to_u64 a = word_of_int (fp_to_int 0 18446744073709551615 a)"

definition fp_to_i64 :: "fp \<Rightarrow> int" where
  "fp_to_i64 a = fp_to_int (- 9223372036854775808) 9223372036854775807 a"

text \<open>Casts from an integer, and a decimal literal of the source.\<close>

definition fp_of_int :: "fmt \<Rightarrow> int \<Rightarrow> fp" where
  "fp_of_int f n = rnd f False (of_int n)"

definition lit64 :: "rat \<Rightarrow> fp" where
  "lit64 x = rnd B64 False x"

definition lit32 :: "rat \<Rightarrow> fp" where
  "lit32 x = rnd B32 False x"

section \<open>Powers of two and the leading bit\<close>

lemma two_pow_powi: "two_pow e = 2 powi e"
  by (simp add: two_pow_def power_int_def field_simps)

lemma two_pow_pos [simp]: "0 < two_pow e"
  by (simp add: two_pow_def)

lemma two_pow_nz [simp]: "two_pow e \<noteq> 0"
  using two_pow_pos [of e] by linarith

lemma abs_two_pow [simp]: "\<bar>two_pow e\<bar> = two_pow e"
  by (rule abs_of_pos) (rule two_pow_pos)

lemma two_pow_add: "two_pow (a + b) = two_pow a * two_pow b"
  by (simp add: two_pow_powi power_int_add)

lemma two_pow_diff: "two_pow (a - b) = two_pow a / two_pow b"
  by (simp add: two_pow_powi power_int_diff)

lemma two_pow_nat: "0 \<le> e \<Longrightarrow> two_pow e = of_int (2 ^ nat e)"
  by (simp add: two_pow_def)

lemma two_pow_0 [simp]: "two_pow 0 = 1"
  by (simp add: two_pow_def)

lemma two_pow_ge_1: "0 \<le> e \<Longrightarrow> 1 \<le> two_pow e"
  by (simp add: two_pow_def)

lemma two_pow_mono: "a \<le> b \<Longrightarrow> two_pow a \<le> two_pow b"
  using two_pow_add [of a "b - a"] two_pow_ge_1 [of "b - a"] two_pow_pos [of a]
  by simp

lemma two_pow_strict_mono: "a < b \<Longrightarrow> two_pow a < two_pow b"
proof -
  assume "a < b"
  then have "two_pow (a + 1) \<le> two_pow b" by (intro two_pow_mono) simp
  moreover have "two_pow (a + 1) = 2 * two_pow a"
    by (simp add: two_pow_add) (simp add: two_pow_def)
  ultimately show ?thesis using two_pow_pos [of a] by linarith
qed

lemma two_pow_less_iff [simp]: "two_pow a < two_pow b \<longleftrightarrow> a < b"
  using two_pow_strict_mono [of a b] two_pow_mono [of b a] by fastforce

lemma two_pow_Suc: "two_pow (e + 1) = 2 * two_pow e"
  by (simp add: two_pow_add) (simp add: two_pow_def)

lemma bit_count_bounds:
  "0 < n \<Longrightarrow> 1 \<le> bit_count n \<and> 2 ^ nat (bit_count n - 1) \<le> n \<and> n < 2 ^ nat (bit_count n)"
proof (induction n rule: bit_count.induct)
  case (1 n)
  show ?case
  proof (cases "n = 1")
    case True
    have "bit_count 1 = 1" by (simp add: bit_count.simps)
    with True show ?thesis by simp
  next
    case False
    define m where "m = n div 2"
    define k where "k = bit_count m"
    from False "1.prems" have "0 < m" by (simp add: m_def)
    with "1.IH" "1.prems" have IH: "1 \<le> k" "2 ^ nat (k - 1) \<le> m" "m < 2 ^ nat k"
      by (simp_all add: m_def k_def)
    have eq: "bit_count n = 1 + k"
      using "1.prems" by (simp add: bit_count.simps [of n] m_def k_def)
    have two: "(2::int) ^ nat k = 2 * 2 ^ nat (k - 1)"
      using IH(1) by (simp flip: power_Suc add: Suc_nat_eq_nat_zadd1)
    have "2 * m \<le> n" "n \<le> 2 * m + 1" by (simp_all add: m_def)
    then show ?thesis using IH two
      by (simp add: eq nat_add_distrib)
  qed
qed

lemma ilog2_bounds:
  assumes "0 < x"
  shows "two_pow (ilog2 x) \<le> x \<and> x < two_pow (ilog2 x + 1)"
proof (cases "1 \<le> x")
  case True
  define n where "n = \<lfloor>x\<rfloor>"
  have "0 < n" using True by (simp add: n_def)
  note b = bit_count_bounds [OF this]
  have i: "ilog2 x = bit_count n - 1" using True by (simp add: ilog2_def n_def)
  have "two_pow (ilog2 x) = of_int (2 ^ nat (bit_count n - 1))"
    using b by (simp add: i two_pow_nat)
  also have "\<dots> \<le> of_int n" using b by (subst of_int_le_iff) blast
  also have "\<dots> \<le> x" by (simp add: n_def)
  finally have lo: "two_pow (ilog2 x) \<le> x" .
  have "n + 1 \<le> 2 ^ nat (bit_count n)" using b by simp
  then have "(of_int (n + 1) :: rat) \<le> of_int (2 ^ nat (bit_count n))" by (subst of_int_le_iff)
  moreover have "two_pow (ilog2 x + 1) = of_int (2 ^ nat (bit_count n))"
    using b by (simp add: i two_pow_nat)
  moreover have "x < of_int (n + 1)" unfolding n_def by linarith
  ultimately show ?thesis using lo by linarith
next
  case False
  define n where "n = \<lceil>1 / x\<rceil> - 1"
  have gt: "1 < 1 / x" using False assms by (simp add: field_simps)
  then have "0 < n" by (simp add: n_def)
  note b = bit_count_bounds [OF this]
  have i: "ilog2 x = - bit_count n" using False by (simp add: ilog2_def n_def)
  have "1 / x \<le> of_int (n + 1)" by (simp add: n_def)
  also have "(of_int (n + 1) :: rat) \<le> of_int (2 ^ nat (bit_count n))"
    using b by (subst of_int_le_iff) simp
  also have "\<dots> = two_pow (bit_count n)" using b by (simp add: two_pow_nat)
  finally have "1 / x \<le> two_pow (bit_count n)" .
  moreover have inv: "two_pow (- k) = 1 / two_pow k" for k
    using two_pow_diff [of 0 k] by simp
  ultimately have lo: "two_pow (ilog2 x) \<le> x"
    using assms two_pow_pos [of "bit_count n"] by (simp add: i inv pos_divide_le_eq mult.commute)
  have "two_pow (bit_count n - 1) = of_int (2 ^ nat (bit_count n - 1))"
    using b by (simp add: two_pow_nat)
  also have "\<dots> \<le> of_int n" using b by (subst of_int_le_iff) blast
  also have "\<dots> < 1 / x" by (simp add: n_def) linarith
  finally have "two_pow (bit_count n - 1) < 1 / x" .
  moreover have "two_pow (ilog2 x + 1) = 1 / two_pow (bit_count n - 1)"
    using inv [of "bit_count n - 1"] by (simp add: i)
  ultimately have "x < two_pow (ilog2 x + 1)"
    using assms two_pow_pos [of "bit_count n - 1"] by (simp add: pos_less_divide_eq mult.commute)
  with lo show ?thesis by simp
qed

lemma ilog2_mono:
  assumes "0 < x" and "x \<le> y"
  shows "ilog2 x \<le> ilog2 y"
proof -
  have "two_pow (ilog2 x) < two_pow (ilog2 y + 1)"
    using ilog2_bounds [of x] ilog2_bounds [of y] assms by linarith
  then show ?thesis by simp
qed

lemma ilog2_less: "0 < x \<Longrightarrow> x < two_pow k \<Longrightarrow> ilog2 x < k"
  using ilog2_bounds [of x] two_pow_less_iff [of "ilog2 x" k] by linarith

section \<open>Rounding is exact on representable values and monotone\<close>

lemma round_even_of_int [simp]: "round_even (of_int n) = n"
  by (simp add: round_even_def)

lemma round_even_le: "y \<le> of_int n \<Longrightarrow> round_even y \<le> n"
proof -
  assume y: "y \<le> of_int n"
  show ?thesis
  proof (cases "y = of_int n")
    case False
    with y have "\<lfloor>y\<rfloor> < n" by linarith
    then show ?thesis by (auto simp: round_even_def Let_def)
  qed simp
qed

lemma round_even_ge: "of_int n \<le> y \<Longrightarrow> n \<le> round_even y"
proof -
  assume "of_int n \<le> y"
  then have "n \<le> \<lfloor>y\<rfloor>" by (simp add: le_floor_iff)
  then show ?thesis by (auto simp: round_even_def Let_def)
qed

lemma round_even_neg: "round_even (- y) = - round_even y"
proof (cases "y = of_int \<lfloor>y\<rfloor>")
  case True
  then show ?thesis by (metis of_int_minus round_even_of_int)
next
  case False
  define n where "n = \<lfloor>y\<rfloor>"
  from False have "of_int n < y" by (simp add: n_def) linarith
  then have f: "\<lfloor>- y\<rfloor> = - n - 1"
    unfolding n_def by linarith
  show ?thesis
    by (simp add: round_even_def f Let_def flip: n_def)
qed

lemma round_even_err: "\<bar>of_int (round_even y) - y\<bar> \<le> 1 / 2"
proof -
  have "of_int \<lfloor>y\<rfloor> \<le> y" "y < of_int \<lfloor>y\<rfloor> + 1" by linarith+
  then show ?thesis by (auto simp: round_even_def Let_def abs_le_iff)
qed

text \<open>A value the format can hold, whatever its magnitude.\<close>

definition on_grid :: "fmt \<Rightarrow> rat \<Rightarrow> bool" where
  "on_grid f x \<longleftrightarrow> (\<exists>m e. x = of_int m * two_pow e \<and> \<bar>m\<bar> < 2 ^ nat (prec f) \<and> emin f \<le> e)"

text \<open>A value of the format: what a variable of type \<open>f32\<close> or \<open>f64\<close> can hold.\<close>

fun wf_fp :: "fmt \<Rightarrow> fp \<Rightarrow> bool" where
  "wf_fp f (Fin x) \<longleftrightarrow> on_grid f x \<and> \<bar>x\<bar> < two_pow (emax f)"
| "wf_fp f _ \<longleftrightarrow> True"

lemma prec_pos [simp]: "0 < prec f"
  by (cases f) simp_all

lemma on_gridI: "x = of_int m * two_pow e \<Longrightarrow> \<bar>m\<bar> < 2 ^ nat (prec f) \<Longrightarrow> emin f \<le> e \<Longrightarrow> on_grid f x"
  unfolding on_grid_def by blast

lemma on_grid_0 [simp]: "on_grid f 0"
  by (rule on_gridI [of _ 0 "emin f"]) simp_all

lemma on_grid_neg [simp]: "on_grid f (- x) = on_grid f x"
proof -
  have "on_grid f (- y)" if g: "on_grid f y" for y
  proof -
    from g obtain m e where "y = of_int m * two_pow e" "\<bar>m\<bar> < 2 ^ nat (prec f)" "emin f \<le> e"
      unfolding on_grid_def by blast
    then show ?thesis by (intro on_gridI [of _ "- m" e]) simp_all
  qed
  from this [of x] this [of "- x"] show ?thesis by auto
qed

lemma on_grid_int: "\<bar>n\<bar> < 2 ^ nat (prec f) \<Longrightarrow> on_grid f (of_int n)"
  by (rule on_gridI [of _ n 0]) (cases f, simp_all)+

lemma ulp_exp_neg [simp]: "ulp_exp f (- x) = ulp_exp f x"
  by (simp add: ulp_exp_def)

lemma ulp_exp_mono: "0 < x \<Longrightarrow> x \<le> y \<Longrightarrow> ulp_exp f x \<le> ulp_exp f y"
  using ilog2_mono [of x y] by (simp add: ulp_exp_def)

text \<open>A representable value is a whole multiple of any smaller unit in the last place.\<close>

lemma on_grid_multiple:
  assumes "on_grid f c" and "c \<noteq> 0" and "k \<le> ulp_exp f c"
  shows "\<exists>n. c / two_pow k = of_int n"
proof -
  obtain m e where c: "c = of_int m * two_pow e" and m: "\<bar>m\<bar> < 2 ^ nat (prec f)" and e: "emin f \<le> e"
    using assms(1) unfolding on_grid_def by blast
  have "\<bar>c\<bar> = of_int \<bar>m\<bar> * two_pow e" by (simp add: c abs_mult)
  moreover have "(of_int \<bar>m\<bar> :: rat) < of_int (2 ^ nat (prec f))"
    using m by (subst of_int_less_iff)
  then have "(of_int \<bar>m\<bar> :: rat) < two_pow (prec f)"
    by (simp add: two_pow_nat less_imp_le)
  ultimately have "\<bar>c\<bar> < two_pow (prec f + e)"
    by (simp add: two_pow_add)
  then have "ilog2 \<bar>c\<bar> < prec f + e"
    using assms(2) by (intro ilog2_less) simp_all
  then have "ulp_exp f c \<le> e" using e by (simp add: ulp_exp_def)
  with assms(3) have ke: "0 \<le> e - k" by simp
  have "c / two_pow k = of_int m * two_pow (e - k)"
    by (simp add: c two_pow_diff)
  also have "\<dots> = of_int (m * 2 ^ nat (e - k))" using ke by (simp add: two_pow_nat)
  finally show ?thesis by blast
qed

lemma rnd_val_0 [simp]: "rnd_val f 0 = 0"
  by (simp add: rnd_val_def)

lemma rnd_val_neg: "rnd_val f (- x) = - rnd_val f x"
  using round_even_neg [of "x / two_pow (ulp_exp f x)"] by (simp add: rnd_val_def)

lemma rnd_val_exact:
  assumes "on_grid f x"
  shows "rnd_val f x = x"
proof (cases "x = 0")
  case False
  with on_grid_multiple [OF assms False order_refl] obtain n
    where "x / two_pow (ulp_exp f x) = of_int n" by blast
  moreover from this have "x = of_int n * two_pow (ulp_exp f x)" by (simp add: field_simps)
  ultimately show ?thesis using False by (simp add: rnd_val_def)
qed simp

lemma rnd_val_nonneg: "0 \<le> x \<Longrightarrow> 0 \<le> rnd_val f x"
  using round_even_ge [of 0 "x / two_pow (ulp_exp f x)"]
  by (simp add: rnd_val_def less_imp_le zero_le_divide_iff)

lemma rnd_val_le_pos:
  assumes "on_grid f c" and "0 < x" and "x \<le> c"
  shows "rnd_val f x \<le> c"
proof -
  let ?u = "two_pow (ulp_exp f x)"
  have "ulp_exp f x \<le> ulp_exp f c" using assms(2,3) by (rule ulp_exp_mono)
  with on_grid_multiple [OF assms(1), of "ulp_exp f x"] assms(2,3)
  obtain n where n: "c / ?u = of_int n" by auto
  have "x / ?u \<le> of_int n"
    using assms(3) n [symmetric] by (simp add: divide_right_mono less_imp_le)
  then have "round_even (x / ?u) \<le> n" by (rule round_even_le)
  then have "of_int (round_even (x / ?u)) * ?u \<le> of_int n * ?u"
    by (intro mult_right_mono) (simp_all add: less_imp_le)
  also have "\<dots> = c" using n by (simp add: field_simps)
  finally show ?thesis using assms(2) by (simp add: rnd_val_def)
qed

lemma rnd_val_ge_pos:
  assumes "on_grid f c" and "0 < c" and "c \<le> x"
  shows "c \<le> rnd_val f x"
proof -
  let ?e = "ulp_exp f x"
  have x: "0 < x" using assms by linarith
  have main: "c \<le> of_int (round_even (x / two_pow ?e)) * two_pow ?e"
    if "of_int n * two_pow ?e \<le> x" and "c \<le> of_int n * two_pow ?e" for n
  proof -
    have "of_int n \<le> x / two_pow ?e" using that(1) by (simp add: field_simps)
    then have "n \<le> round_even (x / two_pow ?e)" by (rule round_even_ge)
    then have "of_int n * two_pow ?e \<le> of_int (round_even (x / two_pow ?e)) * two_pow ?e"
      by (intro mult_right_mono) (simp_all add: less_imp_le)
    with that(2) show ?thesis by linarith
  qed
  have "c \<le> of_int (round_even (x / two_pow ?e)) * two_pow ?e"
  proof (cases "ulp_exp f c = ?e")
    case True
    with on_grid_multiple [OF assms(1), of ?e] assms(2) obtain n
      where "c / two_pow ?e = of_int n" by auto
    then have "c = of_int n * two_pow ?e" by (simp add: field_simps)
    with assms(3) show ?thesis by (intro main [of n]) simp_all
  next
    case False
    with ulp_exp_mono [of c x f] assms have "ulp_exp f c < ?e" by simp
    then have e: "?e = ilog2 x - (prec f - 1)" and l: "ilog2 c < ilog2 x"
      using assms(2) x by (auto simp: ulp_exp_def max_def split: if_splits)
    define n :: int where "n = 2 ^ nat (prec f - 1)"
    have "of_int n * two_pow ?e = two_pow (prec f - 1) * two_pow ?e"
      by (simp add: n_def two_pow_nat less_imp_le zle_diff1_eq)
    also have "\<dots> = two_pow (ilog2 x)" by (simp add: e flip: two_pow_add)
    finally have n: "of_int n * two_pow ?e = two_pow (ilog2 x)" .
    have "two_pow (ilog2 c + 1) \<le> two_pow (ilog2 x)"
      using l by (intro two_pow_mono) simp
    with n ilog2_bounds [OF x] ilog2_bounds [OF assms(2)] show ?thesis
      by (intro main [of n]) linarith+
  qed
  then show ?thesis using x by (simp add: rnd_val_def)
qed

text \<open>Rounding never crosses a representable value.\<close>

lemma rnd_val_le:
  assumes "on_grid f c" and "x \<le> c"
  shows "rnd_val f x \<le> c"
proof (cases "0 < x")
  case True
  with assms show ?thesis by (intro rnd_val_le_pos)
next
  case False
  show ?thesis
  proof (cases "0 \<le> c")
    case True
    have "0 \<le> rnd_val f (- x)" using False by (intro rnd_val_nonneg) simp
    with True show ?thesis by (simp add: rnd_val_neg)
  next
    case c: False
    have "- c \<le> rnd_val f (- x)"
      using assms c by (intro rnd_val_ge_pos) simp_all
    then show ?thesis by (simp add: rnd_val_neg)
  qed
qed

lemma rnd_val_ge:
  assumes "on_grid f c" and "c \<le> x"
  shows "c \<le> rnd_val f x"
  using rnd_val_le [of f "- c" "- x"] assms by (simp add: rnd_val_neg)

lemma rnd_val_err:
  assumes "\<bar>x\<bar> < two_pow k" and "emin f + prec f \<le> k"
  shows "\<bar>rnd_val f x - x\<bar> \<le> two_pow (k - prec f - 1)"
proof (cases "x = 0")
  case False
  let ?u = "two_pow (ulp_exp f x)"
  have "ilog2 \<bar>x\<bar> < k" using assms(1) False by (intro ilog2_less) simp_all
  then have "ulp_exp f x \<le> k - prec f" using assms(2) by (simp add: ulp_exp_def)
  then have "?u \<le> two_pow (k - prec f)" by (rule two_pow_mono)
  moreover have "two_pow (k - prec f) = 2 * two_pow (k - prec f - 1)"
    using two_pow_Suc [of "k - prec f - 1"] by simp
  moreover have "rnd_val f x - x = (of_int (round_even (x / ?u)) - x / ?u) * ?u"
    using False by (simp add: rnd_val_def field_simps)
  then have "\<bar>rnd_val f x - x\<bar> = \<bar>of_int (round_even (x / ?u)) - x / ?u\<bar> * ?u"
    by (simp add: abs_mult)
  moreover have "\<dots> \<le> 1 / 2 * ?u"
    by (intro mult_right_mono round_even_err) (simp add: less_imp_le)
  ultimately show ?thesis by linarith
qed (simp add: less_imp_le)

section \<open>The rounded value as a float\<close>

lemma rnd_finite:
  assumes "\<bar>rnd_val f x\<bar> < two_pow (emax f)"
  shows "is_fin (rnd f s x) \<and> fval (rnd f s x) = rnd_val f x"
  using assms by (auto simp: rnd_def Let_def abs_less_iff)

lemma rnd_Fin:
  assumes "on_grid f x" and "\<bar>x\<bar> < two_pow (emax f)" and "x \<noteq> 0"
  shows "rnd f s x = Fin x"
  using assms rnd_val_exact [OF assms(1)] by (auto simp: rnd_def Let_def abs_less_iff)

lemma rnd_zero [simp]: "rnd f s 0 = (if s then NZero else Fin 0)"
  by (simp add: rnd_def)

text \<open>A result between representable bounds is finite and stays between them.\<close>

lemma rnd_between:
  assumes "on_grid f a" and "on_grid f b" and "a \<le> x" and "x \<le> b"
    and "- two_pow (emax f) < a" and "b < two_pow (emax f)"
  shows "is_fin (rnd f s x) \<and> fval (rnd f s x) = rnd_val f x
    \<and> a \<le> fval (rnd f s x) \<and> fval (rnd f s x) \<le> b"
proof -
  have "a \<le> rnd_val f x" "rnd_val f x \<le> b"
    using assms by (auto intro: rnd_val_le rnd_val_ge)
  with rnd_finite [of f x s] assms(5,6) show ?thesis by auto
qed

section \<open>Evaluation of closed terms\<close>

lemma bit_count_0 [fp_eval]: "bit_count 0 = 0"
  by (simp add: bit_count.simps)

lemma bit_count_1 [fp_eval]: "bit_count 1 = 1"
  by (simp add: bit_count.simps)

lemma bit_count_Bit0 [fp_eval]: "bit_count (numeral (Num.Bit0 n)) = 1 + bit_count (numeral n)"
  by (simp add: bit_count.simps [of "numeral (Num.Bit0 n)"])

lemma bit_count_Bit1 [fp_eval]: "bit_count (numeral (Num.Bit1 n)) = 1 + bit_count (numeral n)"
  by (simp add: bit_count.simps [of "numeral (Num.Bit1 n)"])

lemma floor_num_div [fp_eval]: "\<lfloor>(numeral a :: rat) / numeral b\<rfloor> = numeral a div numeral b"
  by (metis floor_divide_of_int_eq of_int_numeral)

lemma floor_one_div [fp_eval]: "\<lfloor>1 / (numeral b :: rat)\<rfloor> = 1 div numeral b"
  by (metis floor_divide_of_int_eq of_int_numeral of_int_1)

lemma floor_neg_num_div [fp_eval]: "\<lfloor>- ((numeral a :: rat) / numeral b)\<rfloor> = (- numeral a) div numeral b"
  by (metis floor_divide_of_int_eq of_int_numeral of_int_minus minus_divide_left)

lemma floor_neg_one_div [fp_eval]: "\<lfloor>- (1 / (numeral b :: rat))\<rfloor> = (- 1) div numeral b"
  by (metis floor_divide_of_int_eq of_int_numeral of_int_1 of_int_minus minus_divide_left)

lemma ceil_num_div [fp_eval]: "\<lceil>(numeral a :: rat) / numeral b\<rceil> = - ((- numeral a) div numeral b)"
  by (simp add: ceiling_def floor_neg_num_div)

lemma ceil_one_div [fp_eval]: "\<lceil>1 / (numeral b :: rat)\<rceil> = - ((- 1) div numeral b)"
  by (simp add: ceiling_def floor_neg_one_div)

lemmas fp_ops_eval [fp_eval] =
  rnd_def rnd_val_def ulp_exp_def ilog2_def round_even_def two_pow_def Let_def
  fp_lt_def fp_le_def fp_eq_def signed_inf_def signed_zero_def
  fp_add_def fp_sub_def fp_mul_def fp_div_def fp_max_def fp_min_def
  trunc_rat_def round_away_def fp_floor_def fp_ceil_def fp_trunc_def fp_round_def
  fp_to_u8_def fp_to_u32_def fp_to_u64_def fp_to_i64_def fp_of_int_def lit64_def lit32_def

section \<open>Values near a representable one\<close>

lemma two_pow_int_multiple: "k \<le> e \<Longrightarrow> \<exists>n. two_pow e = of_int n * two_pow k"
  using two_pow_add [of "e - k" k] two_pow_nat [of "e - k"] by auto

lemma on_grid_ulp:
  assumes "on_grid f x" and "0 < x"
  obtains m where "x = of_int m * two_pow (ulp_exp f x)" "ulp_exp f x \<le> ilog2 x" "x < two_pow (ulp_exp f x + prec f)"
proof -
  obtain m where m: "x / two_pow (ulp_exp f x) = of_int m"
    using on_grid_multiple [OF assms(1) _ order_refl] assms(2) by auto
  then have x: "x = of_int m * two_pow (ulp_exp f x)" by (simp add: field_simps)
  have "0 < (of_int m :: rat)" using assms(2) by (simp flip: m)
  then have "1 \<le> m" by simp
  then have "(of_int 1 :: rat) \<le> of_int m" by (subst of_int_le_iff)
  then have "1 * two_pow (ulp_exp f x) \<le> of_int m * two_pow (ulp_exp f x)" by (intro mult_right_mono) (simp_all add: less_imp_le)
  then have "two_pow (ulp_exp f x) \<le> x" using x by simp
  then have "two_pow (ulp_exp f x) < two_pow (ilog2 x + 1)" using ilog2_bounds [OF assms(2)] by linarith
  then have "ulp_exp f x \<le> ilog2 x" by simp
  moreover have "x < two_pow (ulp_exp f x + prec f)"
  proof -
    have "two_pow (ilog2 x + 1) \<le> two_pow (ulp_exp f x + prec f)"
      using assms(2) by (intro two_pow_mono) (simp add: ulp_exp_def)
    then show ?thesis using ilog2_bounds [OF assms(2)] by linarith
  qed
  ultimately show ?thesis using that x by blast
qed

text \<open>A multiple of a power of two below another multiple is at least that power below.\<close>

lemma multiple_gap: "a = of_int m * two_pow k \<Longrightarrow> b = of_int n * two_pow k \<Longrightarrow> a < b \<Longrightarrow> two_pow k \<le> b - a"
proof -
  assume a: "a = of_int m * two_pow k" "b = of_int n * two_pow k" "a < b"
  then have "of_int m * two_pow k < (of_int n * two_pow k :: rat)" by simp
  then have "m < n" by simp
  then have "(of_int 1 :: rat) \<le> of_int (n - m)" by (subst of_int_le_iff) simp
  then have "1 * two_pow k \<le> of_int (n - m) * two_pow k" by (intro mult_right_mono) (simp_all add: less_imp_le)
  then show ?thesis by (simp add: a left_diff_distrib)
qed

lemma round_even_near:
  assumes "\<bar>y - of_int n\<bar> < 1 / 2"
  shows "round_even y = n"
proof -
  have "\<bar>of_int (round_even y) - of_int n\<bar> < (1 :: rat)" using assms round_even_err [of y] by linarith
  then have "\<bar>of_int (round_even y - n)\<bar> < (1 :: rat)" by simp
  then have "of_int \<bar>round_even y - n\<bar> < (of_int 1 :: rat)" by simp
  then have "\<bar>round_even y - n\<bar> < 1" by (subst (asm) of_int_less_iff)
  then show ?thesis by simp
qed

text \<open>Within a part in \<open>2 ^ (p + 1)\<close> of a representable value everything is rounded to it.\<close>

lemma rnd_val_near:
  assumes "on_grid f x" and "0 < x" and "0 < v" and "\<bar>v - x\<bar> < x / two_pow (prec f + 1)"
  shows "rnd_val f v = x"
proof -
  let ?u = "ulp_exp f x" and ?w = "ulp_exp f v"
  obtain m where m: "x = of_int m * two_pow ?u" "?u \<le> ilog2 x" "x < two_pow (?u + prec f)"
    using on_grid_ulp [OF assms(1,2)] by blast
  note lx = ilog2_bounds [OF assms(2)] and lv = ilog2_bounds [OF assms(3)]
  have d: "\<bar>v - x\<bar> < two_pow (?u - 1)"
  proof -
    have "x / two_pow (prec f + 1) < two_pow (?u + prec f) / two_pow (prec f + 1)"
      using m(3) by (simp add: divide_strict_right_mono)
    also have "\<dots> = two_pow (?u - 1)" by (simp flip: two_pow_diff)
    finally show ?thesis using assms(4) by linarith
  qed
  have half: "two_pow ?u = 2 * two_pow (?u - 1)" using two_pow_Suc [of "?u - 1"] by simp
  have hit: "rnd_val f v = x" if w: "?w \<le> ?u" and dw: "\<bar>v - x\<bar> < two_pow (?w - 1)"
  proof -
    obtain n where n: "two_pow ?u = of_int n * two_pow ?w" using two_pow_int_multiple [OF w] by blast
    have x: "x = of_int (m * n) * two_pow ?w" by (subst m(1)) (simp add: n)
    have "two_pow ?w = 2 * two_pow (?w - 1)" using two_pow_Suc [of "?w - 1"] by simp
    then have "\<bar>v - of_int (m * n) * two_pow ?w\<bar> < two_pow ?w / 2" using dw x by simp
    then have "\<bar>v - of_int (m * n) * two_pow ?w\<bar> / two_pow ?w < 1 / 2" by (simp add: divide_less_eq)
    moreover have "\<bar>v - of_int (m * n) * two_pow ?w\<bar> / two_pow ?w = \<bar>v / two_pow ?w - of_int (m * n)\<bar>"
      by (subst abs_two_pow [symmetric, of ?w], subst abs_divide [symmetric]) (simp add: diff_divide_distrib)
    ultimately have "\<bar>v / two_pow ?w - of_int (m * n)\<bar> < 1 / 2" by linarith
    then have "round_even (v / two_pow ?w) = m * n" by (rule round_even_near)
    then show ?thesis using assms(3) x by (simp add: rnd_val_def)
  qed
  consider "ilog2 v = ilog2 x" | "ilog2 x < ilog2 v" | "ilog2 v < ilog2 x" by linarith
  then show ?thesis
  proof cases
    case 1
    then have "?w = ?u" using assms(2,3) by (simp add: ulp_exp_def)
    then show ?thesis using hit d by simp
  next
    case 2
    have "two_pow (ilog2 x + 1) \<le> two_pow (ilog2 v)" using 2 by (intro two_pow_mono) simp
    moreover obtain k where "two_pow (ilog2 x + 1) = of_int k * two_pow ?u"
      using two_pow_int_multiple [of ?u "ilog2 x + 1"] m(2) by auto
    then have "two_pow ?u \<le> two_pow (ilog2 x + 1) - x" using multiple_gap [OF m(1)] lx by blast
    ultimately show ?thesis using lv d half two_pow_pos [of "?u - 1"] by linarith
  next
    case 3
    obtain k where k: "two_pow (ilog2 x) = of_int k * two_pow ?u" using two_pow_int_multiple [OF m(2)] by blast
    have le: "two_pow (ilog2 v + 1) \<le> two_pow (ilog2 x)" using 3 by (intro two_pow_mono) simp
    have x: "x = two_pow (ilog2 x)"
    proof (rule ccontr)
      assume "x \<noteq> two_pow (ilog2 x)"
      then have "two_pow ?u \<le> x - two_pow (ilog2 x)" using multiple_gap [OF k m(1)] lx by linarith
      then show False using le lv d half two_pow_pos [of "?u - 1"] by linarith
    qed
    have eq: "ilog2 x = ilog2 v + 1"
    proof (rule ccontr)
      assume "ilog2 x \<noteq> ilog2 v + 1"
      then have "two_pow (ilog2 v + 1) \<le> two_pow (ilog2 x - 1)" using 3 by (intro two_pow_mono) simp
      moreover have "two_pow (ilog2 x) = 2 * two_pow (ilog2 x - 1)" using two_pow_Suc [of "ilog2 x - 1"] by simp
      moreover have "two_pow (?u - 1) \<le> two_pow (ilog2 x - 1)" using m(2) by (intro two_pow_mono) simp
      ultimately show False using lv d x by linarith
    qed
    have w: "?w \<le> ?u" using eq assms(2,3) by (simp add: ulp_exp_def)
    have "\<bar>v - x\<bar> < two_pow (?w - 1)"
    proof -
      have "ilog2 x - prec f \<le> ?w" using eq assms(3) by (simp add: ulp_exp_def)
      then have "two_pow (ilog2 x - (prec f + 1)) \<le> two_pow (?w - 1)" by (intro two_pow_mono) simp
      moreover have "x / two_pow (prec f + 1) = two_pow (ilog2 x - (prec f + 1))"
        by (subst x) (simp only: two_pow_diff)
      ultimately show ?thesis using assms(4) by linarith
    qed
    with w show ?thesis by (rule hit)
  qed
qed


section \<open>Results are values of the format\<close>

lemma round_even_abs: "\<bar>y\<bar> \<le> of_int n \<Longrightarrow> \<bar>round_even y\<bar> \<le> n"
  using round_even_le [of y n] round_even_ge [of "- n" y] by (simp add: abs_le_iff)

lemma on_grid_rnd_val: "on_grid f (rnd_val f x)"
proof (cases "x = 0")
  case False
  let ?u = "ulp_exp f x"
  define n where "n = round_even (x / two_pow ?u)"
  have r: "rnd_val f x = of_int n * two_pow ?u" using False by (simp add: rnd_val_def n_def)
  have e: "emin f \<le> ?u" by (simp add: ulp_exp_def)
  have p: "two_pow (prec f) = of_int (2 ^ nat (prec f))" by (rule two_pow_nat) (simp add: less_imp_le)
  have "two_pow (ilog2 \<bar>x\<bar> + 1) \<le> two_pow (?u + prec f)" by (intro two_pow_mono) (simp add: ulp_exp_def)
  then have "\<bar>x\<bar> \<le> two_pow (prec f) * two_pow ?u"
    using ilog2_bounds [of "\<bar>x\<bar>"] False by (simp add: two_pow_add mult.commute)
  then have "\<bar>x\<bar> / two_pow ?u \<le> two_pow (prec f)" by (simp add: divide_le_eq)
  then have "\<bar>x / two_pow ?u\<bar> \<le> of_int (2 ^ nat (prec f))" by (simp add: abs_divide p)
  then have n: "\<bar>n\<bar> \<le> 2 ^ nat (prec f)" unfolding n_def by (rule round_even_abs)
  show ?thesis
  proof (cases "\<bar>n\<bar> = 2 ^ nat (prec f)")
    case True
    have "of_int \<bar>n\<bar> * two_pow ?u = two_pow (?u + prec f)" unfolding True by (simp only: two_pow_add p mult.commute)
    then have "\<bar>rnd_val f x\<bar> = two_pow (?u + prec f)" by (simp add: r abs_mult)
    then have "on_grid f \<bar>rnd_val f x\<bar>"
      using e by (intro on_gridI [of _ 1 "?u + prec f"]) (cases f, simp_all)+
    then show ?thesis by (cases "0 \<le> rnd_val f x") simp_all
  next
    case False
    then show ?thesis using n e by (intro on_gridI [OF r]) simp_all
  qed
qed simp

lemma wf_rnd: "wf_fp f (rnd f s x)"
proof -
  have "\<bar>rnd_val f x\<bar> < two_pow (emax f)" if "\<not> two_pow (emax f) \<le> rnd_val f x" "\<not> rnd_val f x \<le> - two_pow (emax f)"
    using that by linarith
  then show ?thesis using on_grid_rnd_val [of f x] by (simp add: rnd_def Let_def)
qed

lemma wf_fp_div: "wf_fp f (fp_div f a b)"
  by (simp add: fp_div_def signed_zero_def signed_inf_def Let_def wf_rnd)

end
