(* ===== verification/Rust_Text.thy ===== *)
theory Rust_Text
  imports Ieee_Float
begin

text \<open>
  The part of Rust's \<open>str\<close>, \<open>char\<close> and \<open>format!\<close> the program uses, over UTF-8 byte
  sequences: character boundaries and decoding, the lossy UTF-8 decoder, trimming, ASCII
  case folding, substring search, integer parsing, and the decimal forms of integers and
  floats. The lemmas say what the decoder preserves: the line terminators of a byte string,
  where they stand, and nothing else of the ASCII range.
\<close>

section \<open>Bytes and ASCII\<close>

abbreviation byte_val :: "char \<Rightarrow> nat" where
  "byte_val c \<equiv> of_char c"

definition is_ascii :: "char \<Rightarrow> bool" where
  "is_ascii c = (byte_val c < 128)"

definition ascii_upper :: "char \<Rightarrow> char" where
  "ascii_upper c = (if 97 \<le> byte_val c \<and> byte_val c \<le> 122 then char_of (byte_val c - 32) else c)"

definition ascii_lower :: "char \<Rightarrow> char" where
  "ascii_lower c = (if 65 \<le> byte_val c \<and> byte_val c \<le> 90 then char_of (byte_val c + 32) else c)"

text \<open>\<open>to_ascii_uppercase\<close> and \<open>eq_ignore_ascii_case\<close>.\<close>

definition to_ascii_uppercase :: "string \<Rightarrow> string" where
  "to_ascii_uppercase s = map ascii_upper s"

definition eq_ignore_ascii_case :: "string \<Rightarrow> string \<Rightarrow> bool" where
  "eq_ignore_ascii_case a b = (map ascii_lower a = map ascii_lower b)"

section \<open>Line terminators\<close>

definition is_crlf :: "char \<Rightarrow> bool" where
  "is_crlf c = (c = CHR 0x0D \<or> c = CHR 0x0A)"

text \<open>\<open>trim_end_matches(['\r', '\n'])\<close>.\<close>

definition trim_end_crlf :: "string \<Rightarrow> string" where
  "trim_end_crlf s = rev (dropWhile is_crlf (rev s))"

text \<open>The test both gates make: a line terminator that is not trailing.\<close>

definition embedded_crlf :: "string \<Rightarrow> bool" where
  "embedded_crlf s = list_ex is_crlf (trim_end_crlf s)"

section \<open>UTF-8\<close>

definition is_cont :: "char \<Rightarrow> bool" where
  "is_cont c = (128 \<le> byte_val c \<and> byte_val c < 192)"

text \<open>The characters of a \<open>String\<close>, each as its bytes (\<open>chars()\<close>).\<close>

function utf8_chars :: "string \<Rightarrow> string list" where
  "utf8_chars [] = []"
| "utf8_chars (c # cs) = (c # takeWhile is_cont cs) # utf8_chars (dropWhile is_cont cs)"
  by pat_completeness auto
termination
  by (relation "measure length") (auto simp: le_imp_less_Suc length_dropWhile_le)

text \<open>The scalar value of one encoded character.\<close>

fun utf8_scalar :: "string \<Rightarrow> rchar" where
  "utf8_scalar [] = 0"
| "utf8_scalar [a] = byte_val a"
| "utf8_scalar [a, b] = (byte_val a - 192) * 64 + (byte_val b - 128)"
| "utf8_scalar [a, b, c] = (byte_val a - 224) * 4096 + (byte_val b - 128) * 64 + (byte_val c - 128)"
| "utf8_scalar (a # b # c # d # _) =
     (byte_val a - 240) * 262144 + (byte_val b - 128) * 4096 + (byte_val c - 128) * 64
     + (byte_val d - 128)"

definition nth_char :: "nat \<Rightarrow> string \<Rightarrow> string option" where
  "nth_char n s = (let cs = utf8_chars s in if n < length cs then Some (cs ! n) else None)"

definition char_count :: "string \<Rightarrow> nat" where
  "char_count s = length (utf8_chars s)"

text \<open>\<open>s.get(n..)\<close>: \<open>None\<close> past the end or inside a character.\<close>

definition str_from :: "nat \<Rightarrow> string \<Rightarrow> string option" where
  "str_from n s =
     (if n < length s then (if is_cont (s ! n) then None else Some (drop n s))
      else if n = length s then Some [] else None)"

text \<open>
  One step of \<open>from_utf8_lossy\<close> at the byte \<open>b\<close> followed by \<open>r\<close>: whether a well-formed
  character starts here, and how many bytes the character, or else the maximal ill-formed
  prefix, takes.
\<close>

definition in_range :: "nat \<Rightarrow> nat \<Rightarrow> char list \<Rightarrow> nat \<Rightarrow> bool" where
  "in_range lo hi r i = (i < length r \<and> lo \<le> byte_val (r ! i) \<and> byte_val (r ! i) \<le> hi)"

definition second_ok :: "nat \<Rightarrow> char list \<Rightarrow> bool" where
  "second_ok b r =
     (if b = 224 then in_range 160 191 r 0
      else if b = 237 then in_range 128 159 r 0
      else if b = 240 then in_range 144 191 r 0
      else if b = 244 then in_range 128 143 r 0
      else in_range 128 191 r 0)"

definition utf8_step :: "char \<Rightarrow> char list \<Rightarrow> bool \<times> nat" where
  "utf8_step c r = (let b = byte_val c in
     if b < 128 then (True, 1)
     else if 194 \<le> b \<and> b \<le> 223 then (if second_ok b r then (True, 2) else (False, 1))
     else if 224 \<le> b \<and> b \<le> 239 then
       (if \<not> second_ok b r then (False, 1)
        else if in_range 128 191 r 1 then (True, 3) else (False, 2))
     else if 240 \<le> b \<and> b \<le> 244 then
       (if \<not> second_ok b r then (False, 1)
        else if \<not> in_range 128 191 r 1 then (False, 2)
        else if in_range 128 191 r 2 then (True, 4) else (False, 3))
     else (False, 1))"

definition replacement_char :: string where
  "replacement_char = [CHR 0xEF, CHR 0xBF, CHR 0xBD]"

function utf8_lossy :: "bytes \<Rightarrow> string" where
  "utf8_lossy [] = []"
| "utf8_lossy (c # r) = (let (ok, n) = utf8_step c r in
     (if ok then take n (c # r) else replacement_char) @ utf8_lossy (drop (n - 1) r))"
  by pat_completeness auto
termination
  by (relation "measure length") auto

text \<open>What a \<open>String\<close> holds: the decoder leaves it unchanged.\<close>

definition valid_utf8 :: "string \<Rightarrow> bool" where
  "valid_utf8 s = (utf8_lossy s = s)"

section \<open>Searching and trimming\<close>

fun starts_with :: "string \<Rightarrow> string \<Rightarrow> bool" where
  "starts_with [] s = True"
| "starts_with (p # ps) [] = False"
| "starts_with (p # ps) (c # cs) = (p = c \<and> starts_with ps cs)"

text \<open>\<open>s.contains(p)\<close>.\<close>

fun str_contains :: "string \<Rightarrow> string \<Rightarrow> bool" where
  "str_contains p [] = (p = [])"
| "str_contains p (c # cs) = (starts_with p (c # cs) \<or> str_contains p cs)"

text \<open>\<open>char::is_whitespace\<close> (the White_Space property).\<close>

definition is_whitespace :: "rchar \<Rightarrow> bool" where
  "is_whitespace c =
     (9 \<le> c \<and> c \<le> 13 \<or> c = 32 \<or> c = 133 \<or> c = 160 \<or> c = 5760 \<or> 8192 \<le> c \<and> c \<le> 8202
      \<or> c = 8232 \<or> c = 8233 \<or> c = 8239 \<or> c = 8287 \<or> c = 12288)"

text \<open>\<open>s.trim()\<close>.\<close>

definition str_trim :: "string \<Rightarrow> string" where
  "str_trim s = (let ws = (\<lambda>ch. is_whitespace (utf8_scalar ch))
     in concat (rev (dropWhile ws (rev (dropWhile ws (utf8_chars s))))))"

fun join_with :: "string \<Rightarrow> string list \<Rightarrow> string" where
  "join_with sep [] = []"
| "join_with sep [x] = x"
| "join_with sep (x # y # xs) = x @ sep @ join_with sep (y # xs)"

section \<open>Decimal integers\<close>

definition digit_char :: "int \<Rightarrow> char" where
  "digit_char d = ''0123456789'' ! nat d"

function show_dec :: "int \<Rightarrow> string" where
  "show_dec n = (if n < 10 then [digit_char n] else show_dec (n div 10) @ [digit_char (n mod 10)])"
  by pat_completeness auto
termination
  by (relation "measure nat") auto

declare show_dec.simps [simp del]

definition show_int :: "int \<Rightarrow> string" where
  "show_int i = (if i < 0 then ''-'' else []) @ show_dec \<bar>i\<bar>"

definition show_nat :: "nat \<Rightarrow> string" where
  "show_nat n = show_dec (int n)"

text \<open>\<open>{:0w}\<close> of an unsigned integer, and \<open>{: <w}\<close> of a string (counted in characters).\<close>

definition pad_left :: "nat \<Rightarrow> char \<Rightarrow> string \<Rightarrow> string" where
  "pad_left w c s = replicate (w - length s) c @ s"

definition show_pad0 :: "nat \<Rightarrow> int \<Rightarrow> string" where
  "show_pad0 w n = pad_left w CHR ''0'' (show_dec n)"

definition pad_right :: "nat \<Rightarrow> string \<Rightarrow> string" where
  "pad_right w s = s @ replicate (w - char_count s) CHR '' ''"

definition digit_val :: "char \<Rightarrow> int option" where
  "digit_val c = (let b = byte_val c in if 48 \<le> b \<and> b \<le> 57 then Some (int b - 48) else None)"

fun parse_digits :: "int \<Rightarrow> string \<Rightarrow> int option" where
  "parse_digits acc [] = Some acc"
| "parse_digits acc (c # cs) =
     (case digit_val c of None \<Rightarrow> None | Some d \<Rightarrow> parse_digits (10 * acc + d) cs)"

text \<open>\<open>str::parse::<i32>\<close>: an optional sign, at least one digit, and no overflow.\<close>

definition parse_int :: "int \<Rightarrow> int \<Rightarrow> string \<Rightarrow> int option" where
  "parse_int lo hi s =
     (let (neg, ds) = (case s of [] \<Rightarrow> (False, [])
        | c # cs \<Rightarrow> if c = CHR ''-'' then (True, cs) else if c = CHR ''+'' then (False, cs)
                    else (False, c # cs))
      in if ds = [] then None
         else case parse_digits 0 ds of None \<Rightarrow> None
           | Some n \<Rightarrow> let i = (if neg then - n else n)
               in if lo \<le> i \<and> i \<le> hi then Some i else None)"

definition parse_i32 :: "string \<Rightarrow> int option" where
  "parse_i32 = parse_int (- 2147483648) 2147483647"

text \<open>An unsigned type accepts a plus sign but no minus sign.\<close>

definition parse_u32 :: "string \<Rightarrow> int option" where
  "parse_u32 s = (case s of c # _ \<Rightarrow> if c = CHR ''-'' then None else parse_int 0 4294967295 s
     | [] \<Rightarrow> None)"

section \<open>Decimal floats\<close>

text \<open>\<open>{:.n}\<close>: the nearest decimal with \<open>n\<close> places, ties to even.\<close>

definition show_fixed_abs :: "nat \<Rightarrow> rat \<Rightarrow> string" where
  "show_fixed_abs n x = (let r = round_even (x * 10 ^ n) in
     show_dec (r div 10 ^ n) @ (if n = 0 then [] else ''.'' @ show_pad0 n (r mod 10 ^ n)))"

fun show_unsigned_fixed :: "nat \<Rightarrow> fp \<Rightarrow> string" where
  "show_unsigned_fixed n NaN = ''NaN''"
| "show_unsigned_fixed n PInf = ''inf''"
| "show_unsigned_fixed n NInf = ''inf''"
| "show_unsigned_fixed n a = show_fixed_abs n \<bar>fval a\<bar>"

definition show_fixed :: "nat \<Rightarrow> fp \<Rightarrow> string" where
  "show_fixed n a = (if sign_bit a then ''-'' else []) @ show_unsigned_fixed n a"

text \<open>\<open>{:0w.n}\<close>: zeros between the sign and the digits.\<close>

definition show_pad0_fixed :: "nat \<Rightarrow> nat \<Rightarrow> fp \<Rightarrow> string" where
  "show_pad0_fixed w n a = (let s = (if sign_bit a then ''-'' else []) in
     s @ pad_left (w - length s) CHR ''0'' (show_unsigned_fixed n a))"

text \<open>
  \<open>{}\<close> of a float: the shortest decimal that reads back as the same value and, among
  those, the closest to it. \<open>dec_exp x\<close> is the least \<open>p\<close> with \<open>x < 10 ^ p\<close>.
\<close>

definition dec_exp :: "rat \<Rightarrow> int" where
  "dec_exp x = (if 1 \<le> x then int (length (show_dec \<lfloor>x\<rfloor>))
     else 1 - int (length (show_dec (\<lceil>1 / x\<rceil> - 1))))"

definition ten_pow :: "int \<Rightarrow> rat" where
  "ten_pow e = (if 0 \<le> e then 10 ^ nat e else 1 / 10 ^ nat (- e))"

fun shortest_from :: "nat \<Rightarrow> fmt \<Rightarrow> rat \<Rightarrow> nat \<Rightarrow> int \<times> int" where
  "shortest_from 0 f x n = (round_even (x * ten_pow (int n - dec_exp x)), dec_exp x - int n)"
| "shortest_from (Suc k) f x n =
     (let s = ten_pow (int n - dec_exp x); y = x * s; lo = \<lfloor>y\<rfloor>; hi = \<lceil>y\<rceil>;
          ok_lo = (rnd_val f (of_int lo / s) = x); ok_hi = (rnd_val f (of_int hi / s) = x)
      in if ok_lo \<and> (\<not> ok_hi \<or> y - of_int lo \<le> of_int hi - y) then (lo, dec_exp x - int n)
         else if ok_hi then (hi, dec_exp x - int n)
         else shortest_from k f x (Suc n))"

definition strip_zeros :: "string \<Rightarrow> string" where
  "strip_zeros s = rev (dropWhile (\<lambda>c. c = CHR ''0'') (rev s))"

definition show_scaled :: "int \<Rightarrow> int \<Rightarrow> string" where
  "show_scaled d e =
     (if 0 \<le> e then show_dec (d * 10 ^ nat e)
      else let p = 10 ^ nat (- e); frac = strip_zeros (show_pad0 (nat (- e)) (d mod p))
           in show_dec (d div p) @ (if frac = [] then [] else ''.'' @ frac))"

fun fp_display :: "fmt \<Rightarrow> fp \<Rightarrow> string" where
  "fp_display f NaN = ''NaN''"
| "fp_display f PInf = ''inf''"
| "fp_display f NInf = ''-inf''"
| "fp_display f NZero = ''-0''"
| "fp_display f (Fin x) =
     (if x = 0 then ''0''
      else let (d, e) = shortest_from 16 f \<bar>x\<bar> 1
           in (if x < 0 then ''-'' else []) @ show_scaled d e)"

section \<open>What the lossy decoder preserves\<close>

lemma not_crlf_cont: "128 \<le> byte_val c \<Longrightarrow> \<not> is_crlf c"
  by (auto simp: is_crlf_def)

lemma in_range_cont: "in_range lo hi r i \<Longrightarrow> 128 \<le> lo \<Longrightarrow> i < length r \<and> \<not> is_ascii (r ! i)"
  by (auto simp: in_range_def is_ascii_def)

lemma second_ok_cont: "second_ok b r \<Longrightarrow> 0 < length r \<and> \<not> is_ascii (r ! 0)"
  by (auto simp: second_ok_def is_ascii_def in_range_def split: if_splits)

text \<open>The bytes a step consumes: one ASCII byte kept as it is, or a run without ASCII bytes.\<close>

lemma utf8_step_ascii: "is_ascii c \<Longrightarrow> utf8_step c r = (True, 1)"
  by (simp add: utf8_step_def is_ascii_def)

lemma take_prefix_ascii:
  "(\<And>i. i < n \<Longrightarrow> i < length r \<and> \<not> is_ascii (r ! i)) \<Longrightarrow> \<forall>y\<in>set (take n r). \<not> is_ascii y"
  by (auto simp: in_set_conv_nth)

lemma utf8_step_run:
  "utf8_step c r = (ok, n) \<Longrightarrow> \<not> is_ascii c \<Longrightarrow>
     n = 1 \<or> second_ok (byte_val c) r \<and>
       (n = 2 \<or> in_range 128 191 r 1 \<and> (n = 3 \<or> n = 4 \<and> in_range 128 191 r 2))"
  unfolding utf8_step_def is_ascii_def Let_def by (simp split: if_splits)

lemma utf8_step_other:
  assumes "utf8_step c r = (ok, n)" and "\<not> is_ascii c"
  shows "0 < n \<and> n \<le> Suc (length r) \<and> (\<forall>y\<in>set (take (n - 1) r). \<not> is_ascii y)"
proof -
  from utf8_step_run [OF assms] consider "n = 1"
    | "n = 2" "0 < length r \<and> \<not> is_ascii (r ! 0)"
    | "n = 3" "0 < length r \<and> \<not> is_ascii (r ! 0)" "1 < length r \<and> \<not> is_ascii (r ! 1)"
    | "n = 4" "0 < length r \<and> \<not> is_ascii (r ! 0)" "1 < length r \<and> \<not> is_ascii (r ! 1)"
        "2 < length r \<and> \<not> is_ascii (r ! 2)"
    using second_ok_cont [of "byte_val c" r] in_range_cont [of 128 191 r] by blast
  then show ?thesis
  proof cases
    case 2
    then show ?thesis by (cases r) auto
  next
    case 3
    then show ?thesis by (auto intro!: take_prefix_ascii simp: less_Suc_eq numeral_2_eq_2)
  next
    case 4
    then show ?thesis
      by (auto intro!: take_prefix_ascii simp: less_Suc_eq numeral_3_eq_3 numeral_2_eq_2)
  qed simp
qed

lemma replacement_not_ascii: "\<forall>y\<in>set replacement_char. \<not> is_ascii y"
  by (simp add: replacement_char_def is_ascii_def)

declare utf8_lossy.simps(2) [simp del]

text \<open>
  The decoder as a relation of input and output: an ASCII byte is copied, a run without
  ASCII bytes becomes another such run.
\<close>

lemma utf8_lossy_rel:
  assumes nil: "R [] []"
    and ascii: "\<And>c r s. is_ascii c \<Longrightarrow> R r s \<Longrightarrow> R (c # r) (c # s)"
    and run: "\<And>x xs y ys r s. \<forall>z\<in>set (x # xs @ y # ys). \<not> is_ascii z \<Longrightarrow> R r s
                \<Longrightarrow> R ((x # xs) @ r) ((y # ys) @ s)"
  shows "R bs (utf8_lossy bs)"
proof (induction bs rule: length_induct)
  case (1 bs)
  show ?case
  proof (cases bs)
    case (Cons c r)
    obtain ok n where st: "utf8_step c r = (ok, n)" by (cases "utf8_step c r")
    have IH: "R (drop (n - 1) r) (utf8_lossy (drop (n - 1) r))" using "1.IH" Cons by simp
    show ?thesis
    proof (cases "is_ascii c")
      case True
      with st have "ok" "n = 1" by (simp_all add: utf8_step_ascii)
      then show ?thesis using ascii [OF True] IH st by (simp add: Cons utf8_lossy.simps)
    next
      case False
      note s = utf8_step_other [OF st False]
      then have t: "take n (c # r) = c # take (n - 1) r" by (cases n) simp_all
      obtain y ys where o: "(if ok then take n (c # r) else replacement_char) = y # ys"
        and ys: "\<forall>z\<in>set (y # ys). \<not> is_ascii z"
        using s False replacement_not_ascii
        by (cases ok) (auto simp: t, simp add: replacement_char_def)
      have "R ((c # take (n - 1) r) @ drop (n - 1) r) ((y # ys) @ utf8_lossy (drop (n - 1) r))"
        using s ys False IH by (intro run) auto
      then show ?thesis by (simp add: Cons utf8_lossy.simps st flip: o)
    qed
  qed (simp add: nil)
qed

lemma filter_ascii_none: "\<forall>y\<in>set xs. \<not> is_ascii y \<Longrightarrow> filter is_ascii xs = []"
  by (simp add: filter_empty_conv)

lemma utf8_lossy_ascii: "filter is_ascii (utf8_lossy bs) = filter is_ascii bs"
  by (rule utf8_lossy_rel [where R = "\<lambda>r s. filter is_ascii s = filter is_ascii r"])
    (auto simp: filter_ascii_none)

lemma utf8_lossy_id: "\<forall>c\<in>set bs. is_ascii c \<Longrightarrow> utf8_lossy bs = bs"
  by (induction bs) (auto simp: utf8_lossy.simps utf8_step_ascii)

section \<open>Embedded line terminators\<close>

lemma is_crlf_ascii: "is_crlf c \<Longrightarrow> is_ascii c"
  by (auto simp: is_crlf_def is_ascii_def)

lemma embedded_crlf_Nil [simp]: "\<not> embedded_crlf []"
  by (simp add: embedded_crlf_def trim_end_crlf_def)

lemma trim_end_crlf_all: "\<forall>y\<in>set s. is_crlf y \<Longrightarrow> trim_end_crlf s = []"
  by (simp add: trim_end_crlf_def)

lemma trim_end_crlf_Cons:
  "trim_end_crlf (c # s) =
     (if \<forall>y\<in>set s. is_crlf y then (if is_crlf c then [] else [c]) else c # trim_end_crlf s)"
  by (auto simp: trim_end_crlf_def dropWhile_append dropWhile_eq_Nil_conv)

lemma embedded_crlf_Cons:
  "embedded_crlf (c # s) \<longleftrightarrow> is_crlf c \<and> (\<exists>y\<in>set s. \<not> is_crlf y) \<or> embedded_crlf s"
  by (auto simp: embedded_crlf_def trim_end_crlf_Cons trim_end_crlf_all)

lemma embedded_crlf_split:
  "embedded_crlf s \<longleftrightarrow> (\<exists>u c v. s = u @ c # v \<and> is_crlf c \<and> (\<exists>y\<in>set v. \<not> is_crlf y))"
proof (induction s)
  case (Cons a s)
  show ?case
  proof
    assume "embedded_crlf (a # s)"
    then consider "is_crlf a \<and> (\<exists>y\<in>set s. \<not> is_crlf y)" | "embedded_crlf s"
      by (auto simp: embedded_crlf_Cons)
    then show "\<exists>u c v. a # s = u @ c # v \<and> is_crlf c \<and> (\<exists>y\<in>set v. \<not> is_crlf y)"
      by cases (use Cons.IH in \<open>metis append_Nil, metis append_Cons\<close>)
  next
    assume "\<exists>u c v. a # s = u @ c # v \<and> is_crlf c \<and> (\<exists>y\<in>set v. \<not> is_crlf y)"
    then obtain u c v where "a # s = u @ c # v" "is_crlf c" "\<exists>y\<in>set v. \<not> is_crlf y" by blast
    then show "embedded_crlf (a # s)"
      using Cons.IH by (cases u) (auto simp: embedded_crlf_Cons)
  qed
qed simp

lemma embedded_crlf_append_other:
  "\<forall>y\<in>set xs. \<not> is_crlf y \<Longrightarrow> embedded_crlf (xs @ ys) = embedded_crlf ys"
  by (induction xs) (auto simp: embedded_crlf_Cons)

text \<open>The decoder neither adds, removes nor moves a line terminator.\<close>

lemma embedded_crlf_lossy: "embedded_crlf (utf8_lossy bs) = embedded_crlf bs"
proof -
  have "(\<exists>y\<in>set (utf8_lossy bs). \<not> is_crlf y) = (\<exists>y\<in>set bs. \<not> is_crlf y)
      \<and> embedded_crlf (utf8_lossy bs) = embedded_crlf bs"
  proof (rule utf8_lossy_rel [where R = "\<lambda>r s. (\<exists>y\<in>set s. \<not> is_crlf y) = (\<exists>y\<in>set r. \<not> is_crlf y)
      \<and> embedded_crlf s = embedded_crlf r"], goal_cases)
    case (3 x xs y ys r s)
    then have "\<forall>z\<in>set (x # xs). \<not> is_crlf z" "\<forall>z\<in>set (y # ys). \<not> is_crlf z"
      using is_crlf_ascii by auto
    with 3(2) embedded_crlf_append_other show ?case by (metis (no_types) append_Cons list.set_intros(1))
  qed (auto simp: embedded_crlf_Cons)
  then show ?thesis by blast
qed

lemma trim_end_crlf_clean: "\<not> embedded_crlf s \<Longrightarrow> \<forall>y\<in>set (trim_end_crlf s). \<not> is_crlf y"
  by (simp add: embedded_crlf_def list_ex_iff)

lemma trim_end_crlf_id: "\<forall>y\<in>set s. \<not> is_crlf y \<Longrightarrow> trim_end_crlf s = s"
  by (induction s) (simp add: trim_end_crlf_def, auto simp: trim_end_crlf_Cons trim_end_crlf_all)

section \<open>Decimal forms\<close>

lemma show_dec_small: "n < 10 \<Longrightarrow> show_dec n = [digit_char n]"
  by (simp add: show_dec.simps)

lemma show_dec_step: "10 \<le> n \<Longrightarrow> show_dec n = show_dec (n div 10) @ [digit_char (n mod 10)]"
  by (simp add: show_dec.simps [of n])

lemma less_ten_cases: "0 \<le> (d::int) \<Longrightarrow> d < 10 \<Longrightarrow> d \<in> {0, 1, 2, 3, 4, 5, 6, 7, 8, 9}"
  by (simp only: insert_iff empty_iff) presburger

lemma digit_val_digit_char [simp]: "0 \<le> d \<Longrightarrow> d < 10 \<Longrightarrow> digit_val (digit_char d) = Some d"
  using less_ten_cases [of d] by (auto simp: digit_val_def digit_char_def)

definition is_digit :: "char \<Rightarrow> bool" where
  "is_digit c = (digit_val c \<noteq> None)"

lemma is_digit_digit_char [simp]: "0 \<le> d \<Longrightarrow> d < 10 \<Longrightarrow> is_digit (digit_char d)"
  by (simp add: is_digit_def)

lemma is_digit_not_crlf: "is_digit c \<Longrightarrow> \<not> is_crlf c \<and> is_ascii c \<and> c \<noteq> CHR ''-'' \<and> c \<noteq> CHR ''+''"
  by (auto simp: is_digit_def digit_val_def is_crlf_def is_ascii_def Let_def split: if_splits)

lemma show_dec_nonempty [simp]: "show_dec n \<noteq> []"
  by (cases "n < 10") (simp_all add: show_dec_small show_dec_step)

lemma show_dec_digits: "0 \<le> n \<Longrightarrow> \<forall>c\<in>set (show_dec n). is_digit c"
proof (induction n rule: show_dec.induct)
  case (1 n)
  then show ?case by (cases "n < 10") (auto simp: show_dec_small show_dec_step)
qed

lemma length_show_dec: "0 \<le> n \<Longrightarrow> n < 10 ^ Suc k \<Longrightarrow> length (show_dec n) \<le> Suc k"
proof (induction k arbitrary: n)
  case (Suc k)
  show ?case
  proof (cases "n < 10")
    case False
    have "n div 10 < 10 ^ Suc k" using Suc.prems by simp
    then show ?thesis using Suc.IH [of "n div 10"] Suc.prems False by (simp add: show_dec_step)
  qed (simp add: show_dec_small)
qed (simp add: show_dec_small)

lemma length_show_pad0: "0 \<le> n \<Longrightarrow> n < 10 ^ Suc k \<Longrightarrow> length (show_pad0 (Suc k) n) = Suc k"
  using length_show_dec [of n k] by (simp add: show_pad0_def pad_left_def)

lemma show_pad0_digits: "0 \<le> n \<Longrightarrow> \<forall>c\<in>set (show_pad0 k n). is_digit c"
  using show_dec_digits [of n] is_digit_digit_char [of 0]
  by (auto simp: show_pad0_def pad_left_def digit_char_def)

lemma parse_digits_append:
  "parse_digits a (xs @ ys) = (case parse_digits a xs of None \<Rightarrow> None | Some b \<Rightarrow> parse_digits b ys)"
  by (induction xs arbitrary: a) (simp_all split: option.split)

text \<open>Reading a printed number gives it back.\<close>

lemma parse_digits_show_dec: "0 \<le> n \<Longrightarrow> parse_digits 0 (show_dec n) = Some n"
proof (induction n rule: show_dec.induct)
  case (1 n)
  then show ?case by (cases "n < 10") (simp_all add: show_dec_small show_dec_step parse_digits_append)
qed

lemma parse_int_show_int:
  assumes "lo \<le> i" and "i \<le> hi"
  shows "parse_int lo hi (show_int i) = Some i"
proof -
  obtain c cs where s: "show_dec \<bar>i\<bar> = c # cs" using show_dec_nonempty list.exhaust by blast
  then have "is_digit c" using show_dec_digits [of "\<bar>i\<bar>"] by simp
  then have c: "c \<noteq> CHR ''-''" "c \<noteq> CHR ''+''" using is_digit_not_crlf by blast+
  have p: "parse_digits 0 (c # cs) = Some \<bar>i\<bar>"
    using parse_digits_show_dec [of "\<bar>i\<bar>"] by (simp only: s abs_ge_zero)
  show ?thesis
  proof (cases "i < 0")
    case True
    then have "show_dec (- i) = c # cs" "\<bar>i\<bar> = - i" using s by simp_all
    with assms p True show ?thesis by (simp add: parse_int_def show_int_def del: parse_digits.simps)
  next
    case False
    then have "show_dec i = c # cs" "\<bar>i\<bar> = i" using s by simp_all
    with assms p c False show ?thesis by (simp add: parse_int_def show_int_def del: parse_digits.simps)
  qed
qed

lemma show_dec_not_crlf: "0 \<le> n \<Longrightarrow> \<forall>c\<in>set (show_dec n). \<not> is_crlf c"
  using show_dec_digits is_digit_not_crlf by blast

lemma show_int_not_crlf: "\<forall>c\<in>set (show_int i). \<not> is_crlf c"
  using show_dec_not_crlf [of "\<bar>i\<bar>"] 
  by (auto simp: show_int_def is_crlf_def split: if_splits)

section \<open>Substrings\<close>

lemma starts_with_split: "starts_with p s \<longleftrightarrow> (\<exists>v. s = p @ v)"
  by (induction p s rule: starts_with.induct) auto

lemma str_contains_split: "str_contains p s \<longleftrightarrow> (\<exists>u v. s = u @ p @ v)"
proof (induction s)
  case (Cons c cs)
  have "(\<exists>u v. c # cs = u @ p @ v) \<longleftrightarrow> (\<exists>v. c # cs = p @ v) \<or> (\<exists>u v. cs = u @ p @ v)"
    by (metis append_Cons append_Nil list.exhaust list.sel(3))
  then show ?case using Cons.IH by (simp add: starts_with_split)
qed simp

section \<open>Evaluation of closed terms\<close>

lemma show_dec_eval [fp_eval]:
  "show_dec 0 = ''0''" "show_dec 1 = ''1''"
  "show_dec (numeral k) = (if numeral k < (10::int) then [digit_char (numeral k)]
     else show_dec (numeral k div 10) @ [digit_char (numeral k mod 10)])"
  by (simp_all add: show_dec.simps [of 0] show_dec.simps [of 1] show_dec.simps [of "numeral k"] digit_char_def)

lemmas text_eval [fp_eval] =
  show_int_def show_nat_def digit_char_def pad_left_def show_pad0_def pad_right_def char_count_def
  show_fixed_abs_def show_fixed_def show_pad0_fixed_def dec_exp_def ten_pow_def strip_zeros_def
  show_scaled_def

section \<open>Strings\<close>

text \<open>
  The decoder's output is a \<open>String\<close>, strings joined are one, and their characters are scalar
  values. A step that finds a character reads no further than the character.
\<close>

lemma utf8_step_True: "utf8_step c r = (True, n) \<longleftrightarrow> (let b = byte_val c in
    n = 1 \<and> b < 128 \<or> n = 2 \<and> 194 \<le> b \<and> b \<le> 223 \<and> second_ok b r
    \<or> n = 3 \<and> 224 \<le> b \<and> b \<le> 239 \<and> second_ok b r \<and> in_range 128 191 r 1
    \<or> n = 4 \<and> 240 \<le> b \<and> b \<le> 244 \<and> second_ok b r \<and> in_range 128 191 r 1 \<and> in_range 128 191 r 2)"
  by (auto simp: utf8_step_def Let_def)

lemma second_ok_len: "second_ok b r \<Longrightarrow> 0 < length r"
  using second_ok_cont by blast

lemma in_range_len: "in_range lo hi r i \<Longrightarrow> i < length r"
  by (simp add: in_range_def)

lemma in_range_take: "i < m \<Longrightarrow> m \<le> length r \<Longrightarrow> in_range lo hi (take m r @ x) i = in_range lo hi r i"
  by (simp add: in_range_def nth_append)

lemma second_ok_take: "0 < m \<Longrightarrow> m \<le> length r \<Longrightarrow> second_ok b (take m r @ x) = second_ok b r"
  by (simp add: second_ok_def in_range_take)

lemma utf8_step_len: "utf8_step c r = (True, n) \<Longrightarrow> 0 < n \<and> n - 1 \<le> length r"
  unfolding utf8_step_True Let_def by (auto dest!: second_ok_len in_range_len simp: Suc_le_eq)

lemma utf8_step_ext:
  assumes "utf8_step c r = (True, n)"
  shows "utf8_step c (take (n - 1) r @ x) = (True, n)"
proof -
  have "n - 1 \<le> length r" using utf8_step_len [OF assms] by blast
  with assms show ?thesis unfolding utf8_step_True Let_def
    by (elim disjE) (simp_all add: in_range_take second_ok_take)
qed

lemma utf8_lossy_char:
  assumes "utf8_step c r = (True, n)"
  shows "utf8_lossy (take n (c # r) @ x) = take n (c # r) @ utf8_lossy x"
proof -
  obtain m where n: "n = Suc m" "m \<le> length r" using utf8_step_len [OF assms] by (cases n) auto
  have "utf8_step c (take m r @ x) = (True, Suc m)" using utf8_step_ext [OF assms, of x] by (simp add: n(1))
  then show ?thesis by (simp add: n utf8_lossy.simps)
qed

lemma utf8_lossy_replacement: "utf8_lossy (replacement_char @ x) = replacement_char @ utf8_lossy x"
proof -
  have "utf8_step (CHR 0xEF) [CHR 0xBF, CHR 0xBD] = (True, 3)"
    by (simp add: utf8_step_def second_ok_def in_range_def)
  from utf8_lossy_char [OF this, of x] show ?thesis by (simp add: replacement_char_def)
qed

lemma utf8_lossy_lossy: "utf8_lossy (utf8_lossy bs @ x) = utf8_lossy bs @ utf8_lossy x"
proof (induction bs rule: length_induct)
  case (1 bs)
  show ?case
  proof (cases bs)
    case (Cons c r)
    obtain ok n where st: "utf8_step c r = (ok, n)" by (cases "utf8_step c r")
    have "utf8_lossy (utf8_lossy (drop (n - 1) r) @ x) = utf8_lossy (drop (n - 1) r) @ utf8_lossy x"
      using "1.IH" Cons by simp
    then show ?thesis
      using utf8_lossy_char [of c r n] utf8_lossy_replacement st by (cases ok) (simp_all add: Cons utf8_lossy.simps)
  qed simp
qed

lemma valid_utf8_lossy [simp]: "valid_utf8 (utf8_lossy bs)"
  using utf8_lossy_lossy [of bs "[]"] by (simp add: valid_utf8_def)

lemma valid_utf8_Nil [simp]: "valid_utf8 []"
  by (simp add: valid_utf8_def)

lemma valid_utf8_append: "valid_utf8 s \<Longrightarrow> valid_utf8 t \<Longrightarrow> valid_utf8 (s @ t)"
  using utf8_lossy_lossy [of s t] by (simp add: valid_utf8_def)

lemma valid_utf8_ascii: "\<forall>c\<in>set s. is_ascii c \<Longrightarrow> valid_utf8 s"
  by (simp add: valid_utf8_def utf8_lossy_id)

lemma valid_utf8_join: "valid_utf8 sep \<Longrightarrow> \<forall>s\<in>set ss. valid_utf8 s \<Longrightarrow> valid_utf8 (join_with sep ss)"
  by (induction sep ss rule: join_with.induct) (auto intro!: valid_utf8_append simp: valid_utf8_Nil)

text \<open>A nonempty string starts with a character.\<close>

lemma valid_utf8_Cons:
  assumes "valid_utf8 (c # r)"
  obtains n where "utf8_step c r = (True, n)" "valid_utf8 (drop (n - 1) r)"
proof -
  obtain ok n where st: "utf8_step c r = (ok, n)" by (cases "utf8_step c r")
  have e: "(if ok then take n (c # r) else replacement_char) @ utf8_lossy (drop (n - 1) r) = c # r"
    using assms by (simp add: valid_utf8_def utf8_lossy.simps st)
  have ok: "ok"
  proof (rule ccontr)
    assume "\<not> ok"
    then have "c = CHR 0xEF" "\<exists>t. r = [CHR 0xBF, CHR 0xBD] @ t" using e by (simp_all add: replacement_char_def) (metis append_Cons append_Nil)
    then have "utf8_step c r = (True, 3)" by (auto simp: utf8_step_def second_ok_def in_range_def)
    then show False using st \<open>\<not> ok\<close> by simp
  qed
  have "take n (c # r) = c # take (n - 1) r" using utf8_step_len [of c r n] st ok by (cases n) simp_all
  then have "take (n - 1) r @ utf8_lossy (drop (n - 1) r) = take (n - 1) r @ drop (n - 1) r" using e ok by (simp del: append_take_drop_id) (simp)
  then have "utf8_lossy (drop (n - 1) r) = drop (n - 1) r" by (simp only: same_append_eq)
  then have "valid_utf8 (drop (n - 1) r)" by (simp add: valid_utf8_def)
  with st ok that show ?thesis by simp
qed

definition is_scalar :: "rchar \<Rightarrow> bool" where
  "is_scalar c = (c < 55296 \<or> 57344 \<le> c \<and> c < 1114112)"

lemma scalar_3:
  assumes "224 \<le> b" and "b \<le> 239" and "128 \<le> x" and "x \<le> 191" and "128 \<le> y" and "y \<le> 191" and "b = 237 \<longrightarrow> x \<le> 159"
  shows "is_scalar ((b - 224) * 4096 + (x - 128) * 64 + (y - 128))"
proof -
  obtain b' x' y' where e: "b = 224 + b'" "x = 128 + x'" "y = 128 + y'" using assms(1,3,5) by (metis le_iff_add)
  then have r: "b' \<le> 15" "x' \<le> 63" "y' \<le> 63" "b' = 13 \<longrightarrow> x' \<le> 31" using assms by simp_all
  consider "b' \<le> 12" | "b' = 13" | "14 \<le> b'" by linarith
  then have "b' * 4096 + x' * 64 + y' < 55296 \<or> 57344 \<le> b' * 4096 + x' * 64 + y'" by cases (use r in simp_all)
  then show ?thesis using r by (auto simp: e is_scalar_def)
qed

lemma scalar_4:
  assumes "240 \<le> b" and "b \<le> 244" and "128 \<le> x" and "x \<le> 191" and "128 \<le> y" and "y \<le> 191" and "128 \<le> z" and "z \<le> 191"
    and "b = 240 \<longrightarrow> 144 \<le> x" and "b = 244 \<longrightarrow> x \<le> 143"
  shows "is_scalar ((b - 240) * 262144 + (x - 128) * 4096 + (y - 128) * 64 + (z - 128))"
proof -
  obtain b' x' y' z' where e: "b = 240 + b'" "x = 128 + x'" "y = 128 + y'" "z = 128 + z'"
    using assms(1,3,5,7) by (metis le_iff_add)
  then have r: "b' \<le> 4" "x' \<le> 63" "y' \<le> 63" "z' \<le> 63" "b' = 0 \<longrightarrow> 16 \<le> x'" "b' = 4 \<longrightarrow> x' \<le> 15" using assms by simp_all
  have "57344 \<le> b' * 262144 + x' * 4096" using r(5) by (cases "b' = 0") simp_all
  moreover have "b' * 262144 + x' * 4096 + y' * 64 + z' < 1114112"
  proof (cases "b' = 4")
    case False
    then have "b' \<le> 3" using r(1) by simp
    then show ?thesis using r(2-4) by simp
  qed (use r in simp)
  ultimately show ?thesis by (simp add: e is_scalar_def)
qed

lemma utf8_step_scalar:
  assumes "utf8_step c r = (True, n)"
  shows "is_scalar (utf8_scalar (take n (c # r)))"
proof -
  let ?b = "byte_val c"
  have second: "second_ok ?b r \<Longrightarrow> \<exists>x t. r = x # t \<and> byte_val x \<le> 191 \<and> 128 \<le> byte_val x
      \<and> (?b = 224 \<longrightarrow> 160 \<le> byte_val x) \<and> (?b = 237 \<longrightarrow> byte_val x \<le> 159) \<and> (?b = 240 \<longrightarrow> 144 \<le> byte_val x)
      \<and> (?b = 244 \<longrightarrow> byte_val x \<le> 143)"
    by (cases r) (auto simp: second_ok_def in_range_def split: if_splits)
  have third: "in_range 128 191 (x # t) 1 \<Longrightarrow> \<exists>y u. t = y # u \<and> 128 \<le> byte_val y \<and> byte_val y \<le> 191" for x t
    by (cases t) (auto simp: in_range_def)
  have fourth: "in_range 128 191 (x # y # u) 2 \<Longrightarrow> \<exists>z v. u = z # v \<and> 128 \<le> byte_val z \<and> byte_val z \<le> 191" for x y u
    by (cases u) (auto simp: in_range_def)
  from assms consider "n = 1" "?b < 128"
    | "n = 2" "194 \<le> ?b" "?b \<le> 223" "second_ok ?b r"
    | "n = 3" "224 \<le> ?b" "?b \<le> 239" "second_ok ?b r" "in_range 128 191 r 1"
    | "n = 4" "240 \<le> ?b" "?b \<le> 244" "second_ok ?b r" "in_range 128 191 r 1" "in_range 128 191 r 2"
    unfolding utf8_step_True Let_def by blast
  then show ?thesis
  proof cases
    case 1
    then show ?thesis by (simp add: is_scalar_def)
  next
    case 2
    then show ?thesis using second by (auto simp: is_scalar_def numeral_2_eq_2)
  next
    case 3
    obtain x t where x: "r = x # t" "byte_val x \<le> 191" "128 \<le> byte_val x" "?b = 237 \<longrightarrow> byte_val x \<le> 159"
      using second 3(4) by blast
    obtain y u where y: "t = y # u" "128 \<le> byte_val y" "byte_val y \<le> 191" using third 3(5) unfolding x(1) by blast
    have s: "utf8_scalar (take n (c # r)) = (?b - 224) * 4096 + (byte_val x - 128) * 64 + (byte_val y - 128)"
      by (simp add: 3(1) x(1) y(1) numeral_3_eq_3)
    show ?thesis unfolding s by (rule scalar_3 [OF 3(2,3) x(3,2) y(2,3) x(4)])
  next
    case 4
    obtain x t where x: "r = x # t" "byte_val x \<le> 191" "128 \<le> byte_val x" "?b = 240 \<longrightarrow> 144 \<le> byte_val x"
        "?b = 244 \<longrightarrow> byte_val x \<le> 143"
      using second 4(4) by blast
    obtain y u where y: "t = y # u" "128 \<le> byte_val y" "byte_val y \<le> 191" using third 4(5) unfolding x(1) by blast
    obtain z v where z: "u = z # v" "128 \<le> byte_val z" "byte_val z \<le> 191" using fourth 4(6) unfolding x(1) y(1) by blast
    have s: "utf8_scalar (take n (c # r)) = (?b - 240) * 262144 + (byte_val x - 128) * 4096 + (byte_val y - 128) * 64 + (byte_val z - 128)"
      by (simp add: 4(1) x(1) y(1) z(1))
    show ?thesis unfolding s by (rule scalar_4 [OF 4(2,3) x(3,2) y(2,3) z(2,3) x(4,5)])
  qed
qed

text \<open>Where a string goes on, it does not go on with a continuation byte.\<close>

lemma in_range_is_cont: "in_range lo hi r i \<Longrightarrow> 128 \<le> lo \<Longrightarrow> hi \<le> 191 \<Longrightarrow> i < length r \<and> is_cont (r ! i)"
  by (auto simp: in_range_def is_cont_def)

lemma second_is_cont: "second_ok b r \<Longrightarrow> 0 < length r \<and> is_cont (r ! 0)"
  by (auto simp: second_ok_def in_range_def is_cont_def split: if_splits)

lemma utf8_step_start:
  assumes "utf8_step c r = (True, n)"
  shows "\<not> is_cont c" and "\<forall>y\<in>set (take (n - 1) r). is_cont y"
proof -
  have three: "in_range 128 191 r i \<Longrightarrow> i < length r \<and> is_cont (r ! i)" for i using in_range_is_cont [of 128 191 r i] by simp
  have "n = 1 \<or> n = 2 \<and> is_cont (r ! 0) \<or> n = 3 \<and> is_cont (r ! 0) \<and> is_cont (r ! 1)
      \<or> n = 4 \<and> is_cont (r ! 0) \<and> is_cont (r ! 1) \<and> is_cont (r ! 2)"
    using assms second_is_cont [of "byte_val c" r] three unfolding utf8_step_True Let_def by blast
  then have "\<forall>i<n - 1. is_cont (r ! i)" by (auto simp: less_Suc_eq numeral_2_eq_2 numeral_3_eq_3)
  then show "\<forall>y\<in>set (take (n - 1) r). is_cont y" by (auto simp: in_set_conv_nth)
  show "\<not> is_cont c" using assms unfolding utf8_step_True Let_def is_cont_def by linarith
qed

lemma utf8_first_char:
  assumes "valid_utf8 (c # r)"
  shows "is_scalar (utf8_scalar (hd (utf8_chars (c # r))))"
proof -
  obtain n where n: "utf8_step c r = (True, n)" "valid_utf8 (drop (n - 1) r)" using valid_utf8_Cons [OF assms] by blast
  have "takeWhile is_cont (take (n - 1) r @ drop (n - 1) r) = take (n - 1) r @ takeWhile is_cont (drop (n - 1) r)"
    using utf8_step_start(2) [OF n(1)] by (intro takeWhile_append2) blast
  moreover have "takeWhile is_cont (drop (n - 1) r) = []"
  proof (cases "drop (n - 1) r")
    case (Cons d t)
    then show ?thesis using valid_utf8_Cons [of d t] utf8_step_start(1) n(2) by (metis takeWhile.simps(2))
  qed simp
  ultimately have "takeWhile is_cont r = take (n - 1) r" by simp
  then have "hd (utf8_chars (c # r)) = take n (c # r)" using utf8_step_len [OF n(1)] by (cases n) simp_all
  then show ?thesis using utf8_step_scalar [OF n(1)] by simp
qed

section \<open>The digits of a float\<close>

lemma ten_pow_powi: "ten_pow e = 10 powi e"
  by (simp add: ten_pow_def power_int_def field_simps)

lemma ten_pow_pos [simp]: "0 < ten_pow e"
  by (simp add: ten_pow_def)

lemma ten_pow_nz [simp]: "ten_pow e \<noteq> 0"
  using ten_pow_pos [of e] by linarith

lemma abs_ten_pow [simp]: "\<bar>ten_pow e\<bar> = ten_pow e"
  by (rule abs_of_pos) (rule ten_pow_pos)

lemma ten_pow_minus: "ten_pow (- e) = 1 / ten_pow e"
  by (simp add: ten_pow_powi power_int_minus_divide)

lemma ten_pow_add: "ten_pow (a + b) = ten_pow a * ten_pow b"
  by (simp add: ten_pow_powi power_int_add)

lemma ten_pow_nat: "ten_pow (int n) = of_int (10 ^ n)"
  by (simp add: ten_pow_def)

lemma show_dec_len: "0 < n \<Longrightarrow> 10 ^ (length (show_dec n) - 1) \<le> n \<and> n < 10 ^ length (show_dec n)"
proof (induction n rule: show_dec.induct)
  case (1 n)
  show ?case
  proof (cases "n < 10")
    case True
    then show ?thesis using 1(2) by (simp add: show_dec_small)
  next
    case False
    then have IH: "10 ^ (length (show_dec (n div 10)) - 1) \<le> n div 10" "n div 10 < 10 ^ length (show_dec (n div 10))"
      using 1(1) by simp_all
    obtain k where k: "length (show_dec (n div 10)) = Suc k" by (cases "show_dec (n div 10)") simp_all
    have "10 * (n div 10) \<le> n" "n \<le> 10 * (n div 10) + 9" by simp_all
    moreover have "10 ^ k \<le> n div 10" "n div 10 + 1 \<le> 10 * 10 ^ k" using IH by (simp_all add: k)
    ultimately have "10 * 10 ^ k \<le> n \<and> n < 100 * 10 ^ k" by linarith
    then show ?thesis using False by (simp add: show_dec_step k)
  qed
qed

lemma dec_exp_bounds:
  assumes "0 < x"
  shows "ten_pow (dec_exp x - 1) \<le> x \<and> x < ten_pow (dec_exp x)"
proof (cases "1 \<le> x")
  case True
  let ?n = "\<lfloor>x\<rfloor>"
  have n: "0 < ?n" using True by simp
  obtain k where k: "length (show_dec ?n) = Suc k" by (cases "show_dec ?n") simp_all
  note b = show_dec_len [OF n, unfolded k]
  have "(of_int (10 ^ k) :: rat) \<le> of_int ?n" using b by (subst of_int_le_iff) simp
  moreover have "(of_int (?n + 1) :: rat) \<le> of_int (10 ^ Suc k)" using b by (subst of_int_le_iff) simp
  moreover have "of_int ?n \<le> x" "x < of_int (?n + 1)" by linarith+
  moreover have "dec_exp x = int (Suc k)" "dec_exp x - 1 = int k" using True k by (simp_all add: dec_exp_def)
  ultimately show ?thesis by (simp only: ten_pow_nat) linarith
next
  case False
  let ?n = "\<lceil>1 / x\<rceil> - 1"
  have gt: "1 < 1 / x" using False assms by (simp add: field_simps)
  then have n: "0 < ?n" by simp
  obtain k where k: "length (show_dec ?n) = Suc k" by (cases "show_dec ?n") simp_all
  note b = show_dec_len [OF n, unfolded k]
  have e: "dec_exp x = - int k" "dec_exp x - 1 = - int (Suc k)" using False k by (simp_all add: dec_exp_def)
  have "(of_int (10 ^ k) :: rat) \<le> of_int ?n" using b by (subst of_int_le_iff) simp
  moreover have "of_int ?n < 1 / x" by linarith
  ultimately have "ten_pow (int k) < 1 / x" by (simp only: ten_pow_nat)
  then have up: "x < ten_pow (- int k)" using assms by (simp add: ten_pow_minus field_simps)
  have "(of_int (?n + 1) :: rat) \<le> of_int (10 ^ Suc k)" using b by (subst of_int_le_iff) simp
  moreover have "1 / x \<le> of_int (?n + 1)" by simp
  ultimately have "1 / x \<le> ten_pow (int (Suc k))" by (simp only: ten_pow_nat)
  then have "ten_pow (- int (Suc k)) \<le> x" using assms by (simp only: ten_pow_minus) (simp add: field_simps)
  then show ?thesis using up unfolding e(2) unfolding e(1) by simp
qed

text \<open>
  The search always ends with digits that read back as the value: 17 of them determine it. So the
  16 steps after the first are enough.
\<close>

lemma seventeen_digits:
  assumes "on_grid f x" and "0 < x" and "d = round_even (x * ten_pow (17 - dec_exp x))"
  shows "rnd_val f (of_int d * ten_pow (dec_exp x - 17)) = x"
proof -
  let ?s = "ten_pow (17 - dec_exp x)" and ?v = "of_int d * ten_pow (dec_exp x - 17)"
  have inv: "ten_pow (dec_exp x - 17) = 1 / ?s" using ten_pow_minus [of "17 - dec_exp x"] by simp
  have "ten_pow 16 = ten_pow (dec_exp x - 1) * ?s" by (simp flip: ten_pow_add)
  also have "\<dots> \<le> x * ?s" using dec_exp_bounds [OF assms(2)] by (intro mult_right_mono) (simp_all add: less_imp_le)
  finally have big: "10 ^ 16 \<le> x * ?s" by (simp add: ten_pow_def)
  have "\<bar>of_int d - x * ?s\<bar> \<le> 1 / 2" unfolding assms(3) by (rule round_even_err)
  moreover have "\<bar>?v - x\<bar> * ?s = \<bar>of_int d - x * ?s\<bar>"
  proof -
    have "\<bar>?v - x\<bar> * ?s = \<bar>(?v - x) * ?s\<bar>" by (simp add: abs_mult)
    also have "(?v - x) * ?s = of_int d - x * ?s" by (simp add: inv left_diff_distrib)
    finally show ?thesis .
  qed
  ultimately have e: "\<bar>?v - x\<bar> * ?s \<le> 1 / 2" by simp
  have p: "two_pow (prec f + 1) \<le> 2 ^ 54" by (cases f) (simp_all add: two_pow_def)
  have "\<bar>?v - x\<bar> < x / two_pow (prec f + 1)"
  proof (rule ccontr)
    assume "\<not> \<bar>?v - x\<bar> < x / two_pow (prec f + 1)"
    then have "x / two_pow (prec f + 1) * ?s \<le> \<bar>?v - x\<bar> * ?s" by (intro mult_right_mono) (simp_all add: less_imp_le)
    then have "x / two_pow (prec f + 1) * ?s \<le> 1 / 2" using e by linarith
    then have "x * ?s / two_pow (prec f + 1) \<le> 1 / 2" by simp
    then have "x * ?s \<le> two_pow (prec f + 1) / 2" by (simp add: divide_le_eq)
    then show False using p big by simp
  qed
  moreover from this have "0 < ?v"
  proof -
    have "1 \<le> two_pow (prec f + 1)" by (rule two_pow_ge_1) (cases f; simp)
    then have "x / two_pow (prec f + 1) \<le> x" using assms(2) by (simp add: divide_le_eq mult_le_cancel_left1)
    then show ?thesis using calculation by linarith
  qed
  ultimately show ?thesis using rnd_val_near [OF assms(1,2)] by blast
qed

lemma shortest_exact:
  assumes "on_grid f x" and "0 < x"
  shows "n + k = 17 \<Longrightarrow> shortest_from k f x n = (d, e) \<Longrightarrow> 0 \<le> d \<and> rnd_val f (of_int d * ten_pow e) = x"
proof (induction k arbitrary: n)
  case 0
  then have d: "d = round_even (x * ten_pow (17 - dec_exp x))" "e = dec_exp x - 17" by simp_all
  have "of_int 0 \<le> x * ten_pow (17 - dec_exp x)" using assms(2) by (simp add: less_imp_le)
  then have "0 \<le> d" unfolding d(1) by (rule round_even_ge)
  then show ?case using seventeen_digits [OF assms d(1)] d(2) by simp
next
  case (Suc k)
  let ?s = "ten_pow (int n - dec_exp x)"
  have inv: "of_int i / ?s = of_int i * ten_pow (dec_exp x - int n)" for i
    using ten_pow_minus [of "int n - dec_exp x"] by simp
  have y: "0 \<le> x * ?s" using assms(2) by (simp add: less_imp_le)
  then have pos: "0 \<le> \<lfloor>x * ?s\<rfloor>" "0 \<le> \<lceil>x * ?s\<rceil>" by (simp, linarith)
  have "e = dec_exp x - int n \<and> (d = \<lfloor>x * ?s\<rfloor> \<or> d = \<lceil>x * ?s\<rceil>) \<and> rnd_val f (of_int d / ?s) = x
      \<or> shortest_from k f x (Suc n) = (d, e)"
    using Suc.prems(2) by (simp add: Let_def split: if_splits)
  then show ?case
  proof (elim disjE conjE)
    assume "shortest_from k f x (Suc n) = (d, e)"
    then show ?thesis using Suc.IH [of "Suc n"] Suc.prems(1) by simp
  qed (use pos inv in metis)+
qed


text \<open>
  Reading a printed float back: a sign, digits, and perhaps a point with more digits; the decimal
  is rounded once, as Rust's \<open>parse\<close> does.
\<close>

definition read_unsigned :: "string \<Rightarrow> rat option" where
  "read_unsigned s = (let ip = takeWhile (\<lambda>c. c \<noteq> CHR ''.'') s; fr = drop (Suc (length ip)) s
     in case (parse_digits 0 ip, parse_digits 0 fr) of
          (Some i, Some r) \<Rightarrow> Some (of_int i + of_int r / 10 ^ length fr) | _ \<Rightarrow> None)"

definition read_float :: "fmt \<Rightarrow> string \<Rightarrow> fp option" where
  "read_float f s = (case s of
     c # cs \<Rightarrow> (if c = CHR ''-'' then map_option (\<lambda>v. rnd f True (- v)) (read_unsigned cs)
       else map_option (rnd f False) (read_unsigned s))
   | [] \<Rightarrow> None)"

lemma parse_digits_zeros: "parse_digits a (replicate j (CHR ''0'')) = Some (a * 10 ^ j)"
  by (induction j arbitrary: a) (simp_all add: digit_val_def Let_def)

lemma parse_digits_pad0: "0 \<le> m \<Longrightarrow> parse_digits 0 (show_pad0 k m) = Some m"
  by (simp add: show_pad0_def pad_left_def parse_digits_append parse_digits_zeros parse_digits_show_dec)

lemma parse_digits_total: "\<forall>c\<in>set s. is_digit c \<Longrightarrow> \<exists>n. parse_digits a s = Some n"
  by (induction s arbitrary: a) (auto simp: is_digit_def)

lemma strip_zeros_split: "\<exists>j. s = strip_zeros s @ replicate j (CHR ''0'')"
proof -
  have "rev s = takeWhile (\<lambda>c. c = CHR ''0'') (rev s) @ dropWhile (\<lambda>c. c = CHR ''0'') (rev s)" by simp
  moreover have "takeWhile (\<lambda>c. c = CHR ''0'') (rev s) = replicate (length (takeWhile (\<lambda>c. c = CHR ''0'') (rev s))) (CHR ''0'')"
    by (rule replicate_eqI) (auto dest: set_takeWhileD)
  ultimately obtain j where "rev s = replicate j (CHR ''0'') @ dropWhile (\<lambda>c. c = CHR ''0'') (rev s)" by metis
  then have "s = rev (replicate j (CHR ''0'') @ dropWhile (\<lambda>c. c = CHR ''0'') (rev s))" by (metis rev_rev_ident)
  then show ?thesis by (auto simp: strip_zeros_def)
qed

lemma digits_no_point: "0 \<le> n \<Longrightarrow> c \<in> set (show_dec n) \<Longrightarrow> c \<noteq> CHR ''.''"
  using show_dec_digits [of n] by (auto simp: is_digit_def digit_val_def)

lemma read_digits:
  assumes "0 \<le> n"
  shows "read_unsigned (show_dec n) = Some (of_int n)"
    and "read_unsigned (show_dec n @ CHR ''.'' # fr) = map_option (\<lambda>r. of_int n + of_int r / 10 ^ length fr) (parse_digits 0 fr)"
proof -
  have "takeWhile (\<lambda>c. c \<noteq> CHR ''.'') (show_dec n) = show_dec n"
    using digits_no_point [OF assms] by (simp add: takeWhile_eq_all_conv)
  then show "read_unsigned (show_dec n) = Some (of_int n)"
    unfolding read_unsigned_def Let_def by (simp only: parse_digits_show_dec [OF assms]) simp
  have "takeWhile (\<lambda>c. c \<noteq> CHR ''.'') (show_dec n @ CHR ''.'' # fr) = show_dec n @ takeWhile (\<lambda>c. c \<noteq> CHR ''.'') (CHR ''.'' # fr)"
    using digits_no_point [OF assms] by (intro takeWhile_append2) blast
  then show "read_unsigned (show_dec n @ CHR ''.'' # fr) = map_option (\<lambda>r. of_int n + of_int r / 10 ^ length fr) (parse_digits 0 fr)"
    by (simp add: read_unsigned_def parse_digits_show_dec [OF assms] split: option.split)
qed

lemma read_scaled:
  assumes "0 \<le> d"
  shows "read_unsigned (show_scaled d e) = Some (of_int d * ten_pow e)"
proof (cases "0 \<le> e")
  case True
  then have "0 \<le> d * 10 ^ nat e" using assms by simp
  with read_digits(1) [OF this] True show ?thesis by (simp add: show_scaled_def ten_pow_def)
next
  case False
  define k where "k = nat (- e) - 1"
  have k: "nat (- e) = Suc k" using False by (simp add: k_def)
  let ?p = "10 ^ Suc k :: int"
  let ?m = "d mod ?p" and ?q = "d div ?p"
  let ?pad = "show_pad0 (Suc k) ?m"
  let ?fr = "strip_zeros ?pad"
  have m: "0 \<le> ?m" "?m < ?p" by simp_all
  have q: "0 \<le> ?q" using assms by (simp add: pos_imp_zdiv_nonneg_iff)
  obtain j where j: "?pad = ?fr @ replicate j (CHR ''0'')" using strip_zeros_split by blast
  have len: "length ?fr + j = Suc k" using length_show_pad0 [OF m] j by (metis length_append length_replicate)
  have "\<forall>c\<in>set ?fr. is_digit c" using show_pad0_digits [OF m(1), of "Suc k"] j by (metis in_set_conv_decomp_first append_assoc Un_iff set_append)
  then obtain r where r: "parse_digits 0 ?fr = Some r" using parse_digits_total by blast
  have "parse_digits 0 ?pad = Some ?m" by (rule parse_digits_pad0 [OF m(1)])
  then have "?m = r * 10 ^ j" by (subst (asm) j) (simp add: parse_digits_append r parse_digits_zeros del: power_Suc)
  then have mr: "(of_int ?m :: rat) = of_int r * 10 ^ j" by (metis of_int_mult of_int_numeral of_int_power)
  have "(10 :: rat) ^ Suc k = 10 ^ length ?fr * 10 ^ j" using len by (metis power_add)
  then have frac: "(of_int r :: rat) / 10 ^ length ?fr = of_int ?m / 10 ^ Suc k" unfolding mr by simp
  have val: "of_int d * ten_pow e = of_int ?q + of_int ?m / 10 ^ Suc k"
  proof -
    have "ten_pow e = 1 / 10 ^ Suc k" using False by (simp add: ten_pow_def k)
    moreover have "(of_int d :: rat) = of_int ?q * 10 ^ Suc k + of_int ?m"
    proof -
      have "d = ?q * ?p + ?m" by (rule div_mult_mod_eq [symmetric])
      then have "(of_int d :: rat) = of_int (?q * ?p + ?m)" by (simp only:)
      then show ?thesis by (simp del: power_Suc)
    qed
    ultimately show ?thesis by (simp add: add_divide_distrib)
  qed
  have s: "show_scaled d e = show_dec ?q @ (if ?fr = [] then [] else ''.'' @ ?fr)"
    using False by (simp add: show_scaled_def k Let_def del: power_Suc)
  show ?thesis
  proof (cases "?fr = []")
    case True
    then have "r = 0" using r by simp
    then have "of_int ?m / 10 ^ Suc k = (0 :: rat)" using frac by simp
    then show ?thesis unfolding s val using True read_digits(1) [OF q] by (simp del: power_Suc)
  next
    case ne: False
    then have "show_scaled d e = show_dec ?q @ CHR ''.'' # ?fr" unfolding s by simp
    then show ?thesis unfolding val using read_digits(2) [OF q, of ?fr] r frac by (simp del: power_Suc)
  qed
qed

lemma scaled_starts:
  assumes "0 \<le> d"
  shows "\<exists>c cs. show_scaled d e = c # cs \<and> c \<noteq> CHR ''-''"
proof -
  have "\<exists>c cs. show_dec n = c # cs \<and> c \<noteq> CHR ''-''" if "0 \<le> n" for n
    using show_dec_nonempty [of n] show_dec_digits [OF that] is_digit_not_crlf by (cases "show_dec n") auto
  moreover have "0 \<le> d * 10 ^ nat e" "0 \<le> d div 10 ^ nat (- e)"
    using assms by (simp_all add: pos_imp_zdiv_nonneg_iff)
  ultimately show ?thesis unfolding show_scaled_def Let_def by (metis append_Cons)
qed

lemma display_reads_back:
  assumes "wf_fp f a" and "is_fin a"
  shows "read_float f (fp_display f a) = Some a"
proof (cases a)
  case (Fin x)
  have g: "on_grid f x" "\<bar>x\<bar> < two_pow (emax f)" using assms(1) by (simp_all add: Fin)
  show ?thesis
  proof (cases "x = 0")
    case True
    then show ?thesis by (simp add: Fin read_float_def read_unsigned_def digit_val_def)
  next
    case False
    have ga: "on_grid f \<bar>x\<bar>" using g(1) by (simp add: abs_if)
    obtain d e where s: "shortest_from 16 f \<bar>x\<bar> 1 = (d, e)" by fastforce
    have d: "0 \<le> d" "rnd_val f (of_int d * ten_pow e) = \<bar>x\<bar>"
      using shortest_exact [OF ga _ _ s] False by simp_all
    note r = read_scaled [OF d(1), of e]
    have disp: "fp_display f (Fin x) = (if x < 0 then ''-'' else []) @ show_scaled d e"
      using False by (simp only: fp_display.simps if_False s prod.case Let_def)
    show ?thesis
    proof (cases "x < 0")
      case True
      then have "rnd f True (- (of_int d * ten_pow e)) = Fin x"
        using d(2) g(2) by (simp add: rnd_def rnd_val_neg Let_def)
      then show ?thesis unfolding Fin disp using True r by (simp add: read_float_def)
    next
      case pos: False
      then have "rnd f False (of_int d * ten_pow e) = Fin x"
        using d(2) g(2) False by (simp add: rnd_def Let_def)
      moreover obtain c cs where "show_scaled d e = c # cs" "c \<noteq> CHR ''-''" using scaled_starts [OF d(1)] by blast
      ultimately show ?thesis unfolding Fin disp using pos r by (simp add: read_float_def)
    qed
  qed
next
  case NZero
  then show ?thesis by (simp add: read_float_def read_unsigned_def digit_val_def)
qed (use assms(2) in simp_all)

end
