(* ===== verification/App_Error.thy ===== *)
theory App_Error
  imports Rust_Text
begin

text \<open>
  The error type of the application (\<open>src/error.rs\<close>): its variants, their display forms, the
  source of an I/O error, and the conversions the \<open>?\<close> operator inserts. A fallible function
  returns \<open>Inl\<close> of an error or \<open>Inr\<close> of its result. An operating-system error is kept as its
  kind and its text; a parser's or the database's error only as its text, which is all the
  program keeps of it.
\<close>

section \<open>Results\<close>

datatype io_kind = NotFound | OtherKind

datatype io_error = Io_Error (io_kind_of: io_kind) (io_text: string)

datatype rtpigate_error =
    Network string
  | Io io_error
  | Parse string
  | Config_Err string
  | Validation string
  | Db string

type_synonym 'a result = "rtpigate_error + 'a"

fun is_ok :: "'e + 'a \<Rightarrow> bool" where
  "is_ok (Inl e) = False"
| "is_ok (Inr a) = True"

text \<open>\<open>?\<close>: run the rest only on success.\<close>

fun bind_result :: "'e + 'a \<Rightarrow> ('a \<Rightarrow> 'e + 'b) \<Rightarrow> 'e + 'b" where
  "bind_result (Inl e) k = Inl e"
| "bind_result (Inr a) k = k a"

text \<open>\<open>?\<close> with the conversion of the error (the \<open>From\<close> implementations).\<close>

fun map_error :: "('e \<Rightarrow> 'f) \<Rightarrow> 'e + 'a \<Rightarrow> 'f + 'a" where
  "map_error f (Inl e) = Inl (f e)"
| "map_error f (Inr a) = Inr a"

fun unwrap_or :: "'a \<Rightarrow> 'e + 'a \<Rightarrow> 'a" where
  "unwrap_or d (Inl e) = d"
| "unwrap_or d (Inr a) = a"

lemma bind_result_Inr: "bind_result m k = Inr b \<longleftrightarrow> (\<exists>a. m = Inr a \<and> k a = Inr b)"
  by (cases m) auto

lemma bind_result_assoc: "bind_result (bind_result m k) l = bind_result m (\<lambda>a. bind_result (k a) l)"
  by (cases m) auto

lemma bind_result_ret [simp]: "bind_result m Inr = m"
  by (cases m) auto

lemma is_ok_iff: "is_ok r \<longleftrightarrow> (\<exists>a. r = Inr a)"
  by (cases r) auto

section \<open>Display and source\<close>

fun display_error :: "rtpigate_error \<Rightarrow> string" where
  "display_error (Network m) = ''Network error: '' @ m"
| "display_error (Io e) = ''IO error: '' @ io_text e"
| "display_error (Parse m) = ''Parse error: '' @ m"
| "display_error (Config_Err m) = ''Config error: '' @ m"
| "display_error (Validation m) = ''Validation error: '' @ m"
| "display_error (Db m) = ''Database error: '' @ m"

fun error_source :: "rtpigate_error \<Rightarrow> io_error option" where
  "error_source (Io e) = Some e"
| "error_source _ = None"

section \<open>Conversions\<close>

definition from_io :: "io_error \<Rightarrow> rtpigate_error" where
  "from_io e = Io e"

definition from_toml :: "string \<Rightarrow> rtpigate_error" where
  "from_toml m = Parse m"

definition from_parse_int :: "string \<Rightarrow> rtpigate_error" where
  "from_parse_int m = Parse m"

definition from_native_db :: "string \<Rightarrow> rtpigate_error" where
  "from_native_db m = Db m"

lemma display_error_source: "error_source e = Some i \<Longrightarrow> display_error e = ''IO error: '' @ io_text i"
  by (cases e) auto

end
