(* ===== verification/App_Config.thy ===== *)
theory App_Config
  imports App_Error
begin

text \<open>
  Configuration and the telemetry types (\<open>src/config.rs\<close>): the TOML sections with their
  defaults, validation, the sanitized view for the web front end, the APRS-IS passcode and
  login line, the GPS fix with its freshness guard, and the records the tasks publish.

  Parameters: the TOML parser and the file system of \<open>from_file\<close>, the existence test of
  \<open>validate\<close>, and the Unicode uppercase table for characters outside ASCII.
\<close>

section \<open>GPS fix\<close>

record gps_fix =
  fix_lat :: "f64 option"
  fix_lon :: "f64 option"
  fix_alt_ft :: "f64 option"
  fix_mode :: u8
  fix_sats_used :: u32
  fix_sats_visible :: u32
  fix_hdop :: "f64 option"
  fix_time :: "datetime option"
  fix_received_at :: instant

definition gps_freshness :: nat where
  "gps_freshness = secs 30"

text \<open>The monotonic clock is read once, at \<open>now\<close>.\<close>

definition is_fresh :: "instant \<Rightarrow> gps_fix \<Rightarrow> bool" where
  "is_fresh now g =
     (elapsed now (fix_received_at g) < gps_freshness \<and> 2 \<le> fix_mode g
      \<and> fix_lat g \<noteq> None \<and> fix_lon g \<noteq> None)"

record gps_telemetry =
  gt_name :: string
  gt_timestamp :: datetime
  gt_lat :: "f64 option"
  gt_lon :: "f64 option"
  gt_alt_ft :: "f64 option"
  gt_mode :: u8
  gt_sats_used :: u32
  gt_sats_visible :: u32
  gt_hdop :: "f64 option"
  gt_time :: "datetime option"
  gt_fresh :: bool

section \<open>Statistics\<close>

record data_point =
  dp_timestamp :: datetime
  dp_value :: u32

record data_series =
  ds_name :: string
  ds_data :: "data_point list"

record packet_telemetry =
  pt_name :: string
  pt_timestamp :: datetime
  pt_microsecs :: f64
  pt_total_packets :: data_series
  pt_heard_direct :: data_series
  pt_digipeated :: data_series
  pt_decode_errors :: data_series
  pt_lifetime_total_packets :: u64
  pt_lifetime_heard_direct :: u64
  pt_lifetime_digipeated :: u64
  pt_lifetime_decode_errors :: u64

record aprsis_telemetry =
  at_name :: string
  at_timestamp :: datetime
  at_microsecs :: f64
  at_reconnects :: data_series
  at_packets_igated :: data_series
  at_packets_dropped :: data_series
  at_rf_received :: data_series
  at_lifetime_rf_received :: u64
  at_lifetime_packets_igated :: u64
  at_lifetime_packets_dropped :: u64
  at_lifetime_reconnects :: u64
  at_lifetime_drops_stale :: u64
  at_lifetime_drops_rfonly :: u64
  at_lifetime_drops_query :: u64
  at_lifetime_drops_thirdparty :: u64
  at_lifetime_drops_sat :: u64
  at_lifetime_drops_duplicate :: u64
  at_lifetime_drops_malformed :: u64
  at_lifetime_lagged_drops :: u64

record slicer_interval =
  si_timestamp :: datetime
  si_counts :: "u32 list"

record slicer_telemetry =
  slt_name :: string
  slt_timestamp :: datetime
  slt_microsecs :: f64
  slt_slicer_count :: nat
  slt_slicer_gains :: "f32 list"
  slt_intervals :: "slicer_interval list"
  slt_lifetime_slicer_hits :: "u64 list"

record station_entry =
  se_callsign :: string
  se_transmitted_by :: "string option"
  se_last_heard :: datetime
  se_frequency :: f64
  se_latitude :: "f64 option"
  se_longitude :: "f64 option"
  se_altitude_ft :: "f64 option"
  se_heard_direct :: bool
  se_position_path :: "string list"
  se_position_hops :: u32
  se_altitude_path :: "string list"
  se_altitude_hops :: u32
  se_symbol_table :: "rchar option"
  se_symbol_code :: "rchar option"
  se_count :: u64
  se_count_direct :: u64
  se_count_digipeated :: u64

record frequency_count =
  fc_frequency :: string
  fc_count :: u64

record station_telemetry =
  stt_name :: string
  stt_stations :: "station_entry list"
  stt_frequencies :: "frequency_count list"

datatype app_telemetry =
    PacketStatus packet_telemetry
  | AprsisStatus aprsis_telemetry
  | SlicerStatus slicer_telemetry
  | StationStatus station_telemetry
  | GpsStatus gps_telemetry

section \<open>The configuration file\<close>

record http_config =
  http_listen :: "string option"
  http_frontend :: "string option"

record station_config =
  sta_callsign :: "string option"
  sta_name :: "string option"
  sta_timezone :: "string option"
  sta_verbose :: "bool option"

datatype position_source = Src_Config | Src_Gpsd

record location =
  loc_lat :: "f64 option"
  loc_lon :: "f64 option"
  loc_alt :: "f64 option"
  loc_source :: position_source

record gpsd_config =
  gpsd_host :: "string option"
  gpsd_port :: "u16 option"
  gpsd_move_threshold_deg :: "f64 option"
  gpsd_min_beacon_secs :: "u64 option"

datatype dao_mode = Dao_Off | Dao_Human | Dao_Base91

record aprsis_config =
  ais_passcode :: "string option"
  ais_host :: "string option"
  ais_port :: "u32 option"
  ais_enabled :: "bool option"
  ais_beaconing :: "bool option"
  ais_igating :: "bool option"
  ais_symbol :: "string option"
  ais_overlay :: "string option"
  ais_threshold :: "u64 option"
  ais_dao :: "dao_mode option"

type_synonym ipv4 = "u8 \<times> u8 \<times> u8 \<times> u8"

record stream_config =
  str_group :: ipv4
  str_port :: u16
  str_interface :: "ipv4 option"
  str_recv_buffer_bytes :: "u64 option"

record satellite_config =
  sat_frequencies :: "f64 list option"

record storage_config =
  sto_path :: "string option"
  sto_packet_history :: "u32 option"

record config =
  cfg_station :: station_config
  cfg_location :: location
  cfg_aprsis :: aprsis_config
  cfg_stream :: stream_config
  cfg_satellite :: "satellite_config option"
  cfg_http :: "http_config option"
  cfg_gpsd :: "gpsd_config option"
  cfg_storage :: "storage_config option"

record aprsis_config_public =
  pub_host :: "string option"
  pub_port :: "u32 option"
  pub_enabled :: "bool option"
  pub_beaconing :: "bool option"
  pub_igating :: "bool option"
  pub_symbol :: "string option"
  pub_overlay :: "string option"
  pub_threshold :: "u64 option"
  pub_dao :: dao_mode

record public_config =
  pc_station :: station_config
  pc_location :: location
  pc_aprsis :: aprsis_config_public
  pc_stream :: stream_config
  pc_satellite_frequencies :: "f64 list"
  pc_gpsd :: "gpsd_config option"
  pc_started_at :: "datetime option"

section \<open>Defaults\<close>

fun or_default :: "'a \<Rightarrow> 'a option \<Rightarrow> 'a" where
  "or_default d None = d"
| "or_default d (Some x) = x"

definition default_gpsd :: gpsd_config where
  "default_gpsd = \<lparr> gpsd_host = None, gpsd_port = None, gpsd_move_threshold_deg = None,
     gpsd_min_beacon_secs = None \<rparr>"

definition gpsd_host_eff :: "gpsd_config \<Rightarrow> string" where
  "gpsd_host_eff g = (case gpsd_host g of Some h \<Rightarrow> if h \<noteq> [] then h else ''localhost''
     | None \<Rightarrow> ''localhost'')"

definition gpsd_port_eff :: "gpsd_config \<Rightarrow> u16" where
  "gpsd_port_eff g = or_default 2947 (gpsd_port g)"

definition gpsd_move_threshold_eff :: "gpsd_config \<Rightarrow> f64" where
  "gpsd_move_threshold_eff g = or_default (lit64 (1 / 10000)) (gpsd_move_threshold_deg g)"

definition gpsd_min_beacon_secs_eff :: "gpsd_config \<Rightarrow> u64" where
  "gpsd_min_beacon_secs_eff g = or_default 30 (gpsd_min_beacon_secs g)"

definition dao_mode_of :: "config \<Rightarrow> dao_mode" where
  "dao_mode_of c = or_default Dao_Human (ais_dao (cfg_aprsis c))"

definition gpsd_config_of :: "config \<Rightarrow> gpsd_config" where
  "gpsd_config_of c = or_default default_gpsd (cfg_gpsd c)"

definition satellite_frequencies :: "config \<Rightarrow> f64 list" where
  "satellite_frequencies c =
     or_default [lit64 (145825 / 1000)] (Option.bind (cfg_satellite c) sat_frequencies)"

definition storage_path :: "config \<Rightarrow> string" where
  "storage_path c = (case Option.bind (cfg_storage c) sto_path of
     Some p \<Rightarrow> if p \<noteq> [] then p else ''./rtpigate.db'' | None \<Rightarrow> ''./rtpigate.db'')"

definition packet_history_hours :: "config \<Rightarrow> u32" where
  "packet_history_hours c = or_default 6 (Option.bind (cfg_storage c) sto_packet_history)"

definition to_public :: "config \<Rightarrow> public_config" where
  "to_public c = (let a = cfg_aprsis c; g = gpsd_config_of c in
     \<lparr> pc_station = cfg_station c, pc_location = cfg_location c,
       pc_aprsis = \<lparr> pub_host = ais_host a, pub_port = ais_port a, pub_enabled = ais_enabled a,
         pub_beaconing = ais_beaconing a, pub_igating = ais_igating a, pub_symbol = ais_symbol a,
         pub_overlay = ais_overlay a, pub_threshold = ais_threshold a, pub_dao = dao_mode_of c \<rparr>,
       pc_stream = cfg_stream c, pc_satellite_frequencies = satellite_frequencies c,
       pc_gpsd = (if loc_source (cfg_location c) = Src_Gpsd
         then Some \<lparr> gpsd_host = Some (gpsd_host_eff g), gpsd_port = Some (gpsd_port_eff g),
                gpsd_move_threshold_deg = Some (gpsd_move_threshold_eff g),
                gpsd_min_beacon_secs = Some (gpsd_min_beacon_secs_eff g) \<rparr>
         else None),
       pc_started_at = None \<rparr>)"

section \<open>Reading and validating\<close>

text \<open>\<open>read\<close> is \<open>fs::read_to_string\<close> and \<open>toml\<close> the parser of the \<open>toml\<close> crate.\<close>

definition from_file :: "(string \<Rightarrow> io_error + string) \<Rightarrow> (string \<Rightarrow> string + config)
    \<Rightarrow> string \<Rightarrow> config result" where
  "from_file read toml filename =
     bind_result (map_error from_io (read filename)) (\<lambda>s. map_error from_toml (toml s))"

definition is_multicast :: "ipv4 \<Rightarrow> bool" where
  "is_multicast ip = (case ip of (a, _, _, _) \<Rightarrow> 224 \<le> a \<and> a \<le> 239)"

definition show_ipv4 :: "ipv4 \<Rightarrow> string" where
  "show_ipv4 ip = (case ip of (a, b, c, d) \<Rightarrow>
     show_dec (uint a) @ ''.'' @ show_dec (uint b) @ ''.'' @ show_dec (uint c) @ ''.'' @ show_dec (uint d))"

text \<open>
  \<open>Path::parent\<close> on the reversed path: trailing separators and \<open>.\<close> components are not part of
  a path, the last component goes, and what is left is trimmed again.
\<close>

fun path_trim :: "string \<Rightarrow> string" where
  "path_trim [] = []"
| "path_trim [c] = [c]"
| "path_trim (c # d # r) =
     (if c = CHR ''/'' then path_trim (d # r)
      else if c = CHR ''.'' \<and> d = CHR ''/'' then path_trim (d # r)
      else c # d # r)"

definition path_parent :: "string \<Rightarrow> string option" where
  "path_parent p = (let r = path_trim (rev p) in
     if r = [] \<or> r = ''/'' then None
     else Some (rev (path_trim (dropWhile (\<lambda>c. c \<noteq> CHR ''/'') r))))"

definition contains_range :: "rat \<Rightarrow> rat \<Rightarrow> f64 \<Rightarrow> bool" where
  "contains_range lo hi x = (fp_le (lit64 lo) x \<and> fp_le x (lit64 hi))"

definition quoted :: "string \<Rightarrow> string" where
  "quoted s = [CHR 0x27] @ s @ [CHR 0x27]"

definition check_callsign :: "config \<Rightarrow> string list" where
  "check_callsign c = (case sta_callsign (cfg_station c) of
     Some cs \<Rightarrow> if cs = [] then [''[station] callsign is empty''] else []
   | None \<Rightarrow> [''[station] callsign is required''])"

definition check_stream :: "config \<Rightarrow> string list" where
  "check_stream c = (let s = cfg_stream c in
     (if is_multicast (str_group s) then [] else
        [''[stream] group '' @ show_ipv4 (str_group s)
         @ '' is not a multicast address (224.0.0.0 '' @ [CHR 0xE2, CHR 0x80, CHR 0x93]
         @ '' 239.255.255.255)''])
     @ (if str_port s = 0 then [''[stream] port must be > 0''] else []))"

definition check_location :: "config \<Rightarrow> string list" where
  "check_location c =
     (case loc_lat (cfg_location c) of
        Some lat \<Rightarrow> if contains_range (- 90) 90 lat then []
          else [''[location] lat '' @ fp_display B64 lat @ '' is out of range (-90 to 90)'']
      | None \<Rightarrow> [])
     @ (case loc_lon (cfg_location c) of
        Some lon \<Rightarrow> if contains_range (- 180) 180 lon then []
          else [''[location] lon '' @ fp_display B64 lon @ '' is out of range (-180 to 180)'']
      | None \<Rightarrow> [])"

definition check_aprsis :: "config \<Rightarrow> string list" where
  "check_aprsis c = (let a = cfg_aprsis c; l = cfg_location c in
     if ais_enabled a = Some True then
       (case ais_host a of
          Some h \<Rightarrow> if h = [] then [''[aprsis] host is empty but aprsis is enabled''] else []
        | None \<Rightarrow> [''[aprsis] host is required when aprsis is enabled''])
       @ (if ais_port a = None then [''[aprsis] port is required when aprsis is enabled''] else [])
       @ (if ais_beaconing a = Some True \<and> loc_source l = Src_Config then
            (if loc_lat l = None \<or> loc_lon l = None
             then [''[location] lat and lon are required when beaconing is enabled''] else [])
            @ (if loc_alt l = None
               then [''[location] alt is required when beaconing is enabled''] else [])
          else [])
     else [])"

definition check_gpsd :: "config \<Rightarrow> string list" where
  "check_gpsd c =
     (if loc_source (cfg_location c) = Src_Gpsd then
        (case cfg_gpsd c of None \<Rightarrow> []
         | Some g \<Rightarrow>
             (case gpsd_move_threshold_deg g of
                Some t \<Rightarrow> if fp_le t (Fin 0)
                  then [''[gpsd] move_threshold_deg '' @ fp_display B64 t @ '' must be > 0''] else []
              | None \<Rightarrow> [])
             @ (if gpsd_min_beacon_secs g = Some 0
                then [''[gpsd] min_beacon_secs must be > 0''] else []))
      else [])"

definition check_storage :: "(string \<Rightarrow> bool) \<Rightarrow> config \<Rightarrow> string list" where
  "check_storage exists c =
     (case path_parent (storage_path c) of
        Some p \<Rightarrow> if p \<noteq> [] \<and> \<not> exists p
          then [''[storage] path parent directory '' @ quoted p @ '' does not exist''] else []
      | None \<Rightarrow> [])
     @ (if Option.bind (cfg_storage c) sto_packet_history = Some 0
        then [''[storage] packet_history must be >= 1''] else [])"

definition check_http :: "config \<Rightarrow> string list" where
  "check_http c = (case Option.bind (cfg_http c) http_listen of
     Some l \<Rightarrow> if list_ex (\<lambda>ch. ch = CHR '':'') l then []
       else [''[http] listen '' @ quoted l @ '' should be in host:port format'']
   | None \<Rightarrow> [])"

definition validate :: "(string \<Rightarrow> bool) \<Rightarrow> config \<Rightarrow> string list" where
  "validate exists c = check_callsign c @ check_stream c @ check_location c @ check_aprsis c
     @ check_gpsd c @ check_storage exists c @ check_http c"

section \<open>Passcode and login\<close>

text \<open>
  \<open>str::to_uppercase\<close>: the ASCII range by the standard's rule, any other character by the
  Unicode table \<open>uc\<close> (one encoded character to its uppercase sequence).
\<close>

definition to_uppercase :: "(string \<Rightarrow> string) \<Rightarrow> string \<Rightarrow> string" where
  "to_uppercase uc s = concat (map (\<lambda>ch. case ch of [c] \<Rightarrow> (if is_ascii c then [ascii_upper c] else uc ch)
     | _ \<Rightarrow> uc ch) (utf8_chars s))"

text \<open>The loop over \<open>char_indices\<close>: \<open>i\<close> is the byte offset of the character.\<close>

fun passcode_loop :: "nat \<Rightarrow> string list \<Rightarrow> u32 \<Rightarrow> u32" where
  "passcode_loop i [] h = h"
| "passcode_loop i (ch # cs) h =
     (if utf8_scalar ch = 45 then h
      else passcode_loop (i + length ch) cs
             (xor h (push_bit (if i mod 2 = 0 then 8 else 0) (of_nat (utf8_scalar ch)))))"

definition passcode :: "(string \<Rightarrow> string) \<Rightarrow> string \<Rightarrow> int" where
  "passcode uc cs = sint (and (passcode_loop 0 (utf8_chars (to_uppercase uc cs)) 0x73e2) 0x7fff)"

definition compute_passcode :: "(string \<Rightarrow> string) \<Rightarrow> config \<Rightarrow> int" where
  "compute_passcode uc c = (case sta_callsign (cfg_station c) of Some cs \<Rightarrow> passcode uc cs | None \<Rightarrow> - 1)"

definition passcode_isvalid :: "(string \<Rightarrow> string) \<Rightarrow> config \<Rightarrow> bool" where
  "passcode_isvalid uc c = (case ais_passcode (cfg_aprsis c) of
     Some p \<Rightarrow> (case parse_i32 p of Some i \<Rightarrow> compute_passcode uc c = i | None \<Rightarrow> False)
   | None \<Rightarrow> False)"

definition crlf :: string where
  "crlf = [CHR 0x0D, CHR 0x0A]"

definition aprsis_login_string :: "(string \<Rightarrow> string) \<Rightarrow> config \<Rightarrow> string" where
  "aprsis_login_string uc c =
     (let cs = (case sta_callsign (cfg_station c) of Some s \<Rightarrow> s | None \<Rightarrow> ''N0CAL'');
          pass = (if passcode_isvalid uc c
                  then (case ais_passcode (cfg_aprsis c) of Some m \<Rightarrow> m | None \<Rightarrow> ''-1'')
                  else ''-1'')
      in ''user '' @ cs @ '' pass '' @ pass @ '' vers '' @ ''rtpigate'' @ '' '' @ ''0.5.2'' @ crlf)"

section \<open>What validation accepts\<close>

text \<open>
  What validation requires of a configuration, in three parts. It is not all the tasks need: the
  telemetry threshold is not among them (\<open>validate_ignores_threshold\<close>).
\<close>

definition required_ok :: "config \<Rightarrow> bool" where
  "required_ok c = (let a = cfg_aprsis c in
     (\<exists>cs. sta_callsign (cfg_station c) = Some cs \<and> cs \<noteq> [])
     \<and> is_multicast (str_group (cfg_stream c)) \<and> str_port (cfg_stream c) \<noteq> 0
     \<and> (ais_enabled a = Some True \<longrightarrow> (\<exists>h. ais_host a = Some h \<and> h \<noteq> []) \<and> ais_port a \<noteq> None))"

definition positions_ok :: "config \<Rightarrow> bool" where
  "positions_ok c = (let l = cfg_location c; a = cfg_aprsis c in
     (\<forall>lat. loc_lat l = Some lat \<longrightarrow> contains_range (- 90) 90 lat)
     \<and> (\<forall>lon. loc_lon l = Some lon \<longrightarrow> contains_range (- 180) 180 lon)
     \<and> (ais_enabled a = Some True \<and> ais_beaconing a = Some True \<and> loc_source l = Src_Config
          \<longrightarrow> loc_lat l \<noteq> None \<and> loc_lon l \<noteq> None \<and> loc_alt l \<noteq> None)
     \<and> (\<forall>g. loc_source l = Src_Gpsd \<and> cfg_gpsd c = Some g
          \<longrightarrow> (\<forall>t. gpsd_move_threshold_deg g = Some t \<longrightarrow> \<not> fp_le t (Fin 0))
              \<and> gpsd_min_beacon_secs g \<noteq> Some 0))"

definition storage_ok :: "(string \<Rightarrow> bool) \<Rightarrow> config \<Rightarrow> bool" where
  "storage_ok exists c = (
     (\<forall>p. path_parent (storage_path c) = Some p \<longrightarrow> p = [] \<or> exists p)
     \<and> packet_history_hours c \<noteq> 0
     \<and> (\<forall>l. Option.bind (cfg_http c) http_listen = Some l \<longrightarrow> CHR '':'' \<in> set l))"

lemma check_callsign_Nil: "check_callsign c = [] \<longleftrightarrow> (\<exists>cs. sta_callsign (cfg_station c) = Some cs \<and> cs \<noteq> [])"
  by (auto simp: check_callsign_def split: option.split)

lemma check_stream_Nil:
  "check_stream c = [] \<longleftrightarrow> is_multicast (str_group (cfg_stream c)) \<and> str_port (cfg_stream c) \<noteq> 0"
  by (simp add: check_stream_def Let_def)

lemma check_location_Nil:
  "check_location c = [] \<longleftrightarrow>
     (\<forall>lat. loc_lat (cfg_location c) = Some lat \<longrightarrow> contains_range (- 90) 90 lat)
     \<and> (\<forall>lon. loc_lon (cfg_location c) = Some lon \<longrightarrow> contains_range (- 180) 180 lon)"
  by (simp add: check_location_def split: option.split)

lemma check_aprsis_Nil:
  "check_aprsis c = [] \<longleftrightarrow> (ais_enabled (cfg_aprsis c) = Some True \<longrightarrow>
     (\<exists>h. ais_host (cfg_aprsis c) = Some h \<and> h \<noteq> []) \<and> ais_port (cfg_aprsis c) \<noteq> None
     \<and> (ais_beaconing (cfg_aprsis c) = Some True \<and> loc_source (cfg_location c) = Src_Config \<longrightarrow>
          loc_lat (cfg_location c) \<noteq> None \<and> loc_lon (cfg_location c) \<noteq> None
          \<and> loc_alt (cfg_location c) \<noteq> None))"
  by (auto simp: check_aprsis_def Let_def split: option.split)

lemma check_gpsd_Nil:
  "check_gpsd c = [] \<longleftrightarrow> (\<forall>g. loc_source (cfg_location c) = Src_Gpsd \<and> cfg_gpsd c = Some g \<longrightarrow>
     (\<forall>t. gpsd_move_threshold_deg g = Some t \<longrightarrow> \<not> fp_le t (Fin 0))
     \<and> gpsd_min_beacon_secs g \<noteq> Some 0)"
  by (auto simp: check_gpsd_def split: option.split)

lemma check_storage_Nil:
  "check_storage exists c = [] \<longleftrightarrow>
     (\<forall>p. path_parent (storage_path c) = Some p \<longrightarrow> p = [] \<or> exists p) \<and> packet_history_hours c \<noteq> 0"
proof -
  have "packet_history_hours c = 0 \<longleftrightarrow> Option.bind (cfg_storage c) sto_packet_history = Some 0"
    by (cases "Option.bind (cfg_storage c) sto_packet_history") (simp_all add: packet_history_hours_def)
  then show ?thesis by (auto simp: check_storage_def split: option.split)
qed

lemma check_http_Nil:
  "check_http c = [] \<longleftrightarrow> (\<forall>l. Option.bind (cfg_http c) http_listen = Some l \<longrightarrow> CHR '':'' \<in> set l)"
  by (auto simp: check_http_def list_ex_iff split: option.split)

lemmas checks_Nil = check_callsign_Nil check_stream_Nil check_location_Nil check_aprsis_Nil
  check_gpsd_Nil check_storage_Nil check_http_Nil

lemma validate_Nil: "validate exists c = [] \<longleftrightarrow> required_ok c \<and> positions_ok c \<and> storage_ok exists c"
  unfolding validate_def append_is_Nil_conv checks_Nil required_ok_def positions_ok_def storage_ok_def Let_def
  by blast

text \<open>The sections are checked independently: a message stays whatever else is wrong.\<close>

lemma validate_callsign: "check_callsign c = m # ms \<Longrightarrow> hd (validate exists c) = m"
  by (simp add: validate_def)

section \<open>The front end's view\<close>

lemma to_public_passcode:
  "to_public (c\<lparr>cfg_aprsis := (cfg_aprsis c)\<lparr>ais_passcode := p\<rparr>\<rparr>) = to_public c"
  by (simp add: to_public_def dao_mode_of_def gpsd_config_of_def satellite_frequencies_def Let_def)

section \<open>Passcodes\<close>

lemma passcode_range: "0 \<le> passcode uc cs \<and> passcode uc cs < 32768"
proof -
  define h :: u32 where "h = and (passcode_loop 0 (utf8_chars (to_uppercase uc cs)) 0x73e2) 0x7fff"
  have "h \<le> 0x7fff" unfolding h_def by (rule word_and_le1)
  then have "uint h \<le> 0x7fff" by (simp add: word_le_def)
  moreover from this have "- 2147483648 \<le> uint h" "uint h < 2147483648" using uint_ge_0 [of h] by linarith+
  then have "sint h = uint h" by (simp add: sint_uint signed_take_bit_int_eq_self)
  ultimately show ?thesis by (simp add: passcode_def h_def [symmetric])
qed

lemma passcode_loop_hyphen: "passcode_loop i (xs @ ''-'' # ys) h = passcode_loop i xs h"
  by (induction xs arbitrary: i h) simp_all

lemma ascii_not_cont: "is_ascii c \<Longrightarrow> \<not> is_cont c"
  by (simp add: is_ascii_def is_cont_def)

lemma utf8_chars_ascii: "\<forall>c\<in>set s. is_ascii c \<Longrightarrow> utf8_chars s = map (\<lambda>c. [c]) s"
proof (induction s)
  case (Cons c s)
  then have "takeWhile is_cont s = []" "dropWhile is_cont s = s"
    using ascii_not_cont by (cases s; simp)+
  with Cons show ?case by simp
qed simp

lemma utf8_chars_append:
  assumes "is_ascii c"
  shows "utf8_chars (xs @ c # ys) = utf8_chars xs @ utf8_chars (c # ys)"
proof (induction xs rule: utf8_chars.induct)
  case (2 x xs)
  have n: "\<not> is_cont c" by (rule ascii_not_cont) (rule assms)
  have "takeWhile is_cont (xs @ c # ys) = takeWhile is_cont xs"
    using n by (auto simp: takeWhile_append takeWhile_eq_all_conv [THEN iffD2])
  moreover have "dropWhile is_cont (xs @ c # ys) = dropWhile is_cont xs @ c # ys"
    using n by (auto simp: dropWhile_append dropWhile_eq_Nil_conv [THEN iffD2])
  ultimately show ?case using "2.IH" by simp
qed simp

text \<open>The SSID does not count: the passcode is that of the part before the hyphen.\<close>

lemma to_uppercase_append:
  assumes "is_ascii c"
  shows "to_uppercase uc (xs @ c # ys) = to_uppercase uc xs @ to_uppercase uc (c # ys)"
  by (simp add: to_uppercase_def utf8_chars_append [OF assms])

lemma is_ascii_upper [simp]: "is_ascii (ascii_upper c) = is_ascii c"
  by (auto simp: ascii_upper_def is_ascii_def)

text \<open>On ASCII text the uppercasing is bytewise, whatever the table.\<close>

lemma to_uppercase_ascii: "\<forall>c\<in>set s. is_ascii c \<Longrightarrow> to_uppercase uc s = map ascii_upper s"
proof -
  assume a: "\<forall>c\<in>set s. is_ascii c"
  then have "concat (map (\<lambda>c. if is_ascii c then [ascii_upper c] else uc [c]) s) = map ascii_upper s"
    by (induction s) simp_all
  then show ?thesis using a by (simp add: to_uppercase_def utf8_chars_ascii comp_def)
qed

lemma passcode_ssid:
  assumes "\<forall>c\<in>set base. is_ascii c" and "\<forall>c\<in>set ssid. is_ascii c"
  shows "passcode uc (base @ ''-'' @ ssid) = passcode uc base"
proof -
  have a: "\<forall>c\<in>set (base @ ''-'' @ ssid). is_ascii c" using assms by (auto simp: is_ascii_def)
  have "\<forall>c\<in>set (map ascii_upper (base @ ''-'' @ ssid)). is_ascii c" using a by auto
  then have "utf8_chars (map ascii_upper (base @ ''-'' @ ssid))
      = map (\<lambda>c. [c]) (map ascii_upper base) @ ''-'' # map (\<lambda>c. [c]) (map ascii_upper ssid)"
    by (subst utf8_chars_ascii) (auto simp: ascii_upper_def)
  moreover have "utf8_chars (map ascii_upper base) = map (\<lambda>c. [c]) (map ascii_upper base)"
    using assms(1) by (intro utf8_chars_ascii) simp
  ultimately show ?thesis
    using a assms(1) by (simp only: passcode_def to_uppercase_ascii passcode_loop_hyphen)
qed

lemma ascii_upper_lower [simp]: "ascii_upper (ascii_lower c) = ascii_upper c"
  by (auto simp: ascii_upper_def ascii_lower_def)

lemma is_ascii_lower [simp]: "is_ascii (ascii_lower c) = is_ascii c"
  by (auto simp: ascii_lower_def is_ascii_def)

lemma ascii_upper_of_lower_eq: "map ascii_lower a = map ascii_lower b \<Longrightarrow> map ascii_upper a = map ascii_upper b"
  by (metis (no_types, lifting) ascii_upper_lower list.map_comp map_cong comp_apply)

lemma passcode_case:
  assumes "\<forall>c\<in>set a. is_ascii c" and "eq_ignore_ascii_case a b"
  shows "passcode uc a = passcode uc b"
proof -
  have eq: "map ascii_lower a = map ascii_lower b" using assms(2) by (simp add: eq_ignore_ascii_case_def)
  have "\<forall>c\<in>set (map ascii_lower b). is_ascii c" using assms(1) by (simp flip: eq)
  then have "\<forall>c\<in>set b. is_ascii c" by simp
  with assms(1) show ?thesis
    using ascii_upper_of_lower_eq [OF eq] by (simp add: passcode_def to_uppercase_ascii)
qed

section \<open>The login line\<close>

lemma login_passcode_iff:
  "passcode_isvalid uc c \<longleftrightarrow> (\<exists>p i. ais_passcode (cfg_aprsis c) = Some p \<and> parse_i32 p = Some i
     \<and> compute_passcode uc c = i)"
  by (auto simp: passcode_isvalid_def split: option.split)

text \<open>An invalid passcode never leaves the program.\<close>

lemma login_invalid:
  "\<not> passcode_isvalid uc c \<Longrightarrow>
     aprsis_login_string uc (c\<lparr>cfg_aprsis := (cfg_aprsis c)\<lparr>ais_passcode := None\<rparr>\<rparr>) = aprsis_login_string uc c"
  by (simp add: aprsis_login_string_def passcode_isvalid_def)

section \<open>Freshness\<close>

lemma is_fresh_earlier:
  "is_fresh now g \<Longrightarrow> now' \<le> now \<Longrightarrow> is_fresh now' g"
  by (auto simp: is_fresh_def elapsed_def)

lemma is_fresh_window: "is_fresh now g \<Longrightarrow> now < fix_received_at g + secs 30"
  by (auto simp: is_fresh_def elapsed_def gps_freshness_def)

section \<open>What validation does not see\<close>

text \<open>The beacon threshold is not checked, a zero included, and a NaN passes the movement check.\<close>

lemma validate_ignores_threshold:
  "validate exists (c\<lparr>cfg_aprsis := (cfg_aprsis c)\<lparr>ais_threshold := t\<rparr>\<rparr>) = validate exists c"
  by (simp add: validate_def check_callsign_def check_stream_def check_location_def check_aprsis_def
      check_gpsd_def check_storage_def check_http_def storage_path_def Let_def)

lemma validate_nan_threshold:
  "check_gpsd c = [] \<Longrightarrow> cfg_gpsd c = Some g \<Longrightarrow>
     check_gpsd (c\<lparr>cfg_gpsd := Some (g\<lparr>gpsd_move_threshold_deg := Some NaN\<rparr>)\<rparr>) = []"
  by (auto simp: check_gpsd_def fp_le_def split: if_splits)

text \<open>Without a callsign the passcode \<open>-1\<close>, which means read-only, counts as valid.\<close>

lemma read_only_passcode_valid:
  "sta_callsign (cfg_station c) = None \<Longrightarrow> ais_passcode (cfg_aprsis c) = Some ''-1'' \<Longrightarrow> passcode_isvalid uc c"
  by (simp add: passcode_isvalid_def compute_passcode_def parse_i32_def parse_int_def digit_val_def)

section \<open>Properties\<close>

text \<open>
  The passcode of an ASCII callsign lies between 0 and 32767 and depends neither
  on its case nor on an SSID after a hyphen.
\<close>

theorem passcode_laws:
  assumes "\<forall>c\<in>set call. is_ascii c" and "\<forall>c\<in>set ssid. is_ascii c" and "eq_ignore_ascii_case call call'"
  shows "passcode uc (call @ ''-'' @ ssid) = passcode uc call' \<and> passcode uc call' \<in> {0..<32768}"
  using passcode_ssid [OF assms(1,2)] passcode_case [OF assms(1,3)] passcode_range [of uc call'] by simp

theorem passcode_laws_witness: "passcode (\<lambda>ch. ch) ''n0call-9'' = 13023"
proof -
  have "passcode (\<lambda>ch. ch) ''N0CALL'' = 13023"
    by (simp add: passcode_def to_uppercase_ascii utf8_chars_ascii is_ascii_def is_cont_def ascii_upper_def)
  moreover have "eq_ignore_ascii_case ''n0call'' ''N0CALL''" by code_simp
  ultimately show ?thesis
    using passcode_laws [of "''n0call''" "''9''" "''N0CALL''" "\<lambda>ch. ch"] by (simp add: is_ascii_def)
qed

text \<open>
  C11. The configuration shown to the front end does not depend on the
  passcode, and a passcode that is not the callsign's own is not sent to the server either: the
  login line is then the read-only one.
\<close>

theorem passcode_not_disclosed:
  "to_public (c\<lparr>cfg_aprsis := (cfg_aprsis c)\<lparr>ais_passcode := p\<rparr>\<rparr>) = to_public c
   \<and> (\<not> passcode_isvalid uc c \<longrightarrow> aprsis_login_string uc c
        = ''user '' @ or_default ''N0CAL'' (sta_callsign (cfg_station c)) @ '' pass -1 vers rtpigate 0.5.2'' @ crlf)"
  by (simp add: to_public_passcode aprsis_login_string_def split: option.split)

definition sample_config :: config where
  "sample_config = \<lparr>
     cfg_station = \<lparr> sta_callsign = Some ''N0CALL'', sta_name = None, sta_timezone = None, sta_verbose = None \<rparr>,
     cfg_location = \<lparr> loc_lat = Some (Fin 39), loc_lon = Some (Fin (- 104)), loc_alt = Some (Fin 5280),
       loc_source = Src_Config \<rparr>,
     cfg_aprsis = \<lparr> ais_passcode = Some ''13023'', ais_host = Some ''noam.aprs2.net'', ais_port = Some 14580,
       ais_enabled = Some True, ais_beaconing = Some True, ais_igating = Some True, ais_symbol = None,
       ais_overlay = None, ais_threshold = None, ais_dao = None \<rparr>,
     cfg_stream = \<lparr> str_group = (239, 85, 85, 85), str_port = 5000, str_interface = None,
       str_recv_buffer_bytes = None \<rparr>,
     cfg_satellite = None, cfg_http = None, cfg_gpsd = None, cfg_storage = None \<rparr>"

lemma sample_config_valid: "validate (\<lambda>_. True) sample_config = []"
proof -
  have "required_ok sample_config \<and> positions_ok sample_config \<and> storage_ok (\<lambda>_. True) sample_config"
    by (simp add: required_ok_def positions_ok_def storage_ok_def sample_config_def Let_def is_multicast_def
        contains_range_def packet_history_hours_def fp_eval)
  then show ?thesis using validate_Nil by blast
qed

theorem passcode_not_disclosed_witness:
  "aprsis_login_string (\<lambda>ch. ch) (sample_config\<lparr>cfg_aprsis := (cfg_aprsis sample_config)\<lparr>ais_passcode := Some ''1''\<rparr>\<rparr>)
     = ''user N0CALL pass -1 vers rtpigate 0.5.2'' @ crlf"
proof -
  let ?c = "sample_config\<lparr>cfg_aprsis := (cfg_aprsis sample_config)\<lparr>ais_passcode := Some ''1''\<rparr>\<rparr>"
  have "passcode (\<lambda>ch. ch) ''N0CALL'' = 13023"
    by (simp add: passcode_def to_uppercase_ascii utf8_chars_ascii is_ascii_def is_cont_def ascii_upper_def)
  then have "\<not> passcode_isvalid (\<lambda>ch. ch) ?c"
    by (simp add: passcode_isvalid_def compute_passcode_def sample_config_def parse_i32_def parse_int_def digit_val_def)
  with passcode_not_disclosed [where c = ?c and uc = "\<lambda>ch. ch"] show ?thesis by (simp add: sample_config_def)
qed

end
