(* ===== verification/Rx_Packet.thy ===== *)
theory Rx_Packet
  imports App_Config
begin

text \<open>
  A received packet (first part of \<open>src/stream.rs\<close>): the packet record, the line it is igated
  as, and the mapping of a decoded stream frame to it.

  The frame comes from the crates \<open>aprs_stream\<close> and \<open>aprs_decode\<close>, which are not part of the
  repository: the records below hold the fields the program reads of it, a parsed packet is
  of a type \<open>'p\<close>, and the textual encoder and decoder and the view of the payload are
  fields of the parameter \<open>decoder\<close>. The conversion of a millisecond stamp is chrono's and a
  parameter too.
\<close>

section \<open>Twist and course\<close>

definition slicer_zone :: "f32 \<Rightarrow> u8" where
  "slicer_zone g = (if fp_lt g (lit32 (8 / 10)) then 0
     else if fp_lt g (lit32 (125 / 100)) then 1 else 2)"

definition knots_to_mph :: f64 where
  "knots_to_mph = lit64 (1150779 / 1000000)"

datatype extension = DirectionSpeed (ext_degrees: u16) (ext_knots: int) | OtherExtension

fun course_speed_from_extension :: "extension option \<Rightarrow> f64 option \<times> u16 option" where
  "course_speed_from_extension (Some (DirectionSpeed deg knots)) =
     (Some (fp_mul B64 (fp_of_int B64 knots) knots_to_mph), if deg = 0 then None else Some deg)"
| "course_speed_from_extension _ = (None, None)"

record twist_info =
  tw_cols :: nat
  tw_mask :: u16
  tw_zones :: "u8 list"
  tw_centroid_db :: f32

section \<open>The packet\<close>

record rtp_packet =
  p_receivetime :: datetime
  p_received_instant :: instant
  p_raw :: string
  p_info :: string
  p_info_bytes :: bytes
  p_path :: string
  p_digipeater_path :: "string list"
  p_hops :: u32
  p_ptype :: rchar
  p_source :: string
  p_destination :: string
  p_heard_direct :: bool
  p_heardfrom :: string
  p_was_digipeated :: bool
  p_rfonly :: bool
  p_frequency :: f64
  p_is_satellite :: bool
  p_igated :: bool
  p_info_invalid_bytes :: nat
  p_object_name :: "string option"
  p_latitude :: "f64 option"
  p_longitude :: "f64 option"
  p_altitude_ft :: "f64 option"
  p_speed_mph :: "f64 option"
  p_course_deg :: "u16 option"
  p_snr_db :: "f32 option"
  p_slicer_mask :: u16
  p_twist :: "twist_info option"

text \<open>\<open>impl Display\<close>: \<open>fmt_time\<close> is chrono's \<open>format\<close> with the pattern of the source.\<close>

definition show_bool :: "bool \<Rightarrow> string" where
  "show_bool b = (if b then ''true'' else ''false'')"

definition display_packet :: "(datetime \<Rightarrow> string) \<Rightarrow> rtp_packet \<Rightarrow> string" where
  "display_packet fmt_time p =
     pad_right 24 (fmt_time (p_receivetime p)) @ '' '' @ pad_right 10 (p_source p) @ '' ''
     @ show_fixed 3 (p_frequency p) @ ''MHz direct: '' @ pad_right 6 (show_bool (p_heard_direct p))
     @ '' rfonly: '' @ pad_right 6 (show_bool (p_rfonly p)) @ '' '' @ p_raw p"

section \<open>The igate line\<close>

definition rxigate_header :: "rtp_packet \<Rightarrow> string \<Rightarrow> string" where
  "rxigate_header p callsign =
     (if p_path p = [] then p_source p @ ''>'' @ p_destination p @ '',qAO,'' @ callsign @ '':''
      else p_source p @ ''>'' @ p_destination p @ '','' @ p_path p @ '',qAO,'' @ callsign @ '':'')"

definition for_rxigate :: "rtp_packet \<Rightarrow> string \<Rightarrow> string" where
  "for_rxigate p callsign = rxigate_header p callsign @ p_info p"

definition for_rxigate_bytes :: "rtp_packet \<Rightarrow> string \<Rightarrow> bytes" where
  "for_rxigate_bytes p callsign = rxigate_header p callsign @ p_info_bytes p"

datatype packet = RTP rtp_packet

datatype data_item = Pkt packet | Tlm app_telemetry

section \<open>Frames\<close>

definition excluded_addrs :: "string list" where
  "excluded_addrs = [''WIDE'', ''TCPIP'', ''NOGATE'', ''RFONLY'', ''SGATE'']"

definition rfonly_addrs :: "string list" where
  "rfonly_addrs = [''TCPIP'', ''TCPXX'', ''RFONLY'', ''NOGATE'']"

record via_hop =
  hop_call :: string
  hop_heard :: bool

record ax25_meta =
  ax_source :: string
  ax_destination :: string
  ax_via :: "via_hop list"
  ax_heard_direct :: bool
  ax_heard_from :: string
  ax_info_offset :: "nat option"
  ax_info_invalid_bytes :: nat
  ax_dti :: "char option"

record 'p aprs_frame =
  fr_meta :: "ax25_meta option"
  fr_ax25 :: bytes
  fr_received_at_ms :: u64
  fr_ssrc :: "u32 option"
  fr_frequency_hz :: "u64 option"
  fr_snr_db :: "f32 option"
  fr_slicer_mask :: "u16 option"
  fr_slicer_gains :: "f32 list option"
  fr_parsed :: "'p option"

record aprs_position =
  ap_latitude :: f64
  ap_longitude :: f64
  ap_altitude_ft :: "f64 option"
  ap_symbol_table :: rchar
  ap_symbol_code :: rchar

record aprs_mice =
  mi_latitude :: f64
  mi_longitude :: f64
  mi_altitude_m :: "f64 option"
  mi_knots :: int
  mi_degrees :: int
  mi_symbol_table :: rchar
  mi_symbol_code :: rchar

datatype aprs_data =
    Position aprs_position "extension option"
  | MicE aprs_mice
  | Object bytes aprs_position "extension option"
  | Item bytes aprs_position "extension option"
  | OtherData

record 'p decoder =
  dc_encode :: "'p \<Rightarrow> bytes option"
  dc_decode :: "bytes \<Rightarrow> 'p option"
  dc_data :: "'p \<Rightarrow> aprs_data"

section \<open>Mapping a frame\<close>

record mapped_packet =
  mp_packet :: rtp_packet
  mp_symbol_table :: "rchar option"
  mp_symbol_code :: "rchar option"

definition frame_info_bytes :: "'p aprs_frame \<Rightarrow> ax25_meta \<Rightarrow> bytes" where
  "frame_info_bytes fr m = (case ax_info_offset m of
     Some off \<Rightarrow> if off \<le> length (fr_ax25 fr) then drop off (fr_ax25 fr) else []
   | None \<Rightarrow> [])"

definition frame_path :: "ax25_meta \<Rightarrow> string" where
  "frame_path m = join_with '','' (map hop_call (ax_via m))"

definition frame_digipeaters :: "ax25_meta \<Rightarrow> string list" where
  "frame_digipeaters m =
     filter (\<lambda>s. \<forall>x\<in>set excluded_addrs. \<not> str_contains x s) (map hop_call (ax_via m))"

definition frame_ptype :: "ax25_meta \<Rightarrow> string \<Rightarrow> rchar" where
  "frame_ptype m info = (case ax_dti m of Some b \<Rightarrow> byte_val b
     | None \<Rightarrow> (case utf8_chars info of ch # _ \<Rightarrow> utf8_scalar ch | [] \<Rightarrow> 0))"

definition frame_rfonly :: "ax25_meta \<Rightarrow> bool" where
  "frame_rfonly m = list_ex (\<lambda>h. list_ex (\<lambda>x. str_contains x (hop_call h)) rfonly_addrs) (ax_via m)"

definition frame_frequency :: "'p aprs_frame \<Rightarrow> f64" where
  "frame_frequency fr = (case fr_frequency_hz fr of
     Some hz \<Rightarrow> fp_div B64 (fp_of_int B64 (uint hz)) (Fin 1000000)
   | None \<Rightarrow> (case fr_ssrc fr of
       Some s \<Rightarrow> fp_div B64 (fp_of_int B64 (uint s)) (Fin 1000)
     | None \<Rightarrow> Fin 0))"

definition frame_raw :: "'p decoder \<Rightarrow> 'p aprs_frame \<Rightarrow> ax25_meta \<Rightarrow> string \<Rightarrow> string \<Rightarrow> string" where
  "frame_raw dec fr m path info = (case Option.bind (fr_parsed fr) (dc_encode dec) of
     Some b \<Rightarrow> utf8_lossy b
   | None \<Rightarrow> (if path = [] then ax_source m @ ''>'' @ ax_destination m @ '':'' @ info
       else ax_source m @ ''>'' @ ax_destination m @ '','' @ path @ '':'' @ info))"

text \<open>What the payload adds: position, altitude, speed, course, name and symbol.\<close>

record payload_fields =
  pf_latitude :: "f64 option"
  pf_longitude :: "f64 option"
  pf_altitude_ft :: "f64 option"
  pf_speed_mph :: "f64 option"
  pf_course_deg :: "u16 option"
  pf_object_name :: "string option"
  pf_symbol_table :: "rchar option"
  pf_symbol_code :: "rchar option"

definition position_fields :: "aprs_position \<Rightarrow> extension option \<Rightarrow> bytes option \<Rightarrow> payload_fields" where
  "position_fields pos ext name = (let (speed, course) = course_speed_from_extension ext in
     \<lparr> pf_latitude = Some (ap_latitude pos), pf_longitude = Some (ap_longitude pos),
       pf_altitude_ft = ap_altitude_ft pos, pf_speed_mph = speed, pf_course_deg = course,
       pf_object_name = map_option utf8_lossy name,
       pf_symbol_table = Some (ap_symbol_table pos), pf_symbol_code = Some (ap_symbol_code pos) \<rparr>)"

fun data_fields :: "aprs_data \<Rightarrow> payload_fields" where
  "data_fields (Position pos ext) = position_fields pos ext None"
| "data_fields (MicE m) =
     \<lparr> pf_latitude = Some (mi_latitude m), pf_longitude = Some (mi_longitude m),
       pf_altitude_ft = map_option (\<lambda>a. fp_mul B64 a (lit64 (328084 / 100000))) (mi_altitude_m m),
       pf_speed_mph = Some (fp_mul B64 (fp_of_int B64 (mi_knots m)) knots_to_mph),
       pf_course_deg = (if mi_degrees m = 0 then None else Some (word_of_int (mi_degrees m))),
       pf_object_name = None,
       pf_symbol_table = Some (mi_symbol_table m), pf_symbol_code = Some (mi_symbol_code m) \<rparr>"
| "data_fields (Object name pos ext) = position_fields pos ext (Some name)"
| "data_fields (Item name pos ext) = position_fields pos ext (Some name)"
| "data_fields OtherData =
     \<lparr> pf_latitude = None, pf_longitude = None, pf_altitude_ft = None, pf_speed_mph = None,
       pf_course_deg = None, pf_object_name = None, pf_symbol_table = None, pf_symbol_code = None \<rparr>"

definition frame_payload :: "'p decoder \<Rightarrow> 'p aprs_frame \<Rightarrow> string \<Rightarrow> payload_fields" where
  "frame_payload dec fr raw =
     (case (case fr_parsed fr of Some p \<Rightarrow> Some p | None \<Rightarrow> dc_decode dec raw) of
        Some p \<Rightarrow> data_fields (dc_data dec p) | None \<Rightarrow> data_fields OtherData)"

text \<open>
  \<open>from_ms\<close> is chrono's \<open>from_timestamp_millis\<close>; \<open>local_now\<close> and \<open>now\<close> are the two clocks.
  The stamp is cast to \<open>i64\<close>.
\<close>

definition map_frame :: "'p decoder \<Rightarrow> (int \<Rightarrow> datetime option) \<Rightarrow> datetime \<Rightarrow> instant
    \<Rightarrow> 'p aprs_frame \<Rightarrow> mapped_packet option" where
  "map_frame dec from_ms local_now now fr = (case fr_meta fr of None \<Rightarrow> None | Some m \<Rightarrow>
     (let ib = frame_info_bytes fr m;
          info = utf8_lossy ib;
          path = frame_path m;
          digis = frame_digipeaters m;
          raw = frame_raw dec fr m path info;
          pf = frame_payload dec fr raw
      in Some \<lparr> mp_packet = \<lparr>
           p_receivetime = or_default local_now (from_ms (sint (fr_received_at_ms fr))),
           p_received_instant = now,
           p_raw = raw, p_info = info, p_info_bytes = ib, p_path = path,
           p_digipeater_path = digis, p_hops = of_nat (length digis),
           p_ptype = frame_ptype m info,
           p_source = ax_source m, p_destination = ax_destination m,
           p_heard_direct = ax_heard_direct m, p_heardfrom = ax_heard_from m,
           p_was_digipeated = list_ex hop_heard (ax_via m),
           p_rfonly = frame_rfonly m, p_frequency = frame_frequency fr,
           p_is_satellite = False, p_igated = False,
           p_info_invalid_bytes = ax_info_invalid_bytes m,
           p_object_name = pf_object_name pf, p_latitude = pf_latitude pf,
           p_longitude = pf_longitude pf, p_altitude_ft = pf_altitude_ft pf,
           p_speed_mph = pf_speed_mph pf, p_course_deg = pf_course_deg pf,
           p_snr_db = fr_snr_db fr, p_slicer_mask = or_default 0 (fr_slicer_mask fr),
           p_twist = None \<rparr>,
         mp_symbol_table = pf_symbol_table pf, mp_symbol_code = pf_symbol_code pf \<rparr>))"

section \<open>What a mapped packet satisfies\<close>

text \<open>
  The two forms of the information field agree, the hop count is that of the filtered path,
  and the packet has not been judged yet.
\<close>

definition packet_wf :: "rtp_packet \<Rightarrow> bool" where
  "packet_wf p = (p_info p = utf8_lossy (p_info_bytes p)
     \<and> p_hops p = of_nat (length (p_digipeater_path p))
     \<and> (\<forall>s\<in>set (p_digipeater_path p). \<forall>x\<in>set excluded_addrs. \<not> str_contains x s))"

lemma map_frame_None: "map_frame dec from_ms lnow now fr = None \<longleftrightarrow> fr_meta fr = None"
  by (simp add: map_frame_def Let_def split: option.split)

lemma map_frame_wf: "map_frame dec from_ms lnow now fr = Some mp \<Longrightarrow> packet_wf (mp_packet mp)"
  by (auto simp: map_frame_def packet_wf_def frame_digipeaters_def Let_def split: option.splits)

lemma map_frame_fresh:
  "map_frame dec from_ms lnow now fr = Some mp \<Longrightarrow>
     p_received_instant (mp_packet mp) = now \<and> \<not> p_is_satellite (mp_packet mp)
     \<and> \<not> p_igated (mp_packet mp) \<and> p_twist (mp_packet mp) = None"
  by (auto simp: map_frame_def Let_def split: option.splits)

lemma igate_forms_agree:
  "\<forall>c\<in>set (p_info_bytes p). is_ascii c \<Longrightarrow> packet_wf p \<Longrightarrow> for_rxigate_bytes p cs = for_rxigate p cs"
  by (simp add: for_rxigate_bytes_def for_rxigate_def packet_wf_def utf8_lossy_id)

text \<open>A marker without a comma is in the joined path exactly when it is in one of its calls.\<close>

lemma infix_of_append_sep:
  assumes "c \<notin> set p" and "u @ p @ v = x @ c # y"
  shows "(\<exists>w. x = u @ p @ w) \<or> (\<exists>w. y = w @ p @ v)"
proof -
  from assms(2) consider
      (left) w where "u @ w = x" "p @ v = w @ c # y"
    | (right) w where "u = x @ w" "w @ p @ v = c # y"
    unfolding append_eq_append_conv2 [of u "p @ v"] by blast
  then show ?thesis
  proof cases
    case left
    from left(2) consider z where "p = w @ z" "z @ v = c # y" | z where "p @ z = w" "v = z @ c # y"
      unfolding append_eq_append_conv2 [of p v] by blast
    then show ?thesis
    proof cases
      case (1 z)
      with assms(1) left show ?thesis by (cases z) auto
    next
      case (2 z)
      with left show ?thesis by auto
    qed
  next
    case right
    show ?thesis
    proof (cases w)
      case Nil
      with right assms(1) show ?thesis by (cases p) (auto intro: exI [of _ "[]"])
    next
      case (Cons a w')
      with right show ?thesis by auto
    qed
  qed
qed

lemma str_contains_sep:
  assumes "c \<notin> set p"
  shows "str_contains p (x @ c # y) \<longleftrightarrow> str_contains p x \<or> str_contains p y"
proof
  assume "str_contains p (x @ c # y)"
  then obtain u v where "u @ p @ v = x @ c # y" unfolding str_contains_split by metis
  from infix_of_append_sep [OF assms this] show "str_contains p x \<or> str_contains p y"
    unfolding str_contains_split by blast
next
  have l: "x = u @ p @ w \<Longrightarrow> \<exists>u v. x @ c # y = u @ p @ v" for u w by auto
  have r: "y = w @ p @ v \<Longrightarrow> \<exists>u v. x @ c # y = u @ p @ v" for w v
    by (metis append_Cons append_assoc)
  assume "str_contains p x \<or> str_contains p y"
  with l r show "str_contains p (x @ c # y)" unfolding str_contains_split by metis
qed

lemma str_contains_join:
  assumes "CHR '','' \<notin> set p" and "p \<noteq> []"
  shows "str_contains p (join_with '','' xs) \<longleftrightarrow> (\<exists>x\<in>set xs. str_contains p x)"
proof (induction "'',''" xs rule: join_with.induct)
  case (3 x y xs)
  have "join_with '','' (x # y # xs) = x @ CHR '','' # join_with '','' (y # xs)" by simp
  then show ?case using 3 str_contains_sep [OF assms(1)] by simp
qed (simp_all add: assms(2))

lemma frame_rfonly_path: "frame_rfonly m \<longleftrightarrow> (\<exists>x\<in>set rfonly_addrs. str_contains x (frame_path m))"
proof -
  have "CHR '','' \<notin> set x \<and> x \<noteq> []" if "x \<in> set rfonly_addrs" for x
    using that by (auto simp: rfonly_addrs_def)
  then show ?thesis
    by (auto simp: frame_rfonly_def frame_path_def list_ex_iff str_contains_join)
qed

text \<open>A packet whose path carries one of the no-gate markers is flagged, wherever it stands.\<close>

lemma map_frame_rfonly:
  "map_frame dec from_ms lnow now fr = Some mp \<Longrightarrow>
     p_rfonly (mp_packet mp) \<longleftrightarrow> (\<exists>x\<in>set rfonly_addrs. str_contains x (p_path (mp_packet mp)))"
  by (auto simp: map_frame_def Let_def frame_rfonly_path split: option.splits)

text \<open>Course 000 means unknown, in an extension and in Mic-E alike.\<close>

lemma course_never_zero:
  "course_speed_from_extension e = (s, Some d) \<Longrightarrow> d \<noteq> 0"
  by (cases e rule: course_speed_from_extension.cases) (auto split: if_splits)

section \<open>The types of a mapped packet\<close>

text \<open>What Rust's types promise of the header a frame comes with: its strings are strings.\<close>

definition meta_typed :: "ax25_meta \<Rightarrow> bool" where
  "meta_typed m = (valid_utf8 (ax_source m) \<and> valid_utf8 (ax_destination m) \<and> valid_utf8 (ax_heard_from m)
     \<and> (\<forall>h\<in>set (ax_via m). valid_utf8 (hop_call h)))"

definition packet_typed :: "rtp_packet \<Rightarrow> bool" where
  "packet_typed p = (valid_utf8 (p_raw p) \<and> valid_utf8 (p_info p) \<and> valid_utf8 (p_path p)
     \<and> (\<forall>s\<in>set (p_digipeater_path p). valid_utf8 s) \<and> valid_utf8 (p_source p) \<and> valid_utf8 (p_destination p)
     \<and> valid_utf8 (p_heardfrom p) \<and> (\<forall>s. p_object_name p = Some s \<longrightarrow> valid_utf8 s) \<and> is_scalar (p_ptype p))"

lemma valid_utf8_Cons_ascii [simp]: "is_ascii c \<Longrightarrow> valid_utf8 (c # s) = valid_utf8 s"
  by (simp add: valid_utf8_def utf8_lossy.simps utf8_step_ascii)

lemma position_name: "pf_object_name (position_fields pos ext name) = map_option utf8_lossy name"
  by (simp add: position_fields_def split: prod.split)

lemma payload_name: "pf_object_name (data_fields d) = Some s \<Longrightarrow> valid_utf8 s"
  by (cases d) (auto simp: position_name)

lemma frame_path_typed: "meta_typed m \<Longrightarrow> valid_utf8 (frame_path m)"
  by (auto simp: frame_path_def meta_typed_def is_ascii_def intro!: valid_utf8_join)

lemma frame_raw_typed: "meta_typed m \<Longrightarrow> valid_utf8 info \<Longrightarrow> valid_utf8 path \<Longrightarrow> valid_utf8 (frame_raw dec fr m path info)"
  unfolding frame_raw_def meta_typed_def
  by (simp split: option.split) (auto intro!: valid_utf8_append simp: is_ascii_def)

lemma byte_scalar: "is_scalar (byte_val c)"
proof -
  have "byte_val c mod 256 < 256" by simp
  then have "byte_val c < 256" by (simp only: of_char_mod_256)
  then have "byte_val c < 55296" by linarith
  then show ?thesis unfolding is_scalar_def by blast
qed

lemma frame_ptype_typed: "valid_utf8 info \<Longrightarrow> is_scalar (frame_ptype m info)"
proof (cases info)
  case Nil
  moreover have "is_scalar 0" by (simp add: is_scalar_def)
  ultimately show ?thesis by (simp add: frame_ptype_def byte_scalar split: option.split)
next
  case (Cons c r)
  assume "valid_utf8 info"
  then have "is_scalar (utf8_scalar (hd (utf8_chars (c # r))))" using utf8_first_char Cons by blast
  then show ?thesis by (simp add: frame_ptype_def byte_scalar Cons split: option.split)
qed

text \<open>
  C7. Whatever the bytes of a frame, the packet made of it is well typed: every
  text in it is valid UTF-8, even where the payload is not, its type is a character, and so the
  text form of the igate line is valid UTF-8 for every callsign that is.
\<close>

theorem mapped_packet_typed:
  assumes "map_frame dec from_ms lnow now fr = Some mp" and "\<forall>m. fr_meta fr = Some m \<longrightarrow> meta_typed m"
  shows "packet_typed (mp_packet mp) \<and> (\<forall>cs. valid_utf8 cs \<longrightarrow> valid_utf8 (for_rxigate (mp_packet mp) cs))"
proof -
  obtain m where m: "fr_meta fr = Some m" "meta_typed m" using assms by (auto simp: map_frame_def split: option.splits)
  note h = m(2) [unfolded meta_typed_def]
  have name: "pf_object_name (frame_payload dec fr raw) = Some s \<Longrightarrow> valid_utf8 s" for raw s
    by (auto simp: frame_payload_def split: option.splits dest: payload_name)
  have p: "packet_typed (mp_packet mp)"
    using assms(1) m h name unfolding packet_typed_def
    by (auto simp: map_frame_def Let_def frame_path_typed frame_raw_typed frame_ptype_typed frame_digipeaters_def)
  moreover have "valid_utf8 (for_rxigate (mp_packet mp) cs)" if "valid_utf8 cs" for cs
    using p that unfolding packet_typed_def for_rxigate_def rxigate_header_def
    by (auto intro!: valid_utf8_append simp: is_ascii_def)
  ultimately show ?thesis by blast
qed

definition broken_frame :: "unit aprs_frame" where
  "broken_frame = \<lparr> fr_meta = Some \<lparr> ax_source = ''KD9ABC'', ax_destination = ''APRS'', ax_via = [],
       ax_heard_direct = True, ax_heard_from = ''KD9ABC'', ax_info_offset = Some 0, ax_info_invalid_bytes = 1,
       ax_dti = None \<rparr>,
     fr_ax25 = [CHR 0xC3, CHR 0x28], fr_received_at_ms = 0, fr_ssrc = None, fr_frequency_hz = None,
     fr_snr_db = None, fr_slicer_mask = None, fr_slicer_gains = None, fr_parsed = None \<rparr>"

text \<open>The byte C3 needs a continuation and gets an opening bracket: it becomes the replacement character.\<close>

theorem mapped_packet_typed_witness:
  "\<exists>mp. map_frame \<lparr> dc_encode = \<lambda>p. None, dc_decode = \<lambda>b. None, dc_data = \<lambda>p. OtherData \<rparr> (\<lambda>ms. None) 0 0
      broken_frame = Some mp
    \<and> p_info_bytes (mp_packet mp) = [CHR 0xC3, CHR 0x28]
    \<and> p_info (mp_packet mp) = [CHR 0xEF, CHR 0xBF, CHR 0xBD, CHR 0x28] \<and> packet_typed (mp_packet mp)"
proof -
  let ?d = "\<lparr> dc_encode = \<lambda>p. None, dc_decode = \<lambda>b. None, dc_data = \<lambda>p :: unit. OtherData \<rparr>"
  obtain mp where mp: "map_frame ?d (\<lambda>ms. None) 0 0 broken_frame = Some mp"
    by (auto simp: map_frame_def broken_frame_def Let_def)
  have ascii: "\<forall>m. fr_meta broken_frame = Some m \<longrightarrow> meta_typed m"
    by (simp add: broken_frame_def meta_typed_def is_ascii_def)
  have "utf8_lossy [CHR 0xC3, CHR 0x28] = [CHR 0xEF, CHR 0xBF, CHR 0xBD, CHR 0x28]"
    by (simp add: utf8_lossy.simps utf8_step_def second_ok_def in_range_def replacement_char_def)
  then have "p_info_bytes (mp_packet mp) = [CHR 0xC3, CHR 0x28] \<and> p_info (mp_packet mp) = [CHR 0xEF, CHR 0xBF, CHR 0xBD, CHR 0x28]"
    using mp by (auto simp: map_frame_def broken_frame_def Let_def frame_info_bytes_def)
  with mapped_packet_typed [OF mp ascii] mp show ?thesis by blast
qed

end
