(* ===== verification/Igate_Rules.thy ===== *)
theory Igate_Rules
  imports Rx_Packet
begin

text \<open>
  The gate (\<open>droppacket\<close> of \<open>src/igate.rs\<close>): which received packets are not sent to APRS-IS,
  and why. The lemmas give the order of the rules, what a gated packet satisfies, how the
  verdict changes with time, and what a server reads of the line a gated packet is sent as.
\<close>

section \<open>The rules\<close>

datatype drop_reason =
  Stale | RfOnly | GenericQuery | ThirdPartyInternet | SatelliteDirect | MalformedField

fun reason_str :: "drop_reason \<Rightarrow> string" where
  "reason_str Stale = ''stale''"
| "reason_str RfOnly = ''rfonly''"
| "reason_str GenericQuery = ''query''"
| "reason_str ThirdPartyInternet = ''thirdparty_inet''"
| "reason_str SatelliteDirect = ''sat_direct''"
| "reason_str MalformedField = ''malformed''"

definition age_threshold :: nat where
  "age_threshold = secs 30"

definition known_sats :: "string list" where
  "known_sats = [''RS0ISS'', ''NA1SS'', ''DP0ISS'', ''OR4ISS'', ''IR0ISS'', ''DP0SNX'']"

definition third_party_inner :: "rtp_packet \<Rightarrow> string" where
  "third_party_inner p = to_ascii_uppercase (or_default [] (str_from 1 (p_info p)))"

definition droppacket :: "instant \<Rightarrow> rtp_packet \<Rightarrow> drop_reason option" where
  "droppacket now p =
     (if list_ex embedded_crlf [p_source p, p_destination p, p_path p, p_info p]
      then Some MalformedField
      else if age_threshold < elapsed now (p_received_instant p) then Some Stale
      else if p_rfonly p then Some RfOnly
      else if p_ptype p = 63 then Some GenericQuery
      else if p_ptype p = 125 \<and>
        (str_contains ''TCPIP'' (third_party_inner p) \<or> str_contains ''TCPXX'' (third_party_inner p))
      then Some ThirdPartyInternet
      else if \<not> p_was_digipeated p \<and> p_is_satellite p
        \<and> \<not> list_ex (\<lambda>s. eq_ignore_ascii_case s (p_source p)) known_sats
      then Some SatelliteDirect
      else None)"

lemma reason_str_inj: "reason_str a = reason_str b \<Longrightarrow> a = b"
  by (cases a; cases b) simp_all

section \<open>The order of the rules\<close>

text \<open>Each rule as a predicate of its own, in the order of the source.\<close>

fun rule_fires :: "instant \<Rightarrow> rtp_packet \<Rightarrow> drop_reason \<Rightarrow> bool" where
  "rule_fires now p MalformedField = (embedded_crlf (p_source p) \<or> embedded_crlf (p_destination p)
     \<or> embedded_crlf (p_path p) \<or> embedded_crlf (p_info p))"
| "rule_fires now p Stale = (p_received_instant p + secs 30 < now)"
| "rule_fires now p RfOnly = p_rfonly p"
| "rule_fires now p GenericQuery = (p_ptype p = 63)"
| "rule_fires now p ThirdPartyInternet = (p_ptype p = 125 \<and>
     (\<exists>u m v. third_party_inner p = u @ m @ v \<and> m \<in> {''TCPIP'', ''TCPXX''}))"
| "rule_fires now p SatelliteDirect = (p_is_satellite p \<and> \<not> p_was_digipeated p
     \<and> (\<forall>s\<in>set known_sats. \<not> eq_ignore_ascii_case s (p_source p)))"

definition rule_order :: "drop_reason list" where
  "rule_order = [MalformedField, Stale, RfOnly, GenericQuery, ThirdPartyInternet, SatelliteDirect]"

lemma third_party_fires:
  "(\<exists>u m v. s = u @ m @ v \<and> m \<in> {''TCPIP'', ''TCPXX''}) \<longleftrightarrow> str_contains ''TCPIP'' s \<or> str_contains ''TCPXX'' s"
  unfolding str_contains_split by blast

lemma stale_fires: "age_threshold < elapsed now t \<longleftrightarrow> t + secs 30 < now"
  by (auto simp: age_threshold_def elapsed_def)

lemma droppacket_find: "droppacket now p = find (rule_fires now p) rule_order"
  unfolding droppacket_def rule_order_def find.simps rule_fires.simps third_party_fires stale_fires
    list_ex_iff
  by (simp del: str_contains.simps) blast

lemma droppacket_None: "droppacket now p = None \<longleftrightarrow> (\<forall>r. \<not> rule_fires now p r)"
proof -
  have "r \<in> set rule_order" for r by (cases r) (simp_all add: rule_order_def)
  then show ?thesis by (auto simp: droppacket_find find_None_iff)
qed

lemma droppacket_Some: "droppacket now p = Some r \<Longrightarrow> rule_fires now p r"
  by (auto simp: droppacket_find find_Some_iff)

lemma droppacket_malformed: "rule_fires now p MalformedField \<Longrightarrow> droppacket now p = Some MalformedField"
  unfolding droppacket_find rule_order_def find.simps by simp

lemma droppacket_stale:
  "\<not> rule_fires now p MalformedField \<Longrightarrow> rule_fires now p Stale \<Longrightarrow> droppacket now p = Some Stale"
  unfolding droppacket_find rule_order_def find.simps by simp

section \<open>The verdict over time\<close>

lemma rule_fires_mono: "rule_fires now p r \<Longrightarrow> now \<le> now' \<Longrightarrow> rule_fires now' p r"
  by (cases r) auto

text \<open>A packet that is dropped stays dropped; one that is gated was gated at every earlier moment.\<close>

lemma droppacket_mono:
  "droppacket now' p = None \<Longrightarrow> now \<le> now' \<Longrightarrow> droppacket now p = None"
  using rule_fires_mono by (metis droppacket_None)

lemma droppacket_at_receive: "droppacket (p_received_instant p) p \<noteq> Some Stale"
  by (auto dest: droppacket_Some)

section \<open>What the server reads\<close>

text \<open>APRS-IS is line-delimited: a server splits the stream at CR and LF and skips empty lines.\<close>

fun split_lines :: "bytes \<Rightarrow> bytes list" where
  "split_lines [] = [[]]"
| "split_lines (c # cs) =
     (if is_crlf c then [] # split_lines cs
      else case split_lines cs of l # ls \<Rightarrow> (c # l) # ls | [] \<Rightarrow> [[c]])"

definition wire_lines :: "bytes \<Rightarrow> bytes list" where
  "wire_lines s = filter (\<lambda>l. l \<noteq> []) (split_lines s)"

lemma split_lines_nonempty: "split_lines s \<noteq> []"
  by (induction s) (auto split: list.split)

lemma split_lines_append: "is_crlf c \<Longrightarrow> split_lines (a @ c # b) = split_lines a @ split_lines b"
proof (induction a)
  case (Cons x a)
  then show ?case using split_lines_nonempty [of a] by (cases "split_lines a") auto
qed simp

lemma split_lines_clean: "\<forall>c\<in>set s. \<not> is_crlf c \<Longrightarrow> split_lines s = [s]"
  by (induction s) auto

lemma wire_lines_append: "is_crlf c \<Longrightarrow> wire_lines (a @ c # b) = wire_lines a @ wire_lines b"
  by (simp add: wire_lines_def split_lines_append)

lemma wire_lines_clean: "\<forall>c\<in>set s. \<not> is_crlf c \<Longrightarrow> s \<noteq> [] \<Longrightarrow> wire_lines s = [s]"
  by (simp add: wire_lines_def split_lines_clean)

lemma wire_lines_Nil [simp]: "wire_lines [] = []"
  by (simp add: wire_lines_def)

lemma wire_lines_trailing: "\<forall>c\<in>set b. is_crlf c \<Longrightarrow> wire_lines (a @ b) = wire_lines a"
proof (induction b arbitrary: a rule: rev_induct)
  case (snoc c b)
  then show ?case using wire_lines_append [of c "a @ b" "[]"] by simp
qed simp

lemma trim_end_crlf_split: "\<exists>b. s = trim_end_crlf s @ b \<and> (\<forall>c\<in>set b. is_crlf c)"
proof (intro exI conjI)
  show "s = trim_end_crlf s @ rev (takeWhile is_crlf (rev s))"
    unfolding trim_end_crlf_def by (simp flip: rev_append)
qed (auto dest: set_takeWhileD)

lemma crlf_is_crlf: "\<forall>c\<in>set crlf. is_crlf c"
  by (simp add: crlf_def is_crlf_def)

text \<open>A text without line terminators, a payload with trailing ones only, and the terminator.\<close>

lemma wire_lines_line:
  assumes "\<forall>c\<in>set h. \<not> is_crlf c" and "h \<noteq> []" and "\<not> embedded_crlf s"
  shows "wire_lines (h @ s @ crlf) = [h @ trim_end_crlf s]"
proof -
  obtain b where s: "s = trim_end_crlf s @ b" and b: "\<forall>c\<in>set b. is_crlf c"
    using trim_end_crlf_split by blast
  have "\<forall>c\<in>set (b @ crlf). is_crlf c" using b crlf_is_crlf by auto
  from wire_lines_trailing [OF this, of "h @ trim_end_crlf s"]
  have "wire_lines (h @ s @ crlf) = wire_lines (h @ trim_end_crlf s)"
    by (subst s) simp
  also have "\<dots> = [h @ trim_end_crlf s]"
    using assms trim_end_crlf_clean by (intro wire_lines_clean) auto
  finally show ?thesis .
qed

text \<open>
  The fields of the header do not end in a line terminator. The gate excludes embedded
  terminators in them, so this is all a single line needs.
\<close>

definition header_trimmed :: "rtp_packet \<Rightarrow> bool" where
  "header_trimmed p = (\<forall>s\<in>{p_source p, p_destination p, p_path p}. trim_end_crlf s = s)"

lemma rxigate_header_clean:
  assumes "droppacket now p = None" and "header_trimmed p" and "\<forall>c\<in>set cs. \<not> is_crlf c"
  shows "\<forall>c\<in>set (rxigate_header p cs). \<not> is_crlf c"
proof -
  have "\<not> rule_fires now p MalformedField" using droppacket_None assms(1) by blast
  then have "\<forall>c\<in>set s. \<not> is_crlf c" if "s \<in> {p_source p, p_destination p, p_path p}" for s
    using that assms(2) trim_end_crlf_clean [of s] by (auto simp: header_trimmed_def)
  then show ?thesis using assms(3) by (auto simp: rxigate_header_def) (auto simp: is_crlf_def)
qed

lemma gated_single_line:
  assumes "droppacket now p = None" and "packet_wf p" and "header_trimmed p"
    and "\<forall>c\<in>set cs. \<not> is_crlf c"
  shows "wire_lines (for_rxigate_bytes p cs @ crlf)
    = [rxigate_header p cs @ trim_end_crlf (p_info_bytes p)]"
proof -
  have "\<not> rule_fires now p MalformedField" using droppacket_None assms(1) by blast
  then have "\<not> embedded_crlf (p_info_bytes p)"
    using assms(2) embedded_crlf_lossy [of "p_info_bytes p"] by (simp add: packet_wf_def)
  with rxigate_header_clean [OF assms(1,3,4)] show ?thesis
    unfolding for_rxigate_bytes_def append_assoc
    by (intro wire_lines_line) (auto simp: rxigate_header_def)
qed


section \<open>An ordinary packet, and one that is not\<close>

text \<open>A position report heard through a digipeater, received at the start of the clock.\<close>

definition sample_packet :: rtp_packet where
  "sample_packet = \<lparr> p_receivetime = 1700000000 * 1000000000, p_received_instant = 0,
     p_raw = ''KD9ABC-9>APRS,W1ABC*:!4903.50N/07201.75W-'',
     p_info = ''!4903.50N/07201.75W-'', p_info_bytes = ''!4903.50N/07201.75W-'',
     p_path = ''W1ABC'', p_digipeater_path = [''W1ABC''], p_hops = 1, p_ptype = 33,
     p_source = ''KD9ABC-9'', p_destination = ''APRS'', p_heard_direct = False,
     p_heardfrom = ''W1ABC'', p_was_digipeated = True, p_rfonly = False,
     p_frequency = lit64 (14439 / 100), p_is_satellite = False, p_igated = True,
     p_info_invalid_bytes = 0, p_object_name = None, p_latitude = None, p_longitude = None,
     p_altitude_ft = None, p_speed_mph = None, p_course_deg = None, p_snr_db = None,
     p_slicer_mask = 0, p_twist = None \<rparr>"

lemma sample_packet_wf: "packet_wf sample_packet"
  by (simp add: packet_wf_def sample_packet_def excluded_addrs_def utf8_lossy_id is_ascii_def)

lemma sample_packet_gated: "now \<le> secs 30 \<Longrightarrow> droppacket now sample_packet = None"
  by (simp add: droppacket_def sample_packet_def embedded_crlf_Cons is_crlf_def age_threshold_def
      elapsed_def)

lemma sample_packet_trimmed: "header_trimmed sample_packet"
  by (simp add: header_trimmed_def sample_packet_def trim_end_crlf_def is_crlf_def)

text \<open>
  The gate tolerates a trailing terminator in every field, also in those that are followed by
  more text on the line: such a source address splits the line the packet is sent as.
\<close>

definition split_packet :: rtp_packet where
  "split_packet = sample_packet\<lparr>p_source := ''KD9ABC-9'' @ [CHR 0x0A]\<rparr>"

lemma split_packet_wf: "packet_wf split_packet"
  using sample_packet_wf by (simp add: packet_wf_def split_packet_def)

lemma split_packet_gated: "droppacket 0 split_packet = None"
  by (simp add: droppacket_def split_packet_def sample_packet_def embedded_crlf_Cons is_crlf_def
      age_threshold_def elapsed_def)

lemma split_packet_lines:
  "wire_lines (for_rxigate_bytes split_packet ''N0CALL'' @ crlf)
     = [''KD9ABC-9'', ''>APRS,W1ABC,qAO,N0CALL:!4903.50N/07201.75W-'']"
  by (simp add: wire_lines_def for_rxigate_bytes_def rxigate_header_def split_packet_def
      sample_packet_def is_crlf_def crlf_def)

section \<open>Properties\<close>

text \<open>
  C1. The gate reports the first rule that fires in the order malformed, stale,
  RF-only, query, third-party, satellite, each rule read as a condition on the packet's fields,
  and gates the packet exactly when no rule fires.
\<close>

theorem gate_rule_order:
  "droppacket now p = find (rule_fires now p) rule_order
   \<and> (droppacket now p = None \<longleftrightarrow> {r. rule_fires now p r} = {})"
  using droppacket_find droppacket_None by auto

text \<open>
  The line a gated packet is sent as, terminator included, is read by
  a server as exactly one protocol line, with the payload's bytes unchanged up to its trailing
  terminators: nothing received over the air becomes a second line under the station's login.
  The three header fields must not end in a terminator.
\<close>

theorem gated_packet_is_one_line:
  assumes "droppacket now p = None" and "packet_wf p" and "header_trimmed p"
    and "\<forall>c\<in>set cs. \<not> is_crlf c"
  shows "wire_lines (for_rxigate_bytes p cs @ crlf)
    = [rxigate_header p cs @ trim_end_crlf (p_info_bytes p)]"
  by (rule gated_single_line) (fact assms)+

theorem gated_packet_is_one_line_witness:
  "wire_lines (for_rxigate_bytes sample_packet ''N0CALL'' @ crlf)
    = [''KD9ABC-9>APRS,W1ABC,qAO,N0CALL:!4903.50N/07201.75W-'']"
  using gated_packet_is_one_line [of 0 sample_packet "''N0CALL''"] sample_packet_wf
    sample_packet_trimmed sample_packet_gated [of 0]
  by (simp add: is_crlf_def sample_packet_def rxigate_header_def trim_end_crlf_def)

text \<open>
  A dropped packet is dropped at every later moment too: the only change time
  can make to a verdict is to replace its reason by the stale one.
\<close>

theorem drop_is_final:
  assumes "now \<le> now'" and "droppacket now p \<noteq> None"
  shows "droppacket now' p \<noteq> None
    \<and> (droppacket now' p \<noteq> droppacket now p \<longrightarrow> droppacket now' p = Some Stale)"
proof -
  have "droppacket now' p \<noteq> None" using assms(2) droppacket_mono [OF _ assms(1)] by metis
  moreover have "droppacket now' p = droppacket now p" if "droppacket now' p \<noteq> Some Stale"
  proof -
    have eq: "rule_fires now' p r = rule_fires now p r" if "r \<noteq> Stale" for r
      using that by (cases r) simp_all
    show ?thesis
    proof (cases "rule_fires now p MalformedField")
      case True
      moreover have "rule_fires now' p MalformedField"
        by (rule rule_fires_mono [OF _ assms(1)]) (rule True)
      ultimately show ?thesis by (simp only: droppacket_malformed)
    next
      case False
      then have "\<not> rule_fires now' p Stale"
        using that eq [of MalformedField] droppacket_stale by blast
      then have "rule_fires now' p r = rule_fires now p r" for r
        using eq [of r] rule_fires_mono [OF _ assms(1)] by (cases "r = Stale") blast+
      then have "rule_fires now' p = rule_fires now p" by (intro ext)
      then show ?thesis by (simp only: droppacket_find)
    qed
  qed
  ultimately show ?thesis by blast
qed

theorem drop_is_final_witness:
  "droppacket (secs 60) (sample_packet\<lparr>p_rfonly := True\<rparr>) = Some Stale"
proof -
  let ?p = "sample_packet\<lparr>p_rfonly := True\<rparr>"
  have "droppacket 0 ?p = Some RfOnly"
    by (simp add: droppacket_def sample_packet_def embedded_crlf_Cons is_crlf_def age_threshold_def
        elapsed_def)
  moreover have "rule_fires (secs 60) ?p Stale \<and> \<not> rule_fires (secs 60) ?p MalformedField"
    by (simp add: sample_packet_def secs_def embedded_crlf_Cons is_crlf_def)
  then have "droppacket (secs 60) ?p \<noteq> Some RfOnly"
    by (simp add: droppacket_find rule_order_def)
  ultimately show ?thesis using drop_is_final [of 0 "secs 60" ?p] by simp
qed

end
