(* ===== verification/Position_Beacon.thy ===== *)
theory Position_Beacon
  imports Igate_Rules
begin

text \<open>
  The position beacon (\<open>base91_dao_char\<close> and \<open>positpacket\<close> of \<open>src/igate.rs\<close>), with the
  floating-point arithmetic of the source. The lemmas bound every intermediate value, so that
  the fields of the report have their fixed widths, and bound the error of the encoded
  position.
\<close>

section \<open>Construction\<close>

definition tocall :: string where
  "tocall = ''APZJD1''"

definition base91_dao_char :: "f64 \<Rightarrow> char" where
  "base91_dao_char rem_minutes =
     (let v = fp_to_i64 (fp_floor (fp_mul B64 (fp_div B64 rem_minutes (lit64 (1 / 100))) (Fin 91)))
      in char_of (nat (33 + max 0 (min 90 v))))"

text \<open>One axis: whole degrees, hundredths of a minute, and the minutes beyond them.\<close>

definition axis_deg :: "f64 \<Rightarrow> u64" where
  "axis_deg x = fp_to_u64 (fp_trunc (fp_abs x))"

definition axis_minutes :: "f64 \<Rightarrow> f64" where
  "axis_minutes x =
     fp_mul B64 (fp_sub B64 (fp_abs x) (fp_of_int B64 (uint (axis_deg x)))) (Fin 60)"

definition beacon_eps :: f64 where
  "beacon_eps = lit64 (1 / 1000000)"

definition axis_hund :: "f64 \<Rightarrow> u64" where
  "axis_hund x =
     fp_to_u64 (fp_floor (fp_add B64 (fp_mul B64 (axis_minutes x) (Fin 100)) beacon_eps))"

definition axis_rem :: "f64 \<Rightarrow> f64" where
  "axis_rem x =
     fp_max (fp_sub B64 (axis_minutes x) (fp_div B64 (fp_of_int B64 (uint (axis_hund x))) (Fin 100)))
       (Fin 0)"

definition axis_string :: "nat \<Rightarrow> f64 \<Rightarrow> char \<Rightarrow> string" where
  "axis_string w x dir = show_pad0 w (uint (axis_deg x))
     @ show_pad0 2 (uint (axis_hund x) div 100) @ ''.''
     @ show_pad0 2 (uint (axis_hund x) mod 100) @ [dir]"

definition human_dao_digit :: "f64 \<Rightarrow> u8" where
  "human_dao_digit r = fp_to_u8 (fp_min
     (fp_floor (fp_add B64 (fp_mul B64 r (Fin 1000)) beacon_eps)) (Fin 9))"

fun dao_string :: "dao_mode \<Rightarrow> f64 \<Rightarrow> f64 \<Rightarrow> string" where
  "dao_string Dao_Off lat_rem lon_rem = []"
| "dao_string Dao_Human lat_rem lon_rem =
     ''!W'' @ show_dec (uint (human_dao_digit lat_rem)) @ show_dec (uint (human_dao_digit lon_rem)) @ ''!''"
| "dao_string Dao_Base91 lat_rem lon_rem =
     ''!w'' @ [base91_dao_char lat_rem] @ [base91_dao_char lon_rem] @ ''!''"

definition overlay_string :: "string option \<Rightarrow> string option \<Rightarrow> string" where
  "overlay_string overlay symbol = (case overlay of Some ov \<Rightarrow> ov
   | None \<Rightarrow> (case symbol of Some s \<Rightarrow> or_default ''/'' (nth_char 0 s) | None \<Rightarrow> ''/''))"

definition symbol_string :: "string option \<Rightarrow> string" where
  "symbol_string symbol = (case symbol of Some s \<Rightarrow> or_default ''0'' (nth_char 1 s) | None \<Rightarrow> ''0'')"

definition hms :: "datetime \<Rightarrow> string" where
  "hms t = (let s = timestamp t in
     show_pad0 2 (s div 3600 mod 24) @ show_pad0 2 (s div 60 mod 60) @ show_pad0 2 (s mod 60))"

text \<open>\<open>now\<close> is the wall clock (\<open>Utc::now\<close>).\<close>

definition positpacket :: "datetime \<Rightarrow> location \<Rightarrow> string \<Rightarrow> string \<Rightarrow> string option
    \<Rightarrow> string option \<Rightarrow> dao_mode \<Rightarrow> string result" where
  "positpacket now l callsign name symbol overlay dao =
     (case (loc_alt l, loc_lat l, loc_lon l) of
        (Some alt, Some lat, Some lon) \<Rightarrow>
          if fp_le alt (Fin 0) \<or> fp_eq lat (Fin 0) \<or> fp_eq lon (Fin 0)
          then Inl (Validation ''positpacket: Invalid lat/lon/alt'')
          else Inr (callsign @ ''>'' @ tocall @ '',TCPIP*:/'' @ hms now @ ''h''
            @ axis_string 2 lat (if fp_le (Fin 0) lat then CHR ''N'' else CHR ''S'')
            @ overlay_string overlay symbol
            @ axis_string 3 lon (if fp_le (Fin 0) lon then CHR ''E'' else CHR ''W'')
            @ symbol_string symbol @ ''/A='' @ show_pad0_fixed 6 0 alt @ name
            @ dao_string dao (axis_rem lat) (axis_rem lon))
      | _ \<Rightarrow> Inl (Validation ''positpacket: Missing lat/lon/alt''))"

section \<open>Bounds\<close>

text \<open>A finite value of magnitude at most \<open>b\<close>.\<close>

definition coord :: "rat \<Rightarrow> f64 \<Rightarrow> bool" where
  "coord b x = (is_fin x \<and> \<bar>fval x\<bar> \<le> b)"

lemma contains_range_fin:
  assumes "is_fin (lit64 lo)" and "is_fin (lit64 hi)" and "contains_range lo hi x"
  shows "is_fin x \<and> fval (lit64 lo) \<le> fval x \<and> fval x \<le> fval (lit64 hi)"
  using assms by (cases x; cases "lit64 lo"; cases "lit64 hi")
    (auto simp: contains_range_def fp_le_def)

lemma fp_abs_fin: "is_fin x \<Longrightarrow> fp_abs x = Fin \<bar>fval x\<bar>"
  by (cases x) auto

lemma trunc_rat_nonneg: "0 \<le> x \<Longrightarrow> trunc_rat x = \<lfloor>x\<rfloor>"
  by (simp add: trunc_rat_def)

lemma fp_integral_fin: "is_fin a \<Longrightarrow> g 0 = 0 \<Longrightarrow> is_fin (fp_integral g a) \<and> fval (fp_integral g a) = of_int (g (fval a))"
  by (cases a) auto

lemma fp_to_int_fin: "is_fin a \<Longrightarrow> lo \<le> 0 \<Longrightarrow> 0 \<le> hi \<Longrightarrow> fp_to_int lo hi a = max lo (min hi (trunc_rat (fval a)))"
  by (cases a) (auto simp: trunc_rat_def)

lemma fp_floor_fin: "is_fin a \<Longrightarrow> is_fin (fp_floor a) \<and> fval (fp_floor a) = of_int \<lfloor>fval a\<rfloor>"
  unfolding fp_floor_def by (rule fp_integral_fin) simp_all

lemma trunc_rat_of_int [simp]: "trunc_rat (of_int n) = n"
  by (simp add: trunc_rat_def)

lemma to_u64_floor:
  assumes "is_fin a" and "0 \<le> fval a" and "fval a < 2 ^ 53"
  shows "uint (fp_to_u64 (fp_floor a)) = \<lfloor>fval a\<rfloor>"
proof -
  have f: "0 \<le> \<lfloor>fval a\<rfloor>" "\<lfloor>fval a\<rfloor> < 2 ^ 53" using assms(2,3) by (simp_all add: floor_less_iff)
  have "fp_to_int 0 18446744073709551615 (fp_floor a) = \<lfloor>fval a\<rfloor>"
    using fp_floor_fin [OF assms(1)] f by (simp add: fp_to_int_fin)
  then show ?thesis using f by (simp add: fp_to_u64_def uint_word_of_int)
qed

lemma on_grid_B64_int: "\<bar>n\<bar> \<le> 2 ^ 52 \<Longrightarrow> on_grid B64 (of_int n)"
  by (rule on_grid_int) simp

lemma int_below_emax: "\<bar>n\<bar> \<le> 2 ^ 52 \<Longrightarrow> \<bar>rat_of_int n\<bar> < two_pow (emax B64)"
proof -
  assume n: "\<bar>n\<bar> \<le> 2 ^ 52"
  have "\<bar>of_int n :: rat\<bar> = of_int \<bar>n\<bar>" by simp
  also have "\<dots> \<le> (of_int (2 ^ 52) :: rat)" using n by (subst of_int_le_iff)
  also have "\<dots> < two_pow (emax B64)" by (simp add: two_pow_def)
  finally show ?thesis .
qed

lemma fp_of_int_small:
  assumes "\<bar>n\<bar> \<le> 2 ^ 52"
  shows "is_fin (fp_of_int B64 n) \<and> fval (fp_of_int B64 n) = of_int n"
proof -
  have r: "rnd_val B64 (of_int n) = of_int n"
    by (rule rnd_val_exact) (rule on_grid_B64_int [OF assms])
  show ?thesis
    using rnd_finite [of B64 "of_int n" False] int_below_emax [OF assms]
    unfolding fp_of_int_def r by blast
qed

text \<open>A rounded value between two small integers is finite and between them.\<close>

lemma rnd_int_between:
  assumes "of_int a \<le> x" and "x \<le> of_int b" and "\<bar>a\<bar> \<le> 2 ^ 52" and "\<bar>b\<bar> \<le> 2 ^ 52"
  shows "is_fin (rnd B64 s x) \<and> fval (rnd B64 s x) = rnd_val B64 x
    \<and> of_int a \<le> fval (rnd B64 s x) \<and> fval (rnd B64 s x) \<le> of_int b"
proof (rule rnd_between)
  show "- two_pow (emax B64) < of_int a" using int_below_emax [OF assms(3)] by linarith
  show "of_int b < two_pow (emax B64)" using int_below_emax [OF assms(4)] by linarith
qed (use assms on_grid_B64_int in auto)

lemma fp_mul_fin: "is_fin a \<Longrightarrow> is_fin b \<Longrightarrow> \<exists>s. fp_mul f a b = rnd f s (fval a * fval b)"
  by (cases a; cases b) (auto simp: fp_mul_def Let_def)

lemma fp_add_fin: "is_fin a \<Longrightarrow> is_fin b \<Longrightarrow> \<exists>s. fp_add f a b = rnd f s (fval a + fval b)"
  by (cases a; cases b) (auto simp: fp_add_def)

lemma fp_neg_fin: "is_fin a \<Longrightarrow> is_fin (fp_neg a) \<and> fval (fp_neg a) = - fval a"
  by (cases a) auto

lemma fp_sub_fin: "is_fin a \<Longrightarrow> is_fin b \<Longrightarrow> \<exists>s. fp_sub f a b = rnd f s (fval a - fval b)"
  using fp_add_fin [of a "fp_neg b" f] fp_neg_fin [of b] by (simp add: fp_sub_def)

lemma fp_div_fin: "is_fin a \<Longrightarrow> is_fin b \<Longrightarrow> fval b \<noteq> 0 \<Longrightarrow> \<exists>s. fp_div f a b = rnd f s (fval a / fval b)"
  by (cases a; cases b) (auto simp: fp_div_def Let_def)

section \<open>The value of an axis\<close>

definition frac_deg :: "f64 \<Rightarrow> rat" where
  "frac_deg x = \<bar>fval x\<bar> - of_int \<lfloor>\<bar>fval x\<bar>\<rfloor>"

lemma frac_deg_bounds: "0 \<le> frac_deg x \<and> frac_deg x < 1"
  unfolding frac_deg_def by linarith

lemma axis_deg_val:
  assumes "coord 180 x"
  shows "uint (axis_deg x) = \<lfloor>\<bar>fval x\<bar>\<rfloor> \<and> 0 \<le> uint (axis_deg x) \<and> uint (axis_deg x) \<le> 180"
proof -
  have c: "is_fin x" "\<bar>fval x\<bar> \<le> 180" using assms by (auto simp: coord_def)
  have "fp_trunc (fp_abs x) = fp_floor (fp_abs x)"
    using c(1) by (simp add: fp_trunc_def fp_floor_def fp_abs_fin trunc_rat_def)
  moreover have "uint (fp_to_u64 (fp_floor (fp_abs x))) = \<lfloor>\<bar>fval x\<bar>\<rfloor>"
    using to_u64_floor [of "fp_abs x"] c by (simp add: fp_abs_fin)
  moreover have "\<lfloor>\<bar>fval x\<bar>\<rfloor> \<le> 180" using c(2) by linarith
  ultimately show ?thesis by (simp add: axis_deg_def)
qed

lemma axis_minutes_val:
  assumes "coord 180 x"
  shows "is_fin (axis_minutes x) \<and> 0 \<le> fval (axis_minutes x) \<and> fval (axis_minutes x) \<le> 60
    \<and> \<bar>fval (axis_minutes x) - 60 * frac_deg x\<bar> \<le> 1 / 10000000000000"
proof -
  note d = axis_deg_val [OF assms]
  let ?d = "uint (axis_deg x)"
  have fin: "is_fin (fp_abs x)" "fval (fp_abs x) = \<bar>fval x\<bar>"
    using assms by (simp_all add: coord_def fp_abs_fin)
  have dd: "is_fin (fp_of_int B64 ?d)" "fval (fp_of_int B64 ?d) = of_int ?d"
    using fp_of_int_small [of ?d] d by auto
  have "frac_deg x = fval (fp_abs x) - fval (fp_of_int B64 ?d)"
    using d unfolding fin(2) dd(2) frac_deg_def by simp
  then obtain s where y: "fp_sub B64 (fp_abs x) (fp_of_int B64 ?d) = rnd B64 s (frac_deg x)"
    using fp_sub_fin [OF fin(1) dd(1), of B64] by auto
  define y where "y = rnd B64 s (frac_deg x)"
  have yb: "is_fin y" "fval y = rnd_val B64 (frac_deg x)" "0 \<le> fval y" "fval y \<le> 1"
    using rnd_int_between [of 0 "frac_deg x" 1 s] frac_deg_bounds [of x] unfolding y_def by auto
  have e1: "\<bar>fval y - frac_deg x\<bar> \<le> two_pow (- 53)"
    using rnd_val_err [of "frac_deg x" 1 B64] frac_deg_bounds [of x] yb(2) by (simp add: two_pow_def)
  obtain t where m: "axis_minutes x = rnd B64 t (fval y * 60)"
    using fp_mul_fin [OF yb(1), of "Fin 60" B64] y by (auto simp: axis_minutes_def y_def)
  have mb: "is_fin (axis_minutes x)" "fval (axis_minutes x) = rnd_val B64 (fval y * 60)"
    "0 \<le> fval (axis_minutes x)" "fval (axis_minutes x) \<le> 60"
    using rnd_int_between [of 0 "fval y * 60" 60 t] yb unfolding m by auto
  have e2: "\<bar>fval (axis_minutes x) - fval y * 60\<bar> \<le> two_pow (- 48)"
    using rnd_val_err [of "fval y * 60" 6 B64] yb(3,4) mb(2) by (simp add: two_pow_def)
  have "\<bar>fval (axis_minutes x) - 60 * frac_deg x\<bar> \<le> two_pow (- 48) + 60 * two_pow (- 53)"
    using e1 e2 by linarith
  also have "\<dots> \<le> 1 / 10000000000000" by (simp add: two_pow_def)
  finally show ?thesis using mb by blast
qed

lemma beacon_eps_Fin: "beacon_eps = Fin (4722366482869645 / 4722366482869645213696)"
  by (simp add: beacon_eps_def fp_eval)

lemma beacon_eps_val: "is_fin beacon_eps \<and> 9 / 10000000 \<le> fval beacon_eps \<and> fval beacon_eps \<le> 11 / 10000000"
  by (simp add: beacon_eps_Fin)

text \<open>Scaling a value by \<open>k\<close> and adding the epsilon, in floating point and exactly.\<close>

lemma scaled_eps_val:
  assumes a: "is_fin a" "0 \<le> fval a" "fval a * of_int k \<le> 6000" and k: "0 < k" "k \<le> 1000"
  defines "v \<equiv> fp_add B64 (fp_mul B64 a (Fin (of_int k))) beacon_eps"
  shows "is_fin v \<and> 0 \<le> fval v \<and> fval v \<le> 6000 + 1 / 2
    \<and> \<bar>fval v - (fval a * of_int k + fval beacon_eps)\<bar> \<le> 1 / 100000000000"
proof -
  obtain s where "fp_mul B64 a (Fin (of_int k)) = rnd B64 s (fval a * of_int k)"
    using fp_mul_fin [OF a(1), of "Fin (of_int k)" B64] by auto
  moreover define p where "p = rnd B64 s (fval a * of_int k)"
  ultimately have pe: "fp_mul B64 a (Fin (of_int k)) = p" by simp
  have nn: "0 \<le> fval a * of_int k" using a(2) k(1) by simp
  have p: "is_fin p" "fval p = rnd_val B64 (fval a * of_int k)" "0 \<le> fval p" "fval p \<le> 6000"
    using rnd_int_between [of 0 "fval a * of_int k" 6000 s] nn a(3) unfolding p_def by auto
  have e1: "\<bar>fval p - fval a * of_int k\<bar> \<le> two_pow (- 41)"
    using rnd_val_err [of "fval a * of_int k" 13 B64] nn a(3) p(2) by (simp add: two_pow_def)
  note eps = beacon_eps_val
  obtain t where v: "v = rnd B64 t (fval p + fval beacon_eps)"
    using fp_add_fin [of p beacon_eps B64] p(1) eps by (auto simp: v_def pe)
  have half: "on_grid B64 (6000 + 1 / 2)"
    by (rule on_gridI [of _ 12001 "- 1"]) (simp_all add: two_pow_def)
  have big: "(6000 + 1 / 2 :: rat) < two_pow (emax B64)" by (simp add: two_pow_def)
  have b: "is_fin v \<and> fval v = rnd_val B64 (fval p + fval beacon_eps)
      \<and> 0 \<le> fval v \<and> fval v \<le> 6000 + 1 / 2"
    unfolding v
  proof (rule rnd_between [OF on_grid_0 half _ _ _ big])
    show "0 \<le> fval p + fval beacon_eps" using p(3) eps by linarith
    show "fval p + fval beacon_eps \<le> 6000 + 1 / 2" using p(4) eps by linarith
  qed simp
  have "\<bar>fval p + fval beacon_eps\<bar> < two_pow 13" using p(3,4) eps by (simp add: two_pow_def)
  from rnd_val_err [OF this, of B64]
  have e2: "\<bar>fval v - (fval p + fval beacon_eps)\<bar> \<le> two_pow (- 41)" using b by simp
  have "\<bar>fval v - (fval a * of_int k + fval beacon_eps)\<bar> \<le> two_pow (- 41) + two_pow (- 41)"
    using e1 e2 by linarith
  also have "\<dots> \<le> 1 / 100000000000" by (simp add: two_pow_def)
  finally show ?thesis using b by blast
qed

lemma axis_hund_val:
  assumes "coord 180 x"
  shows "0 \<le> uint (axis_hund x) \<and> uint (axis_hund x) \<le> 6000
    \<and> of_int (uint (axis_hund x)) \<le> 6000 * frac_deg x + 2 / 1000000
    \<and> 6000 * frac_deg x < of_int (uint (axis_hund x)) + 1"
proof -
  note m = axis_minutes_val [OF assms]
  define v where "v = fp_add B64 (fp_mul B64 (axis_minutes x) (Fin (of_int 100))) beacon_eps"
  have v: "is_fin v" "0 \<le> fval v" "fval v \<le> 6000 + 1 / 2"
    "\<bar>fval v - (fval (axis_minutes x) * 100 + fval beacon_eps)\<bar> \<le> 1 / 100000000000"
    using scaled_eps_val [of "axis_minutes x" 100] m unfolding v_def by auto
  have h: "uint (axis_hund x) = \<lfloor>fval v\<rfloor>"
    using to_u64_floor [OF v(1,2)] v(3) by (simp add: axis_hund_def v_def)
  have m4: "\<bar>fval (axis_minutes x) - 60 * frac_deg x\<bar> \<le> 1 / 10000000000000" using m by blast
  have e: "9 / 10000000 \<le> fval beacon_eps" "fval beacon_eps \<le> 11 / 10000000"
    using beacon_eps_val by auto
  have w: "\<bar>fval v - (6000 * frac_deg x + fval beacon_eps)\<bar> \<le> 1 / 10000000000"
    using v(4) m4 unfolding abs_le_iff by linarith
  have f: "of_int \<lfloor>fval v\<rfloor> \<le> fval v" "fval v < of_int \<lfloor>fval v\<rfloor> + 1" by linarith+
  have "of_int \<lfloor>fval v\<rfloor> \<le> 6000 * frac_deg x + 2 / 1000000"
    "6000 * frac_deg x < of_int \<lfloor>fval v\<rfloor> + 1"
    using w e f unfolding abs_le_iff by linarith+
  moreover have "0 \<le> \<lfloor>fval v\<rfloor>" "\<lfloor>fval v\<rfloor> \<le> 6000" using v(2,3) by linarith+
  ultimately show ?thesis unfolding h by blast
qed

section \<open>The remainder and the precision extension\<close>

lemma fp_max_fin: "is_fin a \<Longrightarrow> is_fin b \<Longrightarrow> is_fin (fp_max a b) \<and> fval (fp_max a b) = max (fval a) (fval b)"
  by (cases a; cases b) (auto simp: fp_max_def fp_lt_def)

lemma fp_min_fin: "is_fin a \<Longrightarrow> is_fin b \<Longrightarrow> is_fin (fp_min a b) \<and> fval (fp_min a b) = min (fval a) (fval b)"
  by (cases a; cases b) (auto simp: fp_min_def fp_lt_def)

lemma max_near: "\<bar>x - y\<bar> \<le> e \<Longrightarrow> \<bar>max x 0 - max y 0\<bar> \<le> (e::rat)"
  by (auto simp: max_def abs_le_iff)

lemma divide_100_bounds: "0 \<le> n \<Longrightarrow> n \<le> 6000 \<Longrightarrow> 0 \<le> (of_int n :: rat) / 100"
  "0 \<le> n \<Longrightarrow> n \<le> 6000 \<Longrightarrow> (of_int n :: rat) / 100 \<le> 60"
  by simp_all

lemma axis_rem_val:
  assumes "coord 180 x"
  defines "beyond \<equiv> 60 * frac_deg x - of_int (uint (axis_hund x)) / 100"
  shows "is_fin (axis_rem x) \<and> 0 \<le> fval (axis_rem x) \<and> fval (axis_rem x) \<le> 1
    \<and> \<bar>fval (axis_rem x) - max beyond 0\<bar> \<le> 1 / 1000000000000"
proof -
  let ?h = "uint (axis_hund x)"
  note h = axis_hund_val [OF assms(1)] and m = axis_minutes_val [OF assms(1)]
  have b: "- (1 / 10000000) \<le> beyond" "beyond < 1 / 100"
    using h unfolding beyond_def by (auto simp: field_simps)
  have hf: "is_fin (fp_of_int B64 ?h)" "fval (fp_of_int B64 ?h) = of_int ?h"
    using fp_of_int_small [of ?h] h by auto
  have hh: "0 \<le> (of_int ?h :: rat) / 100" "(of_int ?h :: rat) / 100 \<le> 60"
    by (rule divide_100_bounds; use h in simp)+
  obtain s where "fp_div B64 (fp_of_int B64 ?h) (Fin 100) = rnd B64 s (of_int ?h / 100)"
    using fp_div_fin [OF hf(1), of "Fin 100" B64] hf(2) by auto
  moreover define d where "d = rnd B64 s (of_int ?h / 100)"
  ultimately have de: "fp_div B64 (fp_of_int B64 ?h) (Fin 100) = d" by simp
  have d: "is_fin d" "fval d = rnd_val B64 (of_int ?h / 100)"
    using rnd_int_between [of 0 "of_int ?h / 100" 60 s] hh unfolding d_def by auto
  have "\<bar>of_int ?h / 100\<bar> < two_pow 6" using hh by (simp add: two_pow_def)
  from rnd_val_err [OF this, of B64] d(2)
  have e1: "\<bar>fval d - of_int ?h / 100\<bar> \<le> two_pow (- 48)" by simp
  define q where "q = fval (axis_minutes x) - fval d"
  have m4: "\<bar>fval (axis_minutes x) - 60 * frac_deg x\<bar> \<le> 1 / 10000000000000" using m by blast
  have p48: "two_pow (- 48) \<le> 1 / 100000000000000" by (simp add: two_pow_def)
  have q: "\<bar>q - beyond\<bar> \<le> 2 / 10000000000000"
    using e1 m4 p48 unfolding q_def beyond_def abs_le_iff by linarith
  have q1: "- 1 \<le> q" "q \<le> 1" using q b unfolding abs_le_iff by linarith+
  obtain t where r: "fp_sub B64 (axis_minutes x) d = rnd B64 t q"
    using fp_sub_fin [of "axis_minutes x" d B64] m d(1) by (auto simp: q_def)
  have rb: "is_fin (rnd B64 t q)" "fval (rnd B64 t q) = rnd_val B64 q" "fval (rnd B64 t q) \<le> 1"
    using rnd_int_between [of "- 1" q 1 t] q1 by auto
  have "\<bar>q\<bar> < two_pow 1" using q1 by (simp add: two_pow_def abs_less_iff)
  from rnd_val_err [OF this, of B64] rb(2)
  have e2: "\<bar>fval (rnd B64 t q) - q\<bar> \<le> two_pow (- 53)" by simp
  have p53: "two_pow (- 53) \<le> 1 / 1000000000000000" by (simp add: two_pow_def)
  have "\<bar>fval (rnd B64 t q) - beyond\<bar> \<le> 1 / 1000000000000"
    using e2 q p53 unfolding abs_le_iff by linarith
  from max_near [OF this] fp_max_fin [OF rb(1), of "Fin 0"] rb(3) show ?thesis
    by (simp add: axis_rem_def de r)
qed

lemma human_dao_digit_val:
  assumes "is_fin r" and "0 \<le> fval r" and "fval r \<le> 1"
  shows "uint (human_dao_digit r) \<le> 9
    \<and> of_int (uint (human_dao_digit r)) \<le> 1000 * fval r + 2 / 1000000
    \<and> (uint (human_dao_digit r) = 9
         \<or> 1000 * fval r + 8 / 10000000 < of_int (uint (human_dao_digit r)) + 1)"
proof -
  define v where "v = fp_add B64 (fp_mul B64 r (Fin (of_int 1000))) beacon_eps"
  have v: "is_fin v" "0 \<le> fval v" "\<bar>fval v - (fval r * 1000 + fval beacon_eps)\<bar> \<le> 1 / 100000000000"
    using scaled_eps_val [of r 1000] assms unfolding v_def by auto
  let ?w = "fp_min (fp_floor v) (Fin 9)"
  have w: "is_fin ?w" "fval ?w = min (of_int \<lfloor>fval v\<rfloor>) 9"
    using fp_min_fin [of "fp_floor v" "Fin 9"] fp_floor_fin [OF v(1)] by auto
  have "fval ?w = of_int (min \<lfloor>fval v\<rfloor> 9)" unfolding w(2) by (simp add: min_def)
  then have "fp_to_int 0 255 ?w = min \<lfloor>fval v\<rfloor> 9"
    using v(2) by (simp add: fp_to_int_fin [OF w(1)])
  moreover have "human_dao_digit r = word_of_int (fp_to_int 0 255 ?w)"
    by (simp add: human_dao_digit_def fp_to_u8_def v_def)
  ultimately have d: "uint (human_dao_digit r) = min \<lfloor>fval v\<rfloor> 9"
    using v(2) by (simp add: uint_word_of_int min_def)
  have e: "9 / 10000000 \<le> fval beacon_eps" "fval beacon_eps \<le> 11 / 10000000"
    using beacon_eps_val by auto
  have f: "of_int \<lfloor>fval v\<rfloor> \<le> fval v" "fval v < of_int \<lfloor>fval v\<rfloor> + 1" by linarith+
  have g: "of_int \<lfloor>fval v\<rfloor> \<le> 1000 * fval r + 2 / 1000000" "1000 * fval r + 8 / 10000000 < of_int \<lfloor>fval v\<rfloor> + 1"
    using v(3) e f unfolding abs_le_iff by linarith+
  show ?thesis
  proof (cases "\<lfloor>fval v\<rfloor> < 9")
    case True
    then show ?thesis using g unfolding d by (simp add: min_def)
  next
    case False
    then have "(9::rat) \<le> of_int \<lfloor>fval v\<rfloor>" by linarith
    then show ?thesis using False g unfolding d by (auto simp: min_def) linarith
  qed
qed

text \<open>
  Degrees, hundredths and the human-readable digit together give the position to a thousandth
  of a minute, from below up to thirty nano-minutes.
\<close>

lemma human_dao_precision:
  assumes "coord 180 x"
  defines "h \<equiv> of_int (uint (axis_hund x)) / 100"
  defines "d \<equiv> of_int (uint (human_dao_digit (axis_rem x))) / 1000"
  shows "h + d \<le> 60 * frac_deg x + 3 / 100000000 \<and> 60 * frac_deg x < h + d + 1 / 1000"
proof -
  let ?b = "60 * frac_deg x - of_int (uint (axis_hund x)) / 100"
  let ?d = "uint (human_dao_digit (axis_rem x))"
  note h = axis_hund_val [OF assms(1)] and r = axis_rem_val [OF assms(1)]
  have dg: "of_int ?d \<le> 1000 * fval (axis_rem x) + 2 / 1000000"
    "?d = 9 \<or> 1000 * fval (axis_rem x) + 8 / 10000000 < of_int ?d + 1"
    using human_dao_digit_val [of "axis_rem x"] r by auto
  have b: "- (2 / 100000000) \<le> ?b" "?b < 1 / 100" using h by (auto simp: field_simps)
  have rr: "\<bar>fval (axis_rem x) - max ?b 0\<bar> \<le> 1 / 1000000000000" using r by blast
  have m: "?b \<le> max ?b 0" "max ?b 0 \<le> ?b + 2 / 100000000" using b by auto
  have lo: "of_int ?d / 1000 \<le> ?b + 3 / 100000000"
    using dg(1) rr m unfolding abs_le_iff by linarith
  have up: "?b < of_int ?d / 1000 + 1 / 1000"
  proof (cases "?d = 9")
    case True
    then have "(of_int ?d :: rat) = 9" by simp
    then show ?thesis using b by simp
  next
    case False
    have "1000 * fval (axis_rem x) + 8 / 10000000 < of_int ?d + 1" using dg(2) False by blast
    then show ?thesis using rr m unfolding abs_le_iff by linarith
  qed
  from lo up show ?thesis unfolding h_def d_def by linarith
qed

text \<open>The base-91 digit, and the precision it gives.\<close>

lemma lit_hundredth: "lit64 (1 / 100) = Fin (5764607523034235 / 576460752303423488)"
  by (simp add: fp_eval)

definition base91_value :: "f64 \<Rightarrow> int" where
  "base91_value r = max 0 (min 90 (fp_to_i64 (fp_floor (fp_mul B64 (fp_div B64 r (lit64 (1 / 100))) (Fin 91)))))"

lemma base91_value_bounds:
  assumes "is_fin r" and "0 \<le> fval r" and "fval r \<le> 1"
  shows "0 \<le> base91_value r \<and> base91_value r \<le> 90
    \<and> of_int (base91_value r) \<le> 9100 * fval r + 1 / 1000000000
    \<and> (base91_value r = 90 \<or> 9100 * fval r < of_int (base91_value r) + 1 + 1 / 1000000000)"
proof -
  define q where "q = fval r / (5764607523034235 / 576460752303423488)"
  have q: "0 \<le> q" "q \<le> 101" "\<bar>q - 100 * fval r\<bar> \<le> 1 / 1000000000000"
    using assms(2,3) unfolding q_def abs_le_iff by (simp_all add: field_simps)
  obtain s where u: "fp_div B64 r (lit64 (1 / 100)) = rnd B64 s q"
    using fp_div_fin [OF assms(1), of "lit64 (1 / 100)" B64] unfolding lit_hundredth q_def by auto
  define u where "u = rnd B64 s q"
  have ub: "is_fin u" "fval u = rnd_val B64 q" "0 \<le> fval u" "fval u \<le> 101"
    using rnd_int_between [of 0 q 101 s] q(1,2) unfolding u_def by auto
  have "\<bar>q\<bar> < two_pow 7" using q(1,2) by (simp add: two_pow_def)
  from rnd_val_err [OF this, of B64] ub(2) have e1: "\<bar>fval u - q\<bar> \<le> two_pow (- 47)" by simp
  obtain t where v: "fp_mul B64 (fp_div B64 r (lit64 (1 / 100))) (Fin 91) = rnd B64 t (fval u * 91)"
    using fp_mul_fin [OF ub(1), of "Fin 91" B64] unfolding u u_def by auto
  define v where "v = rnd B64 t (fval u * 91)"
  have vb: "is_fin v" "fval v = rnd_val B64 (fval u * 91)" "0 \<le> fval v" "fval v \<le> 9191"
    using rnd_int_between [of 0 "fval u * 91" 9191 t] ub(3,4) unfolding v_def by auto
  have "\<bar>fval u * 91\<bar> < two_pow 14" using ub(3,4) by (simp add: two_pow_def)
  from rnd_val_err [OF this, of B64] vb(2) have e2: "\<bar>fval v - fval u * 91\<bar> \<le> two_pow (- 40)" by simp
  have p: "two_pow (- 47) \<le> 1 / 100000000000000" "two_pow (- 40) \<le> 1 / 100000000000"
    by (simp_all add: two_pow_def)
  have e: "\<bar>fval v - 9100 * fval r\<bar> \<le> 1 / 1000000000"
    using e1 e2 q(3) p unfolding abs_le_iff by linarith
  have n: "0 \<le> \<lfloor>fval v\<rfloor>" "\<lfloor>fval v\<rfloor> \<le> 9191" using vb(3,4) by linarith+
  have "fp_to_i64 (fp_floor v) = \<lfloor>fval v\<rfloor>"
    using fp_floor_fin [OF vb(1)] n by (simp add: fp_to_i64_def fp_to_int_fin)
  then have b: "base91_value r = min 90 \<lfloor>fval v\<rfloor>"
    using n unfolding base91_value_def v v_def by simp
  have f: "of_int \<lfloor>fval v\<rfloor> \<le> 9100 * fval r + 1 / 1000000000"
    "9100 * fval r < of_int \<lfloor>fval v\<rfloor> + 1 + 1 / 1000000000"
    using e unfolding abs_le_iff by linarith+
  show ?thesis
  proof (cases "\<lfloor>fval v\<rfloor> < 90")
    case True
    then show ?thesis using f n unfolding b by simp
  next
    case False
    then have "(90::rat) \<le> of_int \<lfloor>fval v\<rfloor>" by linarith
    then have "(90::rat) \<le> 9100 * fval r + 1 / 1000000000" using f(1) by linarith
    then show ?thesis using False unfolding b by simp
  qed
qed

lemma base91_char_value:
  "byte_val (base91_dao_char r) = nat (33 + base91_value r)"
proof -
  have "0 \<le> base91_value r" "base91_value r \<le> 90" by (simp_all add: base91_value_def)
  then have "nat (33 + base91_value r) < 256" by simp
  then show ?thesis by (simp add: base91_dao_char_def base91_value_def Let_def)
qed

lemma base91_precision:
  assumes "coord 180 x"
  defines "h \<equiv> of_int (uint (axis_hund x)) / 100"
  defines "d \<equiv> of_int (base91_value (axis_rem x)) / 9100"
  shows "h + d \<le> 60 * frac_deg x + 3 / 100000000 \<and> 60 * frac_deg x < h + d + 1 / 9100 + 1 / 1000000000"
proof -
  let ?b = "60 * frac_deg x - of_int (uint (axis_hund x)) / 100"
  let ?d = "base91_value (axis_rem x)"
  note h = axis_hund_val [OF assms(1)] and r = axis_rem_val [OF assms(1)]
  have dg: "of_int ?d \<le> 9100 * fval (axis_rem x) + 1 / 1000000000"
    "?d = 90 \<or> 9100 * fval (axis_rem x) < of_int ?d + 1 + 1 / 1000000000"
    using base91_value_bounds [of "axis_rem x"] r by auto
  have b: "- (2 / 100000000) \<le> ?b" "?b < 1 / 100" using h by (auto simp: field_simps)
  have rr: "\<bar>fval (axis_rem x) - max ?b 0\<bar> \<le> 1 / 1000000000000" using r by blast
  have m: "?b \<le> max ?b 0" "max ?b 0 \<le> ?b + 2 / 100000000" using b by auto
  have lo: "of_int ?d / 9100 \<le> ?b + 3 / 100000000"
    using dg(1) rr m unfolding abs_le_iff by linarith
  have up: "?b < of_int ?d / 9100 + 1 / 9100 + 1 / 1000000000"
  proof (cases "?d = 90")
    case True
    then have "(of_int ?d :: rat) = 90" by simp
    then show ?thesis using b by simp
  next
    case False
    have "9100 * fval (axis_rem x) < of_int ?d + 1 + 1 / 1000000000" using dg(2) False by blast
    then show ?thesis using rr m unfolding abs_le_iff by linarith
  qed
  from lo up show ?thesis unfolding h_def d_def by linarith
qed

section \<open>The text\<close>

lemma length_pad2: "0 \<le> n \<Longrightarrow> n < 100 \<Longrightarrow> length (show_pad0 2 n) = 2"
  using length_show_pad0 [of n 1] by (simp add: numeral_2_eq_2)

lemma length_pad3: "0 \<le> n \<Longrightarrow> n < 1000 \<Longrightarrow> length (show_pad0 3 n) = 3"
  using length_show_pad0 [of n 2] by (simp add: numeral_3_eq_3 numeral_2_eq_2)

lemma length_hms: "length (hms t) = 6"
proof -
  have "n mod 24 < 100" "n mod 60 < 100" for n :: int
    using pos_mod_bound [of 24 n] pos_mod_bound [of 60 n] by linarith+
  then show ?thesis by (simp add: hms_def Let_def length_pad2)
qed

lemma length_axis_tail:
  assumes "coord 180 x"
  shows "length (show_pad0 2 (uint (axis_hund x) div 100)) = 2
    \<and> length (show_pad0 2 (uint (axis_hund x) mod 100)) = 2"
proof -
  have "0 \<le> uint (axis_hund x)" "uint (axis_hund x) \<le> 6000" using axis_hund_val [OF assms] by blast+
  then have "0 \<le> uint (axis_hund x) div 100" "uint (axis_hund x) div 100 < 100" by presburger+
  then show ?thesis by (simp add: length_pad2)
qed

lemma length_lat_string:
  assumes "coord 90 x"
  shows "length (axis_string 2 x dir) = 8"
proof -
  have c: "coord 180 x" and "\<bar>fval x\<bar> \<le> 90" using assms by (auto simp: coord_def)
  then have "\<lfloor>\<bar>fval x\<bar>\<rfloor> \<le> 90" by linarith
  then have "length (show_pad0 2 (uint (axis_deg x))) = 2"
    using axis_deg_val [OF c] by (intro length_pad2) auto
  then show ?thesis using length_axis_tail [OF c] by (simp add: axis_string_def)
qed

lemma length_lon_string:
  assumes "coord 180 x"
  shows "length (axis_string 3 x dir) = 9"
proof -
  have "length (show_pad0 3 (uint (axis_deg x))) = 3"
    using axis_deg_val [OF assms] by (intro length_pad3) auto
  then show ?thesis using length_axis_tail [OF assms] by (simp add: axis_string_def)
qed

lemma base91_printable: "33 \<le> byte_val (base91_dao_char r) \<and> byte_val (base91_dao_char r) \<le> 123"
proof -
  define v where "v = max 0 (min 90 (fp_to_i64 (fp_floor (fp_mul B64 (fp_div B64 r (lit64 (1 / 100))) (Fin 91)))))"
  have "0 \<le> v" "v \<le> 90" by (simp_all add: v_def)
  then have "nat (33 + v) \<le> 123" "33 \<le> nat (33 + v)" by simp_all
  moreover have "byte_val (base91_dao_char r) = nat (33 + v) mod 256"
    by (simp add: base91_dao_char_def v_def Let_def)
  ultimately show ?thesis by simp
qed

lemma length_dao_string:
  assumes "coord 180 lat" and "coord 180 lon"
  shows "length (dao_string m (axis_rem lat) (axis_rem lon)) = (if m = Dao_Off then 0 else 5)"
proof (cases m)
  case Dao_Human
  have "length (show_dec (uint (human_dao_digit (axis_rem x)))) = 1" if "coord 180 x" for x
    using human_dao_digit_val [of "axis_rem x"] axis_rem_val [OF that] by (simp add: show_dec_small)
  with Dao_Human assms show ?thesis by simp
qed simp_all

text \<open>Minutes are rounded up to sixty just below a whole degree, and degrees do not follow.\<close>

lemma sixty_minutes: "axis_string 2 (lit64 (399999999999 / 10000000000)) CHR ''N'' = ''3960.00N''"
  by (simp add: axis_string_def axis_hund_def axis_minutes_def axis_deg_def beacon_eps_def fp_eval)

section \<open>What a receiver reads\<close>

text \<open>
  A receiver's reader of the format (APRS 1.2): a coordinate is \<open>w\<close> digits of degrees, two of minutes,
  a point, two of hundredths and a direction; the precision extension adds thousandths of a
  minute (\<open>!W..!\<close>) or 9100ths (\<open>!w..!\<close>, base 91) to each. Values are in minutes.
\<close>

definition read_axis :: "nat \<Rightarrow> string \<Rightarrow> (rat \<times> char) option" where
  "read_axis w s = (if length s = w + 6 \<and> s ! (w + 2) = CHR ''.'' then
     (case (parse_digits 0 (take w s), parse_digits 0 (take 2 (drop w s)), parse_digits 0 (take 2 (drop (w + 3) s))) of
        (Some d, Some m, Some h) \<Rightarrow> Some (60 * of_int d + of_int m + of_int h / 100, s ! (w + 5))
      | _ \<Rightarrow> None) else None)"

fun read_dao :: "string \<Rightarrow> (rat \<times> rat) option" where
  "read_dao [] = Some (0, 0)"
| "read_dao [s, k, a, b, e] =
     (if s \<noteq> CHR ''!'' \<or> e \<noteq> CHR ''!'' then None
      else if k = CHR ''W'' then
        (case (digit_val a, digit_val b) of
           (Some da, Some db) \<Rightarrow> Some (of_int da / 1000, of_int db / 1000) | _ \<Rightarrow> None)
      else if k = CHR ''w'' then
        Some (of_int (int (byte_val a) - 33) / 9100, of_int (int (byte_val b) - 33) / 9100)
      else None)"
| "read_dao _ = None"

definition read_direction :: "char \<Rightarrow> char \<Rightarrow> char \<Rightarrow> rat \<Rightarrow> rat option" where
  "read_direction pos neg c v = (if c = pos then Some v else if c = neg then Some (- v) else None)"

text \<open>Latitude and longitude in signed degrees.\<close>

definition read_position :: "string \<Rightarrow> string \<Rightarrow> string \<Rightarrow> (rat option \<times> rat option) option" where
  "read_position la lo ext = (case (read_axis 2 la, read_axis 3 lo, read_dao ext) of
     (Some (y, ns), Some (x, ew), Some (dy, dx)) \<Rightarrow>
       Some (read_direction CHR ''N'' CHR ''S'' ns ((y + dy) / 60),
             read_direction CHR ''E'' CHR ''W'' ew ((x + dx) / 60))
   | _ \<Rightarrow> None)"

text \<open>The resolution of each mode in degrees, with the rounding of the arithmetic.\<close>

fun resolution :: "dao_mode \<Rightarrow> rat" where
  "resolution Dao_Off = 1 / 6000"
| "resolution Dao_Human = 1 / 60000"
| "resolution Dao_Base91 = 1 / 546000 + 1 / 10 ^ 9"

lemma read_axis_string:
  assumes "coord 180 x" and "length (show_pad0 w (uint (axis_deg x))) = w"
  shows "read_axis w (axis_string w x d) =
    Some (60 * of_int (uint (axis_deg x)) + of_int (uint (axis_hund x)) / 100, d)"
proof -
  note t = length_axis_tail [OF assms(1)]
  have h: "0 \<le> uint (axis_hund x)" using axis_hund_val [OF assms(1)] by blast
  obtain m1 m2 where m: "show_pad0 2 (uint (axis_hund x) div 100) = [m1, m2]"
    using t by (auto simp: length_Suc_conv numeral_2_eq_2)
  obtain h1 h2 where u: "show_pad0 2 (uint (axis_hund x) mod 100) = [h1, h2]"
    using t by (auto simp: length_Suc_conv numeral_2_eq_2)
  define g where "g = show_pad0 w (uint (axis_deg x))"
  have g: "length g = w" "parse_digits 0 g = Some (uint (axis_deg x))"
    using assms(2) axis_deg_val [OF assms(1)] by (simp_all add: g_def parse_digits_pad0)
  have pm: "parse_digits 0 [m1, m2] = Some (uint (axis_hund x) div 100)"
    unfolding m [symmetric] using h by (intro parse_digits_pad0) (rule pos_imp_zdiv_nonneg_iff [THEN iffD2], simp_all)
  have pu: "parse_digits 0 [h1, h2] = Some (uint (axis_hund x) mod 100)"
    unfolding u [symmetric] by (intro parse_digits_pad0) simp
  have s: "axis_string w x d = g @ [m1, m2, CHR ''.'', h1, h2, d]"
    by (simp add: axis_string_def g_def m u)
  have e: "of_int (n div 100) + of_int (n mod 100) / 100 = (of_int n / 100 :: rat)" for n
  proof -
    have "n = 100 * (n div 100) + n mod 100" by presburger
    then have "(of_int n :: rat) = 100 * of_int (n div 100) + of_int (n mod 100)"
      by (metis of_int_add of_int_mult of_int_numeral)
    then show ?thesis by simp
  qed
  show ?thesis
    unfolding s using g pm pu e [of "uint (axis_hund x)"]
    by (simp add: read_axis_def nth_append numeral_eq_Suc del: parse_digits.simps)
qed

text \<open>The minutes that the extension of a mode adds to one coordinate.\<close>

fun dao_minutes :: "dao_mode \<Rightarrow> f64 \<Rightarrow> rat" where
  "dao_minutes Dao_Off r = 0"
| "dao_minutes Dao_Human r = of_int (uint (human_dao_digit r)) / 1000"
| "dao_minutes Dao_Base91 r = of_int (base91_value r) / 9100"

lemma read_dao_string:
  assumes "coord 180 x" and "coord 180 y"
  shows "read_dao (dao_string dao (axis_rem x) (axis_rem y))
    = Some (dao_minutes dao (axis_rem x), dao_minutes dao (axis_rem y))"
proof (cases dao)
  case Dao_Human
  have "0 \<le> uint (human_dao_digit (axis_rem v)) \<and> uint (human_dao_digit (axis_rem v)) < 10" if "coord 180 v" for v
    using human_dao_digit_val [of "axis_rem v"] axis_rem_val [OF that] by simp
  with Dao_Human assms show ?thesis by (simp add: show_dec_small)
next
  case Dao_Base91
  have "int (byte_val (base91_dao_char r)) - 33 = base91_value r" for r
    unfolding base91_char_value by (simp add: base91_value_def)
  with Dao_Base91 show ?thesis by simp
qed simp

lemma axis_reads_back:
  fixes dao :: dao_mode
  assumes "coord 180 x"
  defines "v \<equiv> (60 * of_int (uint (axis_deg x)) + of_int (uint (axis_hund x)) / 100
    + dao_minutes dao (axis_rem x)) / 60"
  shows "v \<le> \<bar>fval x\<bar> + 1 / 10 ^ 9 \<and> \<bar>fval x\<bar> < v + resolution dao"
proof -
  have d: "\<bar>fval x\<bar> = of_int (uint (axis_deg x)) + frac_deg x"
    using axis_deg_val [OF assms(1)] by (simp add: frac_deg_def)
  have h: "of_int (uint (axis_hund x)) \<le> 6000 * frac_deg x + 2 / 1000000"
    "6000 * frac_deg x < of_int (uint (axis_hund x)) + 1"
    using axis_hund_val [OF assms(1)] by auto
  note p = human_dao_precision [OF assms(1)] and q = base91_precision [OF assms(1)]
  have t: "(10::rat) ^ 9 = 1000000000" by simp
  show ?thesis
  proof (cases dao)
    case Dao_Off
    show ?thesis using h unfolding v_def d t Dao_Off by (simp add: field_simps)
  next
    case Dao_Human
    show ?thesis using p unfolding v_def d t Dao_Human by (simp add: field_simps)
  next
    case Dao_Base91
    show ?thesis using q unfolding v_def d t Dao_Base91 by (simp add: field_simps)
  qed
qed


lemma minutes_nonneg: "0 \<le> a \<Longrightarrow> 0 \<le> b \<Longrightarrow> 0 \<le> m \<Longrightarrow> 0 \<le> (60 * of_int a + of_int b / 100 + m) / (60 :: rat)"
  by simp

lemma signed_near:
  assumes "v \<le> \<bar>z\<bar> + e" and "\<bar>z\<bar> < v + r" and "0 \<le> v" and "e < (r :: rat)"
  shows "\<bar>(if z < 0 then - v else v) - z\<bar> < r \<and> \<bar>if z < 0 then - v else v\<bar> \<le> \<bar>z\<bar> + e"
proof (cases "z < 0")
  case True
  then show ?thesis using assms by (simp add: abs_less_iff)
next
  case False
  then show ?thesis using assms by (simp add: abs_less_iff)
qed

lemma axis_value_nonneg:
  "0 \<le> (60 * of_int (uint (axis_deg x)) + of_int (uint (axis_hund x)) / 100 + dao_minutes dao (axis_rem x)) / (60 :: rat)"
proof (rule minutes_nonneg)
  have "0 \<le> base91_value r" for r by (simp add: base91_value_def)
  moreover have "0 \<le> (of_int (uint w) :: rat)" for w :: u8 using uint_ge_0 [of w] by (simp only: of_int_0_le_iff)
  ultimately show "0 \<le> dao_minutes dao (axis_rem x)" by (cases dao) (simp_all only: dao_minutes.simps; simp)+
qed (rule uint_ge_0)+

lemma resolution_bound: "1 / 10 ^ 9 < resolution dao"
  by (cases dao) simp_all

lemma beacon_position_read:
  assumes "loc_lat l = Some lat" and "loc_lon l = Some lon" and "loc_alt l = Some alt"
    and "coord 90 lat" and "coord 180 lon"
    and "\<not> fp_le alt (Fin 0)" and "\<not> fp_eq lat (Fin 0)" and "\<not> fp_eq lon (Fin 0)"
  shows "\<exists>la lo ext y x. positpacket now l cs name symb ov dao
      = Inr (cs @ ''>APZJD1,TCPIP*:/'' @ hms now @ ''h'' @ la @ overlay_string ov symb @ lo
          @ symbol_string symb @ ''/A='' @ show_pad0_fixed 6 0 alt @ name @ ext)
    \<and> length la = 8 \<and> length lo = 9 \<and> length ext = (if dao = Dao_Off then 0 else 5)
    \<and> read_position la lo ext = Some (Some y, Some x)
    \<and> \<bar>y - fval lat\<bar> < resolution dao \<and> \<bar>y\<bar> \<le> \<bar>fval lat\<bar> + 1 / 10 ^ 9
    \<and> \<bar>x - fval lon\<bar> < resolution dao \<and> \<bar>x\<bar> \<le> \<bar>fval lon\<bar> + 1 / 10 ^ 9"
proof -
  let ?ns = "if fp_le (Fin 0) lat then CHR ''N'' else CHR ''S''"
  let ?ew = "if fp_le (Fin 0) lon then CHR ''E'' else CHR ''W''"
  let ?v = "\<lambda>x. (60 * of_int (uint (axis_deg x)) + of_int (uint (axis_hund x)) / 100 + dao_minutes dao (axis_rem x)) / 60"
  have c: "coord 180 lat" "is_fin lat" "is_fin lon" using assms(4,5) by (auto simp: coord_def)
  have sgn: "fp_le (Fin 0) x \<longleftrightarrow> 0 \<le> fval x" if "is_fin x" for x
    using that by (cases x) (auto simp: fp_le_def)
  have l2: "length (show_pad0 2 (uint (axis_deg lat))) = 2"
    using length_lat_string [OF assms(4), of "CHR ''N''"] length_axis_tail [OF c(1)] by (simp add: axis_string_def)
  have l3: "length (show_pad0 3 (uint (axis_deg lon))) = 3"
    using length_lon_string [OF assms(5), of "CHR ''E''"] length_axis_tail [OF assms(5)] by (simp add: axis_string_def)
  define y where "y = (if fval lat < 0 then - ?v lat else ?v lat)"
  define x where "x = (if fval lon < 0 then - ?v lon else ?v lon)"
  have "read_position (axis_string 2 lat ?ns) (axis_string 3 lon ?ew) (dao_string dao (axis_rem lat) (axis_rem lon))
      = Some (Some y, Some x)"
    using read_axis_string [OF c(1) l2] read_axis_string [OF assms(5) l3] read_dao_string [OF c(1) assms(5), of dao]
    by (simp add: read_position_def read_direction_def sgn [OF c(2)] sgn [OF c(3)] y_def x_def)
  moreover have near: "\<bar>(if fval z < 0 then - ?v z else ?v z) - fval z\<bar> < resolution dao
      \<and> \<bar>if fval z < 0 then - ?v z else ?v z\<bar> \<le> \<bar>fval z\<bar> + 1 / 10 ^ 9" if "coord 180 z" for z
    using axis_reads_back [OF that, of dao] axis_value_nonneg [of z dao] resolution_bound [of dao]
    by (intro signed_near) blast+
  moreover have "positpacket now l cs name symb ov dao
      = Inr (cs @ ''>APZJD1,TCPIP*:/'' @ hms now @ ''h'' @ axis_string 2 lat ?ns @ overlay_string ov symb
          @ axis_string 3 lon ?ew @ symbol_string symb @ ''/A='' @ show_pad0_fixed 6 0 alt @ name
          @ dao_string dao (axis_rem lat) (axis_rem lon))"
    using assms by (simp add: positpacket_def tocall_def)
  moreover have "length (dao_string dao (axis_rem lat) (axis_rem lon)) = (if dao = Dao_Off then 0 else 5)"
    using length_dao_string [OF c(1) assms(5)] .
  ultimately show ?thesis
    using length_lat_string [OF assms(4)] length_lon_string [OF assms(5)] near [OF c(1)] near [OF assms(5)]
    unfolding y_def [symmetric] x_def [symmetric] by blast
qed

section \<open>Properties\<close>

text \<open>
  C8. A position with a latitude of at most 90 and a longitude of at most 180
  degrees, neither of them zero, and an altitude above zero gives a beacon whose fields have their
  fixed widths and from whose text a receiver reads the position back: on the right side of the
  equator and of the meridian, less than the resolution of the mode away (a hundredth of a minute,
  a thousandth of one, or a 9100th), and, but for a billionth of a degree, never beyond it.
\<close>

theorem beacon_reads_back:
  assumes "loc_lat l = Some lat" and "loc_lon l = Some lon" and "loc_alt l = Some alt"
    and "coord 90 lat" and "coord 180 lon"
    and "\<not> fp_le alt (Fin 0)" and "\<not> fp_eq lat (Fin 0)" and "\<not> fp_eq lon (Fin 0)"
  shows "\<exists>la lo ext y x. positpacket now l cs name symb ov dao
      = Inr (cs @ ''>APZJD1,TCPIP*:/'' @ hms now @ ''h'' @ la @ overlay_string ov symb @ lo
          @ symbol_string symb @ ''/A='' @ show_pad0_fixed 6 0 alt @ name @ ext)
    \<and> length la = 8 \<and> length lo = 9 \<and> length ext = (if dao = Dao_Off then 0 else 5)
    \<and> read_position la lo ext = Some (Some y, Some x)
    \<and> \<bar>y - fval lat\<bar> < resolution dao \<and> \<bar>y\<bar> \<le> \<bar>fval lat\<bar> + 1 / 10 ^ 9
    \<and> \<bar>x - fval lon\<bar> < resolution dao \<and> \<bar>x\<bar> \<le> \<bar>fval lon\<bar> + 1 / 10 ^ 9"
  by (rule beacon_position_read [OF assms])

text \<open>A sample report: 39 degrees north, 104 degrees west, in base 91.\<close>

theorem beacon_reads_back_witness:
  "\<exists>la lo ext y x. positpacket 0 \<lparr>loc_lat = Some (Fin (79 / 2)), loc_lon = Some (Fin (- 104)), loc_alt = Some (Fin 5280),
        loc_source = Src_Config\<rparr> ''N0CALL'' ''igate'' None None Dao_Base91
      = Inr (''N0CALL>APZJD1,TCPIP*:/000000h'' @ la @ ''/'' @ lo @ ''0/A=005280igate'' @ ext)
    \<and> read_position la lo ext = Some (Some y, Some x) \<and> 394999 / 10000 < y \<and> x < - 10399999 / 100000"
proof -
  let ?l = "\<lparr>loc_lat = Some (Fin (79 / 2)), loc_lon = Some (Fin (- 104)), loc_alt = Some (Fin 5280),
    loc_source = Src_Config\<rparr>"
  have alt: "show_pad0_fixed 6 0 (Fin 5280) = ''005280''"
    by (simp add: show_pad0_fixed_def show_fixed_abs_def pad_left_def round_even_def numeral_eq_Suc fp_eval)
  have t: "hms 0 = ''000000''"
    by (simp add: hms_def timestamp_def show_pad0_def pad_left_def show_dec_small digit_char_def Let_def)
  obtain la lo ext y x where r: "positpacket 0 ?l ''N0CALL'' ''igate'' None None Dao_Base91
      = Inr (''N0CALL'' @ ''>APZJD1,TCPIP*:/'' @ hms 0 @ ''h'' @ la @ overlay_string None None @ lo
          @ symbol_string None @ ''/A='' @ show_pad0_fixed 6 0 (Fin 5280) @ ''igate'' @ ext)"
    "read_position la lo ext = Some (Some y, Some x)"
    "\<bar>y - 79 / 2\<bar> < resolution Dao_Base91" "\<bar>x + 104\<bar> < resolution Dao_Base91"
    using beacon_reads_back [of ?l "Fin (79 / 2)" "Fin (- 104)" "Fin 5280" 0 "''N0CALL''" "''igate''" None None Dao_Base91]
    by (auto simp: coord_def fp_le_def fp_eq_def)
  have "394999 / 10000 < y" "x < - 10399999 / 100000" using r(3,4) unfolding resolution.simps abs_less_iff by simp_all
  then show ?thesis using r(1,2)
    by (intro exI [of _ la] exI [of _ lo] exI [of _ ext] exI [of _ y] exI [of _ x])
      (simp add: alt t overlay_string_def symbol_string_def)
qed

text \<open>
  A beacon is refused, with an error and no text, exactly when a coordinate
  or the altitude is missing, the altitude is not above zero, or a coordinate is zero.
\<close>

theorem beacon_refused_iff:
  "(\<exists>e. positpacket now l cs name symb ov dao = Inl e) \<longleftrightarrow>
     loc_alt l = None \<or> loc_lat l = None \<or> loc_lon l = None
     \<or> fp_le (the (loc_alt l)) (Fin 0) \<or> fp_eq (the (loc_lat l)) (Fin 0) \<or> fp_eq (the (loc_lon l)) (Fin 0)"
  by (cases "loc_alt l"; cases "loc_lat l"; cases "loc_lon l") (simp_all add: positpacket_def)

end
