(* ===== verification/Telemetry_Report.thy ===== *)
theory Telemetry_Report
  imports Position_Beacon
begin

text \<open>
  APRS telemetry (last part of \<open>src/igate.rs\<close>): the quadratic coefficients a value is sent
  with, the five information strings of a report, and the legacy sequence file. The lemmas say
  what a receiver computes from the coefficients: a counter exactly, a percentage to within a
  millionth.
\<close>

section \<open>Quadratic coefficients\<close>

record aprs_quadratic =
  q_a :: f64
  q_b :: f64
  q_c :: f64
  q_x :: u32

definition six_places :: "f64 \<Rightarrow> f64" where
  "six_places v = fp_div B64 (fp_round (fp_mul B64 v (Fin 1000000))) (Fin 1000000)"

definition quadratic_small :: "f64 \<Rightarrow> aprs_quadratic" where
  "quadratic_small v = (let x = (if fp_le (Fin 0) v then fp_floor v else fp_ceil v) in
     \<lparr> q_a = Fin 0, q_b = Fin 1, q_c = six_places (fp_sub B64 v x), q_x = fp_to_u32 x \<rparr>)"

definition quadratic_large :: "(f64 \<Rightarrow> f64) \<Rightarrow> f64 \<Rightarrow> aprs_quadratic" where
  "quadratic_large rounding v =
     (let x = Fin 128;
          a = rounding (fp_div B64 v (fp_mul B64 x x));
          a_remainder = fp_sub B64 v (fp_mul B64 (fp_mul B64 a x) x);
          b = rounding (fp_div B64 a_remainder x);
          b_remainder = fp_sub B64 a_remainder (fp_mul B64 b x)
      in \<lparr> q_a = six_places a, q_b = six_places b, q_c = six_places b_remainder,
           q_x = fp_to_u32 x \<rparr>)"

definition quadratic_new :: "f64 \<Rightarrow> aprs_quadratic" where
  "quadratic_new v =
     (if fp_le (Fin (- 255)) v \<and> fp_le v (Fin 255) then quadratic_small v
      else if fp_lt (Fin 0) v then quadratic_large fp_floor v
      else quadratic_large fp_ceil v)"

section \<open>The report\<close>

record analog_item =
  ai_equation :: aprs_quadratic
  ai_label :: string
  ai_units :: string

record telemetry =
  tl_items :: "analog_item list"
  tl_name :: string
  tl_sequence :: u32

text \<open>The loop over the items: \<open>i\<close> counts from 1, and the four strings grow.\<close>

definition item_sep :: "nat \<Rightarrow> string" where
  "item_sep i = (if i = 1 then ''.'' else '','')"

fun telemetry_loop :: "nat \<Rightarrow> analog_item list \<Rightarrow> string \<times> string \<times> string \<times> string
    \<Rightarrow> nat \<times> string \<times> string \<times> string \<times> string" where
  "telemetry_loop i [] s = (i, s)"
| "telemetry_loop i (item # rest) (t, e, p, u) =
     (if 5 < i then (i, t, e, p, u)
      else let q = ai_equation item in telemetry_loop (i + 1) rest
        (t @ '','' @ show_pad0 3 (uint (q_x q)),
         e @ item_sep i @ fp_display B64 (q_a q) @ '','' @ fp_display B64 (q_b q) @ '','' @ fp_display B64 (q_c q),
         p @ item_sep i @ ai_label item,
         u @ item_sep i @ ai_units item))"

definition to_aprs :: "telemetry \<Rightarrow> string \<Rightarrow> string list result" where
  "to_aprs t callsign =
     (if tl_items t = [] then Inl (Validation ''No telemetry analog items defined'')
      else let head = '':'' @ pad_right 9 callsign;
               bits = head @ '':BITS.00000000,'' @ tl_name t;
               (i, telem, eqn, parm, unt) = telemetry_loop 1 (tl_items t)
                 (''T#'' @ show_dec (uint (tl_sequence t)), head @ '':EQNS'', head @ '':PARM'', head @ '':UNIT'');
               telem = telem @ concat (replicate (5 - i) '',000'') @ '',00000000,'' @ tl_name t;
               eqn = eqn @ concat (replicate (5 - i) '',0,0,0'')
           in Inr [telem, eqn, parm, unt, bits])"

section \<open>The legacy sequence file\<close>

text \<open>
  \<open>opn\<close> opens and reads the file, \<open>create\<close> creates it with the given contents, and \<open>reopn\<close>
  opens and reads it after that; \<open>int_err\<close> is the display form of the standard library's
  integer-parsing error.
\<close>

definition first_line :: "string \<Rightarrow> string option" where
  "first_line s = (if s = [] then None
     else let l = takeWhile (\<lambda>c. c \<noteq> CHR 0x0A) s in
       Some (if l \<noteq> [] \<and> last l = CHR 0x0D \<and> CHR 0x0A \<in> set s then butlast l else l))"

definition parse_sequence :: "(string \<Rightarrow> string) \<Rightarrow> string \<Rightarrow> string \<Rightarrow> int result" where
  "parse_sequence int_err filename s = (case first_line s of
     None \<Rightarrow> Inl (Parse (''Telemetry file '' @ filename @ '' is empty''))
   | Some l \<Rightarrow> (case parse_u32 (str_trim l) of
       Some n \<Rightarrow> Inr n | None \<Rightarrow> Inl (from_parse_int (int_err (str_trim l)))))"

definition create_telemetry_file :: "(string \<Rightarrow> bytes \<Rightarrow> io_error option) \<Rightarrow> string \<Rightarrow> int result" where
  "create_telemetry_file create filename = (case create filename (''0'' @ [CHR 0x0A]) of
     Some e \<Rightarrow> Inl (from_io e) | None \<Rightarrow> Inr 0)"

definition read_telemetry_file :: "(string \<Rightarrow> string) \<Rightarrow> (string \<Rightarrow> io_error + string) \<Rightarrow> (string \<Rightarrow> bytes \<Rightarrow> io_error option)
    \<Rightarrow> (string \<Rightarrow> io_error + string) \<Rightarrow> string \<Rightarrow> int result" where
  "read_telemetry_file int_err opn create reopn filename = (case opn filename of
     Inr s \<Rightarrow> parse_sequence int_err filename s
   | Inl e \<Rightarrow> (if io_kind_of e = NotFound
       then bind_result (create_telemetry_file create filename)
              (\<lambda>_. bind_result (map_error from_io (reopn filename)) (parse_sequence int_err filename))
       else Inl (from_io e)))"

section \<open>Whole numbers in floating point\<close>

abbreviation fpi :: "int \<Rightarrow> f64" where
  "fpi n \<equiv> Fin (of_int n)"

lemma rnd_fpi: "0 \<le> n \<Longrightarrow> n \<le> 2 ^ 52 \<Longrightarrow> rnd B64 False (of_int n) = fpi n"
  using rnd_Fin [of B64 "of_int n" False] on_grid_B64_int [of n] int_below_emax [of n]
  by (cases "n = 0") simp_all

lemma fp_mul_fpi: "0 \<le> m \<Longrightarrow> 0 \<le> n \<Longrightarrow> m * n \<le> 2 ^ 52 \<Longrightarrow> fp_mul B64 (fpi m) (fpi n) = fpi (m * n)"
  using rnd_fpi [of "m * n"] by (simp add: fp_mul_def)

lemma fp_sub_fpi:
  assumes "0 \<le> n" and "n \<le> m" and "m \<le> 2 ^ 52"
  shows "fp_sub B64 (fpi m) (fpi n) = fpi (m - n)"
proof -
  have "fp_sub B64 (fpi m) (fpi n) = rnd B64 False (of_int (m - n))"
    by (cases "n = 0") (simp_all add: fp_sub_def fp_add_def)
  also have "\<dots> = fpi (m - n)" using assms by (intro rnd_fpi) simp_all
  finally show ?thesis .
qed

lemma fp_floor_fpi [simp]: "fp_floor (fpi n) = fpi n"
  by (simp add: fp_floor_def)

lemma fp_floor_quot: "0 \<le> m \<Longrightarrow> 0 < d \<Longrightarrow> fp_floor (Fin (of_int m / of_int d)) = fpi (m div d)"
proof -
  assume a: "0 \<le> m" "0 < d"
  then have "\<not> (of_int m / of_int d < (0::rat))" by (simp add: not_less)
  moreover have "\<lfloor>(of_int m :: rat) / of_int d\<rfloor> = m div d" by (rule floor_divide_of_int_eq)
  ultimately show ?thesis by (simp add: fp_floor_def)
qed

lemma fp_round_fpi [simp]: "0 \<le> n \<Longrightarrow> fp_round (fpi n) = fpi n"
proof -
  assume "0 \<le> n"
  moreover have "\<lfloor>(of_int n :: rat) + 1 / 2\<rfloor> = n" by linarith
  ultimately show ?thesis by (simp add: fp_round_def round_away_def)
qed

lemma six_places_fpi: "0 \<le> n \<Longrightarrow> n \<le> 10 ^ 9 \<Longrightarrow> six_places (fpi n) = fpi n"
proof -
  assume n: "0 \<le> n" "n \<le> 10 ^ 9"
  have m: "fp_mul B64 (fpi n) (fpi 1000000) = fpi (n * 1000000)"
    using n by (intro fp_mul_fpi) simp_all
  have "six_places (fpi n) = fp_div B64 (fpi (n * 1000000)) (fpi 1000000)"
    using m fp_round_fpi [of "n * 1000000"] n(1) by (simp add: six_places_def)
  also have "\<dots> = rnd B64 False (of_int n)" using n(1) by (simp add: fp_div_def)
  also have "\<dots> = fpi n" using n by (intro rnd_fpi) simp_all
  finally show ?thesis .
qed

text \<open>Division by a power of two is exact.\<close>

lemma fp_div_pow2:
  assumes "0 \<le> m" and "m < 2 ^ 52" and "k \<le> 52"
  shows "fp_div B64 (fpi m) (fpi (2 ^ k)) = Fin (of_int m / of_int (2 ^ k))"
proof (cases "m = 0")
  case False
  have tp: "two_pow (- int k) = 1 / 2 ^ k" by (simp add: two_pow_def)
  have g: "on_grid B64 (of_int m / 2 ^ k)"
    by (rule on_gridI [of _ m "- int k"]) (use assms tp in simp_all)
  have "\<bar>of_int m / 2 ^ k :: rat\<bar> \<le> of_int m"
    using assms(1) by (simp add: divide_le_eq mult_left_le one_le_power mult.commute mult_le_cancel_left1)
  moreover have "\<bar>rat_of_int m\<bar> < two_pow (emax B64)" using assms by (intro int_below_emax) simp
  ultimately have "\<bar>of_int m / 2 ^ k :: rat\<bar> < two_pow (emax B64)" by linarith
  from rnd_Fin [OF g this] False have "rnd B64 s (of_int m / 2 ^ k) = Fin (of_int m / 2 ^ k)" for s
    by simp
  then show ?thesis using assms(1) by (simp add: fp_div_def)
qed (simp add: fp_div_def)

lemma fp_to_u32_fpi: "0 \<le> n \<Longrightarrow> n < 2 ^ 32 \<Longrightarrow> uint (fp_to_u32 (fpi n)) = n"
  by (simp add: fp_to_u32_def uint_word_of_int)

section \<open>What a receiver computes\<close>

text \<open>The value of a report: \<open>a * x^2 + b * x + c\<close>.\<close>

definition quadratic_value :: "aprs_quadratic \<Rightarrow> rat" where
  "quadratic_value q = fval (q_a q) * of_int (uint (q_x q)) ^ 2 + fval (q_b q) * of_int (uint (q_x q)) + fval (q_c q)"

lemma quadratic_small_count:
  assumes "0 \<le> n" and "n \<le> 255"
  shows "quadratic_small (fpi n) = \<lparr> q_a = Fin 0, q_b = Fin 1, q_c = Fin 0, q_x = word_of_int n \<rparr>"
proof -
  have s: "fp_sub B64 (fpi n) (fpi n) = fpi 0" using fp_sub_fpi [of n n] assms by simp
  have z: "six_places (fpi 0) = fpi 0" by (rule six_places_fpi) simp_all
  have "fp_to_u32 (fpi n) = word_of_int n" using assms by (simp add: fp_to_u32_def)
  then show ?thesis using assms s z by (simp add: quadratic_small_def fp_le_def)
qed

lemma quadratic_large_count:
  assumes "0 \<le> n" and "n < 2 ^ 32"
  shows "quadratic_large fp_floor (fpi n) = \<lparr> q_a = fpi (n div 16384), q_b = fpi (n mod 16384 div 128),
     q_c = fpi (n mod 128), q_x = 128 \<rparr>"
proof -
  define a where "a = n div 16384"
  define r where "r = n mod 16384"
  have n: "n = a * 16384 + r" by (simp add: a_def r_def)
  have a: "0 \<le> a" "a \<le> 262144" using assms by (auto simp: a_def)
  have r: "0 \<le> r" "r < 16384" by (simp_all add: r_def)
  have x: "fp_mul B64 (fpi 128) (fpi 128) = fpi 16384" using fp_mul_fpi [of 128 128] by simp
  have d1: "fp_div B64 (fpi n) (fpi 16384) = Fin (of_int n / of_int 16384)"
    using fp_div_pow2 [of n 14] assms by simp
  have e1: "fp_floor (Fin (of_int n / of_int 16384)) = fpi a"
    using fp_floor_quot [of n 16384] assms by (simp add: a_def)
  have m1: "fp_mul B64 (fpi a) (fpi 128) = fpi (a * 128)" using a by (intro fp_mul_fpi) simp_all
  have m2: "fp_mul B64 (fpi (a * 128)) (fpi 128) = fpi (a * 128 * 128)"
    using a by (intro fp_mul_fpi) simp_all
  have s1: "fp_sub B64 (fpi n) (fpi (a * 128 * 128)) = fpi r"
    using fp_sub_fpi [of "a * 128 * 128" n] n a r assms by simp
  have d2: "fp_div B64 (fpi r) (fpi 128) = Fin (of_int r / of_int 128)"
    using fp_div_pow2 [of r 7] r by simp
  have e2: "fp_floor (Fin (of_int r / of_int 128)) = fpi (r div 128)"
    using fp_floor_quot [of r 128] r by simp
  have rd: "0 \<le> r div 128" "r div 128 < 128" using r by auto
  have m3: "fp_mul B64 (fpi (r div 128)) (fpi 128) = fpi (r div 128 * 128)"
    using rd by (intro fp_mul_fpi) simp_all
  have s2: "fp_sub B64 (fpi r) (fpi (r div 128 * 128)) = fpi (r mod 128)"
    using fp_sub_fpi [of "r div 128 * 128" r] r by (simp add: minus_div_mult_eq_mod)
  have p: "six_places (fpi a) = fpi a" "six_places (fpi (r div 128)) = fpi (r div 128)"
    "six_places (fpi (r mod 128)) = fpi (r mod 128)"
    using a rd pos_mod_bound [of 128 r] by (intro six_places_fpi; simp)+
  have q: "r mod 128 = n mod 128" by (simp add: r_def mod_mod_cancel)
  have 8: "fp_to_u32 (fpi 128) = 128" by (simp add: fp_to_u32_def trunc_rat_def)
  have "quadratic_large fp_floor (fpi n) = \<lparr> q_a = fpi a, q_b = fpi (r div 128),
     q_c = fpi (r mod 128), q_x = 128 \<rparr>"
    using x d1 e1 m1 m2 s1 d2 e2 m3 s2 p 8 by (simp add: quadratic_large_def Let_def)
  then show ?thesis by (simp add: q) (simp add: a_def r_def)
qed

lemma quadratic_new_small: "0 \<le> n \<Longrightarrow> n \<le> 255 \<Longrightarrow> quadratic_new (fpi n) = quadratic_small (fpi n)"
  by (simp add: quadratic_new_def fp_le_def)

lemma quadratic_new_large: "255 < n \<Longrightarrow> quadratic_new (fpi n) = quadratic_large fp_floor (fpi n)"
  by (simp add: quadratic_new_def fp_le_def fp_lt_def)

lemma quadratic_count_value:
  assumes "0 \<le> n" and "n < 2 ^ 32"
  shows "quadratic_value (quadratic_new (fpi n)) = of_int n"
proof (cases "n \<le> 255")
  case True
  with quadratic_new_small assms(1) have "quadratic_new (fpi n) = quadratic_small (fpi n)" by blast
  then show ?thesis using quadratic_small_count [OF assms(1) True] True assms(1)
    by (simp add: quadratic_value_def uint_word_of_int)
next
  case False
  then have "quadratic_new (fpi n) = quadratic_large fp_floor (fpi n)"
    by (intro quadratic_new_large) simp
  moreover have "n mod 16384 mod 128 = n mod 128" by (simp add: mod_mod_cancel)
  then have "(n div 16384) * 16384 + (n mod 16384 div 128) * 128 + n mod 128 = n"
    using div_mult_mod_eq [of n 16384] div_mult_mod_eq [of "n mod 16384" 128] by linarith
  then have "(of_int (n div 16384) :: rat) * 16384 + of_int (n mod 16384 div 128) * 128 + of_int (n mod 128) = of_int n"
    by (metis (mono_tags, lifting) of_int_add of_int_mult of_int_numeral)
  ultimately show ?thesis
    using quadratic_large_count [OF assms] by (simp add: quadratic_value_def)
qed

text \<open>A value between 0 and 255, a percentage for instance, keeps six decimal places.\<close>

lemma six_places_err:
  assumes "is_fin v" and "0 \<le> fval v" and "fval v \<le> 1"
  shows "is_fin (six_places v) \<and> \<bar>fval (six_places v) - fval v\<bar> \<le> 6 / 10000000"
proof -
  obtain s where p: "fp_mul B64 v (Fin 1000000) = rnd B64 s (fval v * 1000000)"
    using fp_mul_fin [OF assms(1), of "Fin 1000000" B64] by auto
  define q where "q = rnd B64 s (fval v * 1000000)"
  have qb: "is_fin q" "fval q = rnd_val B64 (fval v * 1000000)" "0 \<le> fval q" "fval q \<le> 1000000"
    using rnd_int_between [of 0 "fval v * 1000000" 1000000 s] assms unfolding q_def by auto
  have "\<bar>fval v * 1000000\<bar> < two_pow 20" using assms by (simp add: two_pow_def)
  from rnd_val_err [OF this, of B64] qb(2)
  have e1: "\<bar>fval q - fval v * 1000000\<bar> \<le> two_pow (- 34)" by simp
  define n where "n = \<lfloor>fval q + 1 / 2\<rfloor>"
  have nb: "0 \<le> n" "n \<le> 1000000" using qb(3,4) unfolding n_def by linarith+
  have e2: "\<bar>of_int n - fval q\<bar> \<le> 1 / 2" unfolding n_def abs_le_iff by linarith
  have r: "is_fin (fp_round q) \<and> fval (fp_round q) = of_int n"
  proof -
    have "is_fin (fp_integral round_away q) \<and> fval (fp_integral round_away q) = of_int (round_away (fval q))"
      by (rule fp_integral_fin [OF qb(1)]) (simp add: round_away_def floor_one_div)
    moreover have "round_away (fval q) = n" using qb(3) by (simp add: round_away_def n_def)
    ultimately show ?thesis by (simp add: fp_round_def)
  qed
  obtain t where d: "six_places v = rnd B64 t (of_int n / 1000000)"
    using fp_div_fin [of "fp_round q" "Fin 1000000" B64] r p by (auto simp: six_places_def q_def)
  have nn: "0 \<le> (of_int n :: rat) / 1000000" "(of_int n :: rat) / 1000000 \<le> 1" using nb by simp_all
  have db: "is_fin (six_places v)" "fval (six_places v) = rnd_val B64 (of_int n / 1000000)"
    using rnd_int_between [of 0 "of_int n / 1000000" 1 t] nn unfolding d by auto
  have "\<bar>of_int n / 1000000\<bar> < two_pow 1" using nn by (simp add: two_pow_def)
  from rnd_val_err [OF this, of B64] db(2)
  have e3: "\<bar>fval (six_places v) - of_int n / 1000000\<bar> \<le> two_pow (- 53)" by simp
  have tp: "two_pow (- 34) \<le> 1 / 1000000000" "two_pow (- 53) \<le> 1 / 1000000000000"
    by (simp_all add: two_pow_def)
  have "\<bar>fval (six_places v) - fval v\<bar> \<le> 6 / 10000000"
    using e1 e2 e3 tp unfolding abs_le_iff by (simp add: field_simps)
  with db(1) show ?thesis by blast
qed

lemma quadratic_small_err:
  assumes "is_fin v" and "0 \<le> fval v" and "fval v \<le> 255"
  shows "\<bar>quadratic_value (quadratic_new v) - fval v\<bar> \<le> 7 / 10000000"
proof -
  define n where "n = \<lfloor>fval v\<rfloor>"
  have n: "0 \<le> n" "n \<le> 255" "of_int n \<le> fval v" "fval v < of_int n + 1"
    using assms(2,3) unfolding n_def by linarith+
  have small: "quadratic_new v = quadratic_small v" and pos: "fp_le (Fin 0) v"
    using assms by (cases v; simp add: quadratic_new_def fp_le_def)+
  have f: "is_fin (fp_floor v)" "fval (fp_floor v) = of_int n"
    using fp_floor_fin [OF assms(1)] by (simp_all add: n_def)
  obtain s where d: "fp_sub B64 v (fp_floor v) = rnd B64 s (fval v - of_int n)"
    using fp_sub_fin [OF assms(1) f(1), of B64] f(2) by auto
  have db: "is_fin (rnd B64 s (fval v - of_int n))"
    "fval (rnd B64 s (fval v - of_int n)) = rnd_val B64 (fval v - of_int n)"
    "0 \<le> fval (rnd B64 s (fval v - of_int n))" "fval (rnd B64 s (fval v - of_int n)) \<le> 1"
    using rnd_int_between [of 0 "fval v - of_int n" 1 s] n by auto
  have "\<bar>fval v - of_int n\<bar> < two_pow 1" using n by (simp add: two_pow_def)
  from rnd_val_err [OF this, of B64] db(2)
  have e1: "\<bar>fval (rnd B64 s (fval v - of_int n)) - (fval v - of_int n)\<bar> \<le> two_pow (- 53)" by simp
  have e2: "\<bar>fval (six_places (rnd B64 s (fval v - of_int n))) - fval (rnd B64 s (fval v - of_int n))\<bar>
      \<le> 6 / 10000000"
    using six_places_err [OF db(1,3,4)] by blast
  have x: "uint (fp_to_u32 (fp_floor v)) = n"
    using n by (simp add: fp_to_u32_def fp_to_int_fin [OF f(1)] f(2) uint_word_of_int)
  have q: "quadratic_value (quadratic_new v) = of_int n + fval (six_places (rnd B64 s (fval v - of_int n)))"
    using x by (simp add: small quadratic_small_def pos d quadratic_value_def Let_def flip: x)
  have "two_pow (- 53) \<le> 1 / 1000000000000" by (simp add: two_pow_def)
  then show ?thesis using e1 e2 unfolding q abs_le_iff by linarith
qed

section \<open>The strings of a report\<close>

text \<open>The value fields the loop adds for the first five items.\<close>

definition value_field :: "analog_item \<Rightarrow> string" where
  "value_field a = '','' @ show_pad0 3 (uint (q_x (ai_equation a)))"

lemma telemetry_loop_values:
  assumes "i \<le> 6"
  shows "fst (telemetry_loop i xs (t, e, p, u)) = i + min (length xs) (6 - i)
    \<and> fst (snd (telemetry_loop i xs (t, e, p, u))) = t @ concat (map value_field (take (6 - i) xs))"
  using assms
proof (induction xs arbitrary: i t e p u)
  case (Cons a xs)
  show ?case
  proof (cases "5 < i")
    case True
    with Cons.prems show ?thesis by simp
  next
    case False
    then have "Suc (6 - Suc i) = 6 - i" by simp
    with False Cons.IH [of "Suc i"] show ?thesis
      by (auto simp: value_field_def Let_def take_Cons' min_def)
  qed
qed simp

lemma telemetry_loop_labels:
  assumes "1 \<le> i" and "i \<le> 6"
  shows "fst (snd (snd (snd (telemetry_loop i xs (t, e, p, u)))))
      = p @ concat (map (\<lambda>(k, a). item_sep k @ ai_label a) (zip [i..<6] xs))
    \<and> snd (snd (snd (snd (telemetry_loop i xs (t, e, p, u)))))
      = u @ concat (map (\<lambda>(k, a). item_sep k @ ai_units a) (zip [i..<6] xs))"
  using assms
proof (induction xs arbitrary: i t e p u)
  case (Cons a xs)
  show ?case
  proof (cases "5 < i")
    case True
    with Cons.prems show ?thesis by simp
  next
    case False
    then have "[i..<6] = i # [Suc i..<6]" by (simp add: upt_rec)
    with False Cons.IH [of "Suc i"] show ?thesis by (simp add: Let_def)
  qed
qed simp

lemma concat_seps: "concat (map (\<lambda>(k, a). item_sep k @ f a) (zip [1..<6] (x # xs)))
    = ''.'' @ f x @ concat (map (\<lambda>a. '','' @ f a) (take 4 xs))"
proof -
  have u: "[1..<6] = 1 # [2, 3, 4, 5::nat]" by (simp add: upt_rec)
  show ?thesis unfolding u
    by (cases xs; cases "tl xs"; cases "tl (tl xs)"; cases "tl (tl (tl xs))")
      (simp_all add: item_sep_def)
qed

text \<open>The strings of a report: values, labels and units in the same order.\<close>

lemma to_aprs_strings:
  fixes cs :: string
  assumes "tl_items t = a # rest"
  defines "items \<equiv> take 5 (tl_items t)"
  defines "head \<equiv> '':'' @ pad_right 9 cs"
  shows "\<exists>eqn. to_aprs t cs = Inr
     [''T#'' @ show_dec (uint (tl_sequence t)) @ concat (map value_field items)
        @ concat (replicate (4 - length items) '',000'') @ '',00000000,'' @ tl_name t,
      eqn,
      head @ '':PARM.'' @ ai_label a @ concat (map (\<lambda>b. '','' @ ai_label b) (tl items)),
      head @ '':UNIT.'' @ ai_units a @ concat (map (\<lambda>b. '','' @ ai_units b) (tl items)),
      head @ '':BITS.00000000,'' @ tl_name t]"
proof -
  let ?T = "''T#'' @ show_dec (uint (tl_sequence t))"
  let ?E = "head @ '':EQNS''" and ?P = "head @ '':PARM''" and ?U = "head @ '':UNIT''"
  obtain i tel e p u where r: "telemetry_loop 1 (tl_items t) (?T, ?E, ?P, ?U) = (i, tel, e, p, u)"
    by (cases "telemetry_loop 1 (tl_items t) (?T, ?E, ?P, ?U)") auto
  have v: "i = 1 + min (length (tl_items t)) 5" "tel = ?T @ concat (map value_field items)"
    using telemetry_loop_values [of 1 "tl_items t" ?T ?E ?P ?U, unfolded r] by (simp_all add: items_def)
  have l: "p = head @ '':PARM.'' @ ai_label a @ concat (map (\<lambda>b. '','' @ ai_label b) (tl items))"
    "u = head @ '':UNIT.'' @ ai_units a @ concat (map (\<lambda>b. '','' @ ai_units b) (tl items))"
    using telemetry_loop_labels [of 1 "tl_items t" ?T ?E ?P ?U, unfolded r] assms(1)
      concat_seps [of ai_label a rest] concat_seps [of ai_units a rest]
    by (simp_all add: items_def del: upt_Suc zip_Cons)
  have n: "5 - i = 4 - length items" using v(1) by (simp add: items_def)
  show ?thesis using r v(2) l n assms(1) by (simp add: to_aprs_def Let_def head_def del: telemetry_loop.simps)
qed

text \<open>
  With one to four items the padding stops one short of the five analog values of the format.
\<close>

lemma short_report_values:
  assumes "tl_items t \<noteq> []" and "length (tl_items t) < 5"
  shows "\<exists>s. unwrap_or [] (to_aprs t cs) = s # tl (unwrap_or [] (to_aprs t cs))
    \<and> s = ''T#'' @ show_dec (uint (tl_sequence t)) @ concat (map value_field (tl_items t))
        @ concat (replicate (4 - length (tl_items t)) '',000'') @ '',00000000,'' @ tl_name t"
proof -
  obtain a rest where "tl_items t = a # rest" using assms(1) by (cases "tl_items t") auto
  from to_aprs_strings [OF this, of cs] assms(2) show ?thesis by auto
qed

text \<open>A negative value between -255 and 0 loses its whole part in the unsigned field.\<close>

lemma negative_value_lost: "quadratic_value (quadratic_new (Fin (- 5))) = 0"
  by (simp add: quadratic_new_def quadratic_small_def quadratic_value_def six_places_def fp_eval)

section \<open>Properties\<close>

text \<open>
  Every 32-bit packet counter is encoded without loss: the quadratic a
  receiver evaluates, \<open>a x^2 + b x + c\<close>, gives the counter back exactly, and the analog value
  itself fits the format's byte.
\<close>

theorem telemetry_count_exact:
  "quadratic_value (quadratic_new (fp_of_int B64 (uint (w :: u32)))) = of_int (uint w)
   \<and> q_x (quadratic_new (fp_of_int B64 (uint w))) \<le> 255"
proof -
  have w: "0 \<le> uint w" "uint w < 2 ^ 32" using uint_bounded [of w] by simp_all
  have f: "fp_of_int B64 (uint w) = fpi (uint w)"
    unfolding fp_of_int_def by (rule rnd_fpi) (use w in simp_all)
  have "q_x (quadratic_new (fpi (uint w))) \<le> 255"
  proof (cases "uint w \<le> 255")
    case True
    from quadratic_new_small [OF w(1) True]
    have "quadratic_new (fpi (uint w)) = quadratic_small (fpi (uint w))" .
    moreover have "w \<le> 255" using True by (simp add: word_le_def)
    ultimately show ?thesis using quadratic_small_count [OF w(1) True]
      by (simp add: word_of_int_uint del: of_int_uint)
  next
    case False
    from quadratic_new_large [of "uint w"] False
    have "quadratic_new (fpi (uint w)) = quadratic_large fp_floor (fpi (uint w))" by linarith
    then show ?thesis using quadratic_large_count [OF w] by (simp del: of_int_uint)
  qed
  then show ?thesis using quadratic_count_value [OF w] by (simp only: f)
qed

text \<open>
  A value between 0 and 255, such as the two percentages of the report,
  is read back by a receiver to within a millionth.
\<close>

theorem telemetry_percent_error:
  assumes "is_fin v" and "0 \<le> fval v" and "fval v \<le> 255"
  shows "\<bar>quadratic_value (quadratic_new v) - fval v\<bar> < 1 / 10 ^ 6"
  using quadratic_small_err [OF assms] by (simp add: field_simps)

theorem telemetry_percent_error_witness:
  "\<bar>quadratic_value (quadratic_new (Fin (201 / 4))) - 201 / 4\<bar> < 1 / 10 ^ 6"
  using telemetry_percent_error [of "Fin (201 / 4)"] by simp

text \<open>
  A report of at least five items carries exactly the first five: the
  value line has the sequence number and five analog fields, and the label and unit lines name
  the same five in the same order.
\<close>

theorem telemetry_report_fields:
  assumes "tl_items t = [a, b, c, d, e] @ rest"
  shows "\<exists>eqn. to_aprs t cs = Inr
     [''T#'' @ show_dec (uint (tl_sequence t)) @ value_field a @ value_field b @ value_field c
        @ value_field d @ value_field e @ '',00000000,'' @ tl_name t,
      eqn,
      '':'' @ pad_right 9 cs @ '':PARM.'' @ join_with '','' (map ai_label [a, b, c, d, e]),
      '':'' @ pad_right 9 cs @ '':UNIT.'' @ join_with '','' (map ai_units [a, b, c, d, e]),
      '':'' @ pad_right 9 cs @ '':BITS.00000000,'' @ tl_name t]"
proof -
  have "tl_items t = a # (b # c # d # e # rest)" using assms by simp
  from to_aprs_strings [OF this, of cs] assms show ?thesis by simp
qed

definition sample_item :: "nat \<Rightarrow> analog_item" where
  "sample_item n = \<lparr> ai_equation = quadratic_new (Fin (of_nat n)), ai_label = ''Rx'', ai_units = ''Pkts'' \<rparr>"

theorem telemetry_report_fields_witness:
  "\<exists>tel eqn parm uni bits. to_aprs \<lparr> tl_items = map sample_item [1, 2, 3, 4, 5], tl_name = ''T'', tl_sequence = 7 \<rparr> ''N0CALL''
      = Inr [tel, eqn, parm, uni, bits] \<and> parm = '':'' @ pad_right 9 ''N0CALL'' @ '':PARM.Rx,Rx,Rx,Rx,Rx''"
  using telemetry_report_fields [of "\<lparr> tl_items = map sample_item [1, 2, 3, 4, 5], tl_name = ''T'', tl_sequence = 7 \<rparr>"
    "sample_item 1" "sample_item 2" "sample_item 3" "sample_item 4" "sample_item 5" "[]" "''N0CALL''"]
  by (fastforce simp: sample_item_def)

end
