(* ===== verification/Ordered_Map.thy ===== *)
theory Ordered_Map
  imports Rtp_Prelude
begin

text \<open>
  Maps iterated in key order, as Rust's \<open>BTreeMap\<close> and the tables of the statistics database
  are: the interface as a locale, with the lemmas a client needs, and a sorted association list
  that implements it.
\<close>

section \<open>The interface\<close>

locale sorted_map =
  fixes empty :: "'m"
    and lookup :: "'m \<Rightarrow> 'k::linorder \<Rightarrow> 'v option"
    and insert :: "'k \<Rightarrow> 'v \<Rightarrow> 'm \<Rightarrow> 'm"
    and remove :: "'k \<Rightarrow> 'm \<Rightarrow> 'm"
    and entries :: "'m \<Rightarrow> ('k \<times> 'v) list"
    and inv :: "'m \<Rightarrow> bool"
  assumes inv_empty: "inv empty"
    and inv_insert: "inv m \<Longrightarrow> inv (insert k v m)"
    and inv_remove: "inv m \<Longrightarrow> inv (remove k m)"
    and lookup_empty: "lookup empty k = None"
    and lookup_insert: "inv m \<Longrightarrow> lookup (insert k v m) j = (if j = k then Some v else lookup m j)"
    and lookup_remove: "inv m \<Longrightarrow> lookup (remove k m) j = (if j = k then None else lookup m j)"
    and entries_lookup: "inv m \<Longrightarrow> map_of (entries m) j = lookup m j"
    and entries_sorted: "inv m \<Longrightarrow> sorted_wrt (<) (map fst (entries m))"
begin

lemma entries_distinct: "inv m \<Longrightarrow> distinct (map fst (entries m))"
  using entries_sorted strict_sorted_iff by blast

lemma entries_iff: "inv m \<Longrightarrow> (k, v) \<in> set (entries m) \<longleftrightarrow> lookup m k = Some v"
  using entries_lookup [of m k] entries_distinct [of m] by (metis map_of_eq_Some_iff)

lemma keys_iff: "inv m \<Longrightarrow> k \<in> set (map fst (entries m)) \<longleftrightarrow> lookup m k \<noteq> None"
  using entries_lookup [of m k] map_of_eq_None_iff [of "entries m" k] by simp

lemma lookup_fold_insert:
  "inv m \<Longrightarrow> inv (fold (\<lambda>(k, v). insert k v) xs m)
    \<and> lookup (fold (\<lambda>(k, v). insert k v) xs m) j = (case map_of (rev xs) j of Some v \<Rightarrow> Some v | None \<Rightarrow> lookup m j)"
proof (induction xs arbitrary: m)
  case (Cons x xs)
  obtain k v where x: "x = (k, v)" by (cases x)
  from Cons.IH [of "insert k v m"] inv_insert [OF Cons.prems, of k v] lookup_insert [OF Cons.prems, of k v j]
  show ?case by (auto simp: x map_add_def split: option.split)
qed simp

lemma lookup_fold_remove:
  "inv m \<Longrightarrow> inv (fold remove ks m) \<and> lookup (fold remove ks m) j = (if j \<in> set ks then None else lookup m j)"
  by (induction ks arbitrary: m) (auto simp: inv_remove lookup_remove)

end

section \<open>Sorted association lists\<close>

fun om_insert :: "'k::linorder \<Rightarrow> 'v \<Rightarrow> ('k \<times> 'v) list \<Rightarrow> ('k \<times> 'v) list" where
  "om_insert k v [] = [(k, v)]"
| "om_insert k v ((j, w) # m) =
     (if k < j then (k, v) # (j, w) # m else if k = j then (k, v) # m else (j, w) # om_insert k v m)"

definition om_remove :: "'k::linorder \<Rightarrow> ('k \<times> 'v) list \<Rightarrow> ('k \<times> 'v) list" where
  "om_remove k m = filter (\<lambda>e. fst e \<noteq> k) m"

definition om_inv :: "('k::linorder \<times> 'v) list \<Rightarrow> bool" where
  "om_inv m = sorted_wrt (<) (map fst m)"

lemma om_inv_Cons: "om_inv (e # m) \<longleftrightarrow> (\<forall>x\<in>set m. fst e < fst x) \<and> om_inv m"
  by (auto simp: om_inv_def)

lemma set_om_insert: "set (om_insert k v m) \<subseteq> insert (k, v) (set m)"
  by (induction k v m rule: om_insert.induct) auto

lemma om_inv_insert: "om_inv m \<Longrightarrow> om_inv (om_insert k v m)"
proof (induction k v m rule: om_insert.induct)
  case (2 k v j w m)
  then show ?case using set_om_insert [of k v m] by (fastforce simp: om_inv_Cons)
qed (simp add: om_inv_def)

lemma om_lookup_insert: "om_inv m \<Longrightarrow> map_of (om_insert k v m) i = (if i = k then Some v else map_of m i)"
  by (induction k v m rule: om_insert.induct) (auto simp: om_inv_Cons)

lemma om_inv_filter: "om_inv m \<Longrightarrow> om_inv (filter P m)"
  by (induction m) (auto simp: om_inv_Cons om_inv_def)

lemma om_inv_remove: "om_inv m \<Longrightarrow> om_inv (om_remove k m)"
  unfolding om_remove_def by (rule om_inv_filter)

lemma om_lookup_remove: "map_of (om_remove k m) i = (if i = k then None else map_of m i)"
  by (induction m) (auto simp: om_remove_def)

interpretation om: sorted_map "[]" map_of om_insert om_remove "\<lambda>m. m" om_inv
  by unfold_locales
    (simp_all add: om_inv_insert om_inv_remove om_lookup_insert om_lookup_remove, simp_all add: om_inv_def)

text \<open>Two sorted lists with the same lookups are equal.\<close>

lemma om_ext:
  assumes "om_inv m" and "om_inv n" and "\<And>k. map_of m k = map_of n k"
  shows "m = n"
proof -
  have "set m = set n"
    using om.entries_iff [OF assms(1)] om.entries_iff [OF assms(2)] assms(3) by auto
  moreover have "distinct (map fst m)" "distinct (map fst n)" "sorted (map fst m)" "sorted (map fst n)"
    using assms(1,2) by (simp_all add: om_inv_def strict_sorted_iff)
  ultimately show ?thesis
    using map_sorted_distinct_set_unique [of fst m n] by (simp add: distinct_map)
qed

end
