(* ===== verification/Stat_History.thy ===== *)
theory Stat_History
  imports Ordered_Map App_Config
begin

text \<open>
  The rolling 24-hour history (\<open>src/history.rs\<close>): buckets of 15 seconds, merged from the two
  telemetry streams by a time key, pruned to a day, and shown oldest first.
\<close>

section \<open>Buckets\<close>

definition bucket_secs :: int where
  "bucket_secs = 15"

definition retention_secs :: int where
  "retention_secs = 24 * 60 * 60"

record stat_bucket =
  sb_ts :: int
  sb_total :: u32
  sb_direct :: u32
  sb_digipeated :: u32
  sb_errors :: u32
  sb_igated :: u32
  sb_dropped :: u32
  sb_rf_received :: u32
  sb_reconnects :: u32

type_synonym history_store = "(int \<times> stat_bucket) list"

definition history_new :: history_store where
  "history_new = []"

definition from_buckets :: "stat_bucket list \<Rightarrow> history_store" where
  "from_buckets bs = fold (\<lambda>(k, b). om_insert k b) (map (\<lambda>b. (sb_ts b, b)) bs) history_new"

definition bucket_key :: "int \<Rightarrow> int" where
  "bucket_key epoch_secs = epoch_secs - epoch_secs mod bucket_secs"

definition default_bucket :: "int \<Rightarrow> stat_bucket" where
  "default_bucket k = \<lparr> sb_ts = k, sb_total = 0, sb_direct = 0, sb_digipeated = 0, sb_errors = 0,
     sb_igated = 0, sb_dropped = 0, sb_rf_received = 0, sb_reconnects = 0 \<rparr>"

section \<open>Merging a series\<close>

definition point_key :: "data_point \<Rightarrow> int" where
  "point_key p = bucket_key (timestamp (dp_timestamp p))"

definition merge_point :: "(stat_bucket \<Rightarrow> u32 \<Rightarrow> stat_bucket) \<Rightarrow> data_point
    \<Rightarrow> history_store \<times> int list \<Rightarrow> history_store \<times> int list" where
  "merge_point set_field p s = (let k = point_key p;
     b = or_default (default_bucket k) (map_of (fst s) k)
     in (om_insert k (set_field b (dp_value p)) (fst s), snd s @ [k]))"

definition merge_series :: "(stat_bucket \<Rightarrow> u32 \<Rightarrow> stat_bucket) \<Rightarrow> data_series
    \<Rightarrow> history_store \<times> int list \<Rightarrow> history_store \<times> int list" where
  "merge_series set_field series s = fold (merge_point set_field) (ds_data series) s"

definition set_total where "set_total b v = b\<lparr>sb_total := v\<rparr>"
definition set_direct where "set_direct b v = b\<lparr>sb_direct := v\<rparr>"
definition set_digipeated where "set_digipeated b v = b\<lparr>sb_digipeated := v\<rparr>"
definition set_errors where "set_errors b v = b\<lparr>sb_errors := v\<rparr>"
definition set_igated where "set_igated b v = b\<lparr>sb_igated := v\<rparr>"
definition set_dropped where "set_dropped b v = b\<lparr>sb_dropped := v\<rparr>"
definition set_rf_received where "set_rf_received b v = b\<lparr>sb_rf_received := v\<rparr>"
definition set_reconnects where "set_reconnects b v = b\<lparr>sb_reconnects := v\<rparr>"

definition sort_dedup :: "int list \<Rightarrow> int list" where
  "sort_dedup ks = remdups_adj (sort ks)"

definition update_from_packet :: "packet_telemetry \<Rightarrow> history_store \<Rightarrow> history_store \<times> int list" where
  "update_from_packet t h =
     (let (h', touched) = merge_series set_errors (pt_decode_errors t)
            (merge_series set_digipeated (pt_digipeated t)
              (merge_series set_direct (pt_heard_direct t)
                (merge_series set_total (pt_total_packets t) (h, []))))
      in (h', sort_dedup touched))"

definition update_from_aprsis :: "aprsis_telemetry \<Rightarrow> history_store \<Rightarrow> history_store \<times> int list" where
  "update_from_aprsis t h =
     (let (h', touched) = merge_series set_reconnects (at_reconnects t)
            (merge_series set_rf_received (at_rf_received t)
              (merge_series set_dropped (at_packets_dropped t)
                (merge_series set_igated (at_packets_igated t) (h, []))))
      in (h', sort_dedup touched))"

section \<open>Reading and pruning\<close>

definition buckets_for :: "int list \<Rightarrow> history_store \<Rightarrow> stat_bucket list" where
  "buckets_for ks h = List.map_filter (map_of h) ks"

text \<open>\<open>now\<close> is the wall clock.\<close>

definition prune :: "datetime \<Rightarrow> history_store \<Rightarrow> history_store \<times> int list" where
  "prune now h = (let cutoff = bucket_key (timestamp now) - retention_secs;
     removed = filter (\<lambda>k. k < cutoff) (map fst h)
     in (fold om_remove removed h, removed))"

definition snapshot :: "history_store \<Rightarrow> stat_bucket list" where
  "snapshot h = map snd h"

section \<open>Keys\<close>

lemma bucket_key_eq: "bucket_key e = 15 * (e div 15)"
  by (simp add: bucket_key_def bucket_secs_def minus_mod_eq_mult_div)

lemma bucket_key_bounds: "bucket_key e \<le> e \<and> e < bucket_key e + 15 \<and> bucket_key e mod 15 = 0"
proof -
  have "0 \<le> e mod 15" "e mod 15 < 15" by simp_all
  then show ?thesis by (simp add: bucket_key_def bucket_secs_def mod_diff_eq)
qed

lemma bucket_key_idem: "bucket_key (bucket_key e) = bucket_key e"
  by (simp add: bucket_key_eq)

section \<open>One field at a time\<close>

text \<open>What a series writes: the fields of a bucket are overwritten independently.\<close>

locale bucket_field =
  fixes put :: "stat_bucket \<Rightarrow> u32 \<Rightarrow> stat_bucket"
    and read :: "stat_bucket \<Rightarrow> u32"
  assumes put_put: "put (put b v) w = put b w"
    and put_ts: "sb_ts (put b v) = sb_ts b"
    and read_put: "read (put b v) = v"
    and put_read: "put b (read b) = b"

interpretation f_total: bucket_field set_total sb_total
  by unfold_locales (simp_all add: set_total_def)
interpretation f_direct: bucket_field set_direct sb_direct
  by unfold_locales (simp_all add: set_direct_def)
interpretation f_digipeated: bucket_field set_digipeated sb_digipeated
  by unfold_locales (simp_all add: set_digipeated_def)
interpretation f_errors: bucket_field set_errors sb_errors
  by unfold_locales (simp_all add: set_errors_def)
interpretation f_igated: bucket_field set_igated sb_igated
  by unfold_locales (simp_all add: set_igated_def)
interpretation f_dropped: bucket_field set_dropped sb_dropped
  by unfold_locales (simp_all add: set_dropped_def)
interpretation f_rf_received: bucket_field set_rf_received sb_rf_received
  by unfold_locales (simp_all add: set_rf_received_def)
interpretation f_reconnects: bucket_field set_reconnects sb_reconnects
  by unfold_locales (simp_all add: set_reconnects_def)

text \<open>The value a series gives the bucket \<open>k\<close>: that of its last point there.\<close>

definition series_at :: "data_series \<Rightarrow> int \<Rightarrow> u32 option" where
  "series_at s k = map_of (rev (map (\<lambda>p. (point_key p, dp_value p)) (ds_data s))) k"

definition series_keys :: "data_series \<Rightarrow> int list" where
  "series_keys s = map point_key (ds_data s)"

definition merged :: "(stat_bucket \<Rightarrow> u32 \<Rightarrow> stat_bucket) \<Rightarrow> data_series \<Rightarrow> int
    \<Rightarrow> stat_bucket option \<Rightarrow> stat_bucket option" where
  "merged set_field s k b = (case series_at s k of None \<Rightarrow> b
     | Some v \<Rightarrow> Some (set_field (or_default (default_bucket k) b) v))"

context bucket_field
begin

lemma merge_points:
  "om_inv (fst s) \<Longrightarrow> om_inv (fst (fold (merge_point put) ps s))
    \<and> snd (fold (merge_point put) ps s) = snd s @ map point_key ps
    \<and> map_of (fst (fold (merge_point put) ps s)) k
      = (case map_of (rev (map (\<lambda>p. (point_key p, dp_value p)) ps)) k of None \<Rightarrow> map_of (fst s) k
         | Some v \<Rightarrow> Some (put (or_default (default_bucket k) (map_of (fst s) k)) v))"
proof (induction ps arbitrary: s)
  case (Cons p ps)
  let ?s = "merge_point put p s"
  have inv: "om_inv (fst ?s)" using Cons.prems by (simp add: merge_point_def Let_def om_inv_insert)
  have l: "map_of (fst ?s) k = (if k = point_key p
      then Some (put (or_default (default_bucket k) (map_of (fst s) k)) (dp_value p)) else map_of (fst s) k)"
    using Cons.prems by (auto simp: merge_point_def Let_def om_lookup_insert)
  have t: "snd ?s = snd s @ [point_key p]" by (simp add: merge_point_def Let_def)
  show ?case using Cons.IH [OF inv] l t
    by (auto simp: map_add_def put_put split: option.split)
qed simp

lemma merge_inv: "om_inv h \<Longrightarrow> om_inv (fst (merge_series put s (h, ks)))"
  using merge_points [of "(h, ks)"] by (simp add: merge_series_def)

lemma merge_touched: "om_inv h \<Longrightarrow> snd (merge_series put s (h, ks)) = ks @ series_keys s"
  using merge_points [of "(h, ks)"] by (simp add: merge_series_def series_keys_def)

lemma merge_lookup: "om_inv h \<Longrightarrow> map_of (fst (merge_series put s (h, ks))) k = merged put s k (map_of h k)"
  using merge_points [of "(h, ks)" _ k, unfolded fst_conv]
  unfolding merge_series_def merged_def series_at_def by blast

lemma merge_Pair:
  "om_inv h \<Longrightarrow> \<exists>h'. merge_series put s (h, ks) = (h', ks @ series_keys s) \<and> om_inv h'
     \<and> (\<forall>k. map_of h' k = merged put s k (map_of h k))"
  using merge_inv merge_touched merge_lookup
  by (intro exI [of _ "fst (merge_series put s (h, ks))"]) (auto simp: prod_eq_iff)

lemma merged_ts: "(\<forall>b. o' = Some b \<longrightarrow> sb_ts b = k) \<Longrightarrow> merged put s k o' = Some c \<Longrightarrow> sb_ts c = k"
  by (cases o') (auto simp: merged_def put_ts default_bucket_def split: option.splits)

end

lemma series_at_key: "series_at s k \<noteq> None \<longleftrightarrow> k \<in> set (series_keys s)"
  by (force simp: series_at_def series_keys_def map_of_eq_None_iff)

section \<open>What an update does to a bucket\<close>

text \<open>The contract of the two updates: a function of the old bucket and the series alone.\<close>

definition packet_bucket :: "packet_telemetry \<Rightarrow> int \<Rightarrow> stat_bucket option \<Rightarrow> stat_bucket option" where
  "packet_bucket t k b = merged set_errors (pt_decode_errors t) k
     (merged set_digipeated (pt_digipeated t) k
       (merged set_direct (pt_heard_direct t) k (merged set_total (pt_total_packets t) k b)))"

definition aprsis_bucket :: "aprsis_telemetry \<Rightarrow> int \<Rightarrow> stat_bucket option \<Rightarrow> stat_bucket option" where
  "aprsis_bucket t k b = merged set_reconnects (at_reconnects t) k
     (merged set_rf_received (at_rf_received t) k
       (merged set_dropped (at_packets_dropped t) k (merged set_igated (at_packets_igated t) k b)))"

definition packet_keys :: "packet_telemetry \<Rightarrow> int list" where
  "packet_keys t = series_keys (pt_total_packets t) @ series_keys (pt_heard_direct t)
     @ series_keys (pt_digipeated t) @ series_keys (pt_decode_errors t)"

definition aprsis_keys :: "aprsis_telemetry \<Rightarrow> int list" where
  "aprsis_keys t = series_keys (at_packets_igated t) @ series_keys (at_packets_dropped t)
     @ series_keys (at_rf_received t) @ series_keys (at_reconnects t)"

lemma update_from_packet_spec:
  assumes "om_inv h"
  shows "\<exists>h'. update_from_packet t h = (h', sort_dedup (packet_keys t)) \<and> om_inv h'
    \<and> (\<forall>k. map_of h' k = packet_bucket t k (map_of h k))"
proof -
  obtain h1 where 1: "merge_series set_total (pt_total_packets t) (h, []) = (h1, series_keys (pt_total_packets t))"
    "om_inv h1" "\<And>k. map_of h1 k = merged set_total (pt_total_packets t) k (map_of h k)"
    using f_total.merge_Pair [OF assms, of "pt_total_packets t" "[]"] by auto
  obtain h2 where 2: "merge_series set_direct (pt_heard_direct t) (h1, series_keys (pt_total_packets t))
      = (h2, series_keys (pt_total_packets t) @ series_keys (pt_heard_direct t))"
    "om_inv h2" "\<And>k. map_of h2 k = merged set_direct (pt_heard_direct t) k (map_of h1 k)"
    using f_direct.merge_Pair [OF 1(2)] by blast
  obtain h3 where 3: "merge_series set_digipeated (pt_digipeated t) (h2, snd (h2, series_keys (pt_total_packets t) @ series_keys (pt_heard_direct t)))
      = (h3, (series_keys (pt_total_packets t) @ series_keys (pt_heard_direct t)) @ series_keys (pt_digipeated t))"
    "om_inv h3" "\<And>k. map_of h3 k = merged set_digipeated (pt_digipeated t) k (map_of h2 k)"
    using f_digipeated.merge_Pair [OF 2(2)] by (metis snd_conv)
  obtain h4 where 4: "merge_series set_errors (pt_decode_errors t) (h3, (series_keys (pt_total_packets t) @ series_keys (pt_heard_direct t)) @ series_keys (pt_digipeated t))
      = (h4, packet_keys t)"
    "om_inv h4" "\<And>k. map_of h4 k = merged set_errors (pt_decode_errors t) k (map_of h3 k)"
    using f_errors.merge_Pair [OF 3(2)] by (metis append_assoc packet_keys_def)
  show ?thesis
    using 1 2 3 4 by (simp add: update_from_packet_def packet_bucket_def)
qed

lemma update_from_aprsis_spec:
  assumes "om_inv h"
  shows "\<exists>h'. update_from_aprsis t h = (h', sort_dedup (aprsis_keys t)) \<and> om_inv h'
    \<and> (\<forall>k. map_of h' k = aprsis_bucket t k (map_of h k))"
proof -
  obtain h1 where 1: "merge_series set_igated (at_packets_igated t) (h, []) = (h1, series_keys (at_packets_igated t))"
    "om_inv h1" "\<And>k. map_of h1 k = merged set_igated (at_packets_igated t) k (map_of h k)"
    using f_igated.merge_Pair [OF assms, of "at_packets_igated t" "[]"] by auto
  obtain h2 where 2: "merge_series set_dropped (at_packets_dropped t) (h1, series_keys (at_packets_igated t))
      = (h2, series_keys (at_packets_igated t) @ series_keys (at_packets_dropped t))"
    "om_inv h2" "\<And>k. map_of h2 k = merged set_dropped (at_packets_dropped t) k (map_of h1 k)"
    using f_dropped.merge_Pair [OF 1(2)] by blast
  obtain h3 where 3: "merge_series set_rf_received (at_rf_received t) (h2, series_keys (at_packets_igated t) @ series_keys (at_packets_dropped t))
      = (h3, (series_keys (at_packets_igated t) @ series_keys (at_packets_dropped t)) @ series_keys (at_rf_received t))"
    "om_inv h3" "\<And>k. map_of h3 k = merged set_rf_received (at_rf_received t) k (map_of h2 k)"
    using f_rf_received.merge_Pair [OF 2(2)] by blast
  obtain h4 where 4: "merge_series set_reconnects (at_reconnects t) (h3, (series_keys (at_packets_igated t) @ series_keys (at_packets_dropped t)) @ series_keys (at_rf_received t))
      = (h4, aprsis_keys t)"
    "om_inv h4" "\<And>k. map_of h4 k = merged set_reconnects (at_reconnects t) k (map_of h3 k)"
    using f_reconnects.merge_Pair [OF 3(2)] by (metis append_assoc aprsis_keys_def)
  show ?thesis
    using 1 2 3 4 by (simp add: update_from_aprsis_def aprsis_bucket_def)
qed

lemma fields_commute:
  assumes "f \<in> {set_total, set_direct, set_digipeated, set_errors}"
    and "g \<in> {set_igated, set_dropped, set_rf_received, set_reconnects}"
  shows "g (f b v) w = f (g b w) v"
  using assms
  by (auto simp: set_total_def set_direct_def set_digipeated_def set_errors_def set_igated_def
      set_dropped_def set_rf_received_def set_reconnects_def)

lemma merged_commute:
  assumes "f \<in> {set_total, set_direct, set_digipeated, set_errors}"
    and "g \<in> {set_igated, set_dropped, set_rf_received, set_reconnects}"
  shows "merged g s k (merged f s' k b) = merged f s' k (merged g s k b)"
  using fields_commute [OF assms] by (simp add: merged_def split: option.split)

lemmas merged_commutes =
  merged_commute [of set_total set_igated, simplified] merged_commute [of set_direct set_igated, simplified]
  merged_commute [of set_digipeated set_igated, simplified] merged_commute [of set_errors set_igated, simplified]
  merged_commute [of set_total set_dropped, simplified] merged_commute [of set_direct set_dropped, simplified]
  merged_commute [of set_digipeated set_dropped, simplified] merged_commute [of set_errors set_dropped, simplified]
  merged_commute [of set_total set_rf_received, simplified] merged_commute [of set_direct set_rf_received, simplified]
  merged_commute [of set_digipeated set_rf_received, simplified] merged_commute [of set_errors set_rf_received, simplified]
  merged_commute [of set_total set_reconnects, simplified] merged_commute [of set_direct set_reconnects, simplified]
  merged_commute [of set_digipeated set_reconnects, simplified] merged_commute [of set_errors set_reconnects, simplified]

lemma packet_aprsis_bucket: "aprsis_bucket a k (packet_bucket t k b) = packet_bucket t k (aprsis_bucket a k b)"
  by (simp add: aprsis_bucket_def packet_bucket_def merged_commutes)

section \<open>The invariant\<close>

text \<open>Buckets are in key order, carry their key, and sit on a 15-second boundary.\<close>

definition history_inv :: "history_store \<Rightarrow> bool" where
  "history_inv h = (om_inv h \<and> (\<forall>(k, b)\<in>set h. sb_ts b = k \<and> k mod 15 = 0))"

definition bucket_ok :: "int \<Rightarrow> stat_bucket option \<Rightarrow> bool" where
  "bucket_ok k b = (\<forall>c. b = Some c \<longrightarrow> sb_ts c = k \<and> k mod 15 = 0)"

lemma history_inv_lookup: "history_inv h \<longleftrightarrow> om_inv h \<and> (\<forall>k. bucket_ok k (map_of h k))"
proof (cases "om_inv h")
  case True
  have "(\<forall>(k, b)\<in>set h. sb_ts b = k \<and> k mod 15 = 0)
      \<longleftrightarrow> (\<forall>k b. (k, b) \<in> set h \<longrightarrow> sb_ts b = k \<and> k mod 15 = 0)" by blast
  then show ?thesis using True by (simp add: history_inv_def bucket_ok_def om.entries_iff [OF True])
qed (simp add: history_inv_def)

lemma merged_ok:
  assumes "bucket_field put read" and "bucket_ok k b"
  shows "bucket_ok k (merged put s k b)"
proof (cases "series_at s k")
  case None
  then show ?thesis using assms(2) by (simp add: merged_def)
next
  case (Some v)
  then have "k \<in> set (series_keys s)" using series_at_key [of s k] by simp
  then have "k mod 15 = 0" using bucket_key_bounds by (auto simp: series_keys_def point_key_def)
  moreover have "sb_ts c = k" if "merged put s k b = Some c" for c
    using bucket_field.merged_ts [OF assms(1) _ that] assms(2) by (simp add: bucket_ok_def)
  ultimately show ?thesis by (simp add: bucket_ok_def)
qed

lemmas merged_oks =
  merged_ok [OF f_total.bucket_field_axioms] merged_ok [OF f_direct.bucket_field_axioms]
  merged_ok [OF f_digipeated.bucket_field_axioms] merged_ok [OF f_errors.bucket_field_axioms]
  merged_ok [OF f_igated.bucket_field_axioms] merged_ok [OF f_dropped.bucket_field_axioms]
  merged_ok [OF f_rf_received.bucket_field_axioms] merged_ok [OF f_reconnects.bucket_field_axioms]

lemma packet_bucket_ok: "bucket_ok k b \<Longrightarrow> bucket_ok k (packet_bucket t k b)"
  by (simp add: packet_bucket_def merged_oks)

lemma aprsis_bucket_ok: "bucket_ok k b \<Longrightarrow> bucket_ok k (aprsis_bucket t k b)"
  by (simp add: aprsis_bucket_def merged_oks)

lemma update_from_packet_inv [inv_intros]: "history_inv h \<Longrightarrow> history_inv (fst (update_from_packet t h))"
proof -
  assume h: "history_inv h"
  then obtain h' where "update_from_packet t h = (h', sort_dedup (packet_keys t))" "om_inv h'"
    "\<forall>k. map_of h' k = packet_bucket t k (map_of h k)"
    using update_from_packet_spec [of h t] by (auto simp: history_inv_lookup)
  with h show ?thesis by (simp add: history_inv_lookup packet_bucket_ok)
qed

lemma update_from_aprsis_inv [inv_intros]: "history_inv h \<Longrightarrow> history_inv (fst (update_from_aprsis t h))"
proof -
  assume h: "history_inv h"
  then obtain h' where "update_from_aprsis t h = (h', sort_dedup (aprsis_keys t))" "om_inv h'"
    "\<forall>k. map_of h' k = aprsis_bucket t k (map_of h k)"
    using update_from_aprsis_spec [of h t] by (auto simp: history_inv_lookup)
  with h show ?thesis by (simp add: history_inv_lookup aprsis_bucket_ok)
qed

lemma set_sort_dedup [simp]: "set (sort_dedup ks) = set ks"
  by (simp add: sort_dedup_def)

lemma remdups_adj_strict: "sorted (xs :: int list) \<Longrightarrow> sorted_wrt (<) (remdups_adj xs)"
proof (induction xs rule: remdups_adj.induct)
  case (3 x y xs)
  then show ?case by (cases "x = y") (auto simp: less_le)
qed simp_all

lemma sort_dedup_strict: "sorted_wrt (<) (sort_dedup ks)"
  unfolding sort_dedup_def by (rule remdups_adj_strict) simp

text \<open>A bucket that a series does not touch is left alone; one it touches exists afterwards.\<close>

lemma packet_bucket_untouched: "k \<notin> set (packet_keys t) \<Longrightarrow> packet_bucket t k b = b"
  using series_at_key by (auto simp: packet_keys_def packet_bucket_def merged_def split: option.split)

lemma aprsis_bucket_untouched: "k \<notin> set (aprsis_keys t) \<Longrightarrow> aprsis_bucket t k b = b"
  using series_at_key by (auto simp: aprsis_keys_def aprsis_bucket_def merged_def split: option.split)

lemma packet_bucket_None: "packet_bucket t k b = None \<longleftrightarrow> b = None \<and> k \<notin> set (packet_keys t)"
  by (auto simp: packet_keys_def packet_bucket_def merged_def series_at_key [symmetric]
      simp del: not_None_eq split: option.splits)

lemma packet_bucket_idem: "packet_bucket t k (packet_bucket t k b) = packet_bucket t k b"
  by (cases b; cases "series_at (pt_total_packets t) k"; cases "series_at (pt_heard_direct t) k";
      cases "series_at (pt_digipeated t) k"; cases "series_at (pt_decode_errors t) k")
    (simp_all add: packet_bucket_def merged_def set_total_def set_direct_def set_digipeated_def set_errors_def)

lemma aprsis_bucket_idem: "aprsis_bucket t k (aprsis_bucket t k b) = aprsis_bucket t k b"
  by (cases b; cases "series_at (at_packets_igated t) k"; cases "series_at (at_packets_dropped t) k";
      cases "series_at (at_rf_received t) k"; cases "series_at (at_reconnects t) k")
    (simp_all add: aprsis_bucket_def merged_def set_igated_def set_dropped_def set_rf_received_def set_reconnects_def)

text \<open>The fields of a bucket after an update, field by field.\<close>

lemma packet_bucket_fields:
  assumes "packet_bucket t k b = Some c"
  defines "old \<equiv> or_default (default_bucket k) b"
  shows "sb_total c = or_default (sb_total old) (series_at (pt_total_packets t) k)
    \<and> sb_direct c = or_default (sb_direct old) (series_at (pt_heard_direct t) k)
    \<and> sb_digipeated c = or_default (sb_digipeated old) (series_at (pt_digipeated t) k)
    \<and> sb_errors c = or_default (sb_errors old) (series_at (pt_decode_errors t) k)
    \<and> sb_igated c = sb_igated old \<and> sb_dropped c = sb_dropped old
    \<and> sb_rf_received c = sb_rf_received old \<and> sb_reconnects c = sb_reconnects old"
  using assms
  by (cases b; cases "series_at (pt_total_packets t) k"; cases "series_at (pt_heard_direct t) k";
      cases "series_at (pt_digipeated t) k"; cases "series_at (pt_decode_errors t) k")
    (auto simp: packet_bucket_def merged_def set_total_def set_direct_def set_digipeated_def set_errors_def)

lemma aprsis_bucket_fields:
  assumes "aprsis_bucket t k b = Some c"
  defines "old \<equiv> or_default (default_bucket k) b"
  shows "sb_igated c = or_default (sb_igated old) (series_at (at_packets_igated t) k)
    \<and> sb_dropped c = or_default (sb_dropped old) (series_at (at_packets_dropped t) k)
    \<and> sb_rf_received c = or_default (sb_rf_received old) (series_at (at_rf_received t) k)
    \<and> sb_reconnects c = or_default (sb_reconnects old) (series_at (at_reconnects t) k)
    \<and> sb_total c = sb_total old \<and> sb_direct c = sb_direct old
    \<and> sb_digipeated c = sb_digipeated old \<and> sb_errors c = sb_errors old"
  using assms
  by (cases b; cases "series_at (at_packets_igated t) k"; cases "series_at (at_packets_dropped t) k";
      cases "series_at (at_rf_received t) k"; cases "series_at (at_reconnects t) k")
    (auto simp: aprsis_bucket_def merged_def set_igated_def set_dropped_def set_rf_received_def set_reconnects_def)

text \<open>What an update does to the whole history: both are updates of this kind.\<close>

lemma update_contract:
  assumes spec: "\<And>h. om_inv h \<Longrightarrow> \<exists>h'. upd h = (h', sort_dedup keys) \<and> om_inv h' \<and> (\<forall>k. map_of h' k = f k (map_of h k))"
    and untouched: "\<And>k b. k \<notin> set keys \<Longrightarrow> f k b = b"
    and none: "\<And>k b. f k b = None \<longleftrightarrow> b = None \<and> k \<notin> set keys"
    and idem: "\<And>k b. f k (f k b) = f k b"
    and h: "om_inv h" and u: "upd h = (h', ks)"
  shows "sorted_wrt (<) ks \<and> set ks = set keys
    \<and> (\<forall>k. k \<notin> set ks \<longrightarrow> map_of h' k = map_of h k)
    \<and> (\<forall>k \<in> set ks. \<exists>c. map_of h' k = Some c \<and> f k (map_of h k) = Some c)
    \<and> fst (upd h') = h'"
proof -
  from spec [OF h] u have ks: "ks = sort_dedup keys" and o1: "om_inv h'"
    and m: "\<And>k. map_of h' k = f k (map_of h k)" by auto
  obtain h2 where h2: "fst (upd h') = h2" "om_inv h2" "\<And>k. map_of h2 k = f k (map_of h' k)"
    using spec [OF o1] by auto
  have "h2 = h'" by (rule om_ext [OF h2(2) o1]) (simp add: h2(3) m idem)
  moreover have "\<exists>c. f k (map_of h k) = Some c" if "k \<in> set ks" for k
    using that none [of k "map_of h k"] by (cases "f k (map_of h k)") (auto simp: ks)
  ultimately show ?thesis using ks sort_dedup_strict h2(1) untouched by (simp add: m)
qed

lemma aprsis_bucket_None: "aprsis_bucket t k b = None \<longleftrightarrow> b = None \<and> k \<notin> set (aprsis_keys t)"
  by (auto simp: aprsis_keys_def aprsis_bucket_def merged_def series_at_key [symmetric]
      simp del: not_None_eq split: option.splits)

lemma packet_update_contract:
  assumes "om_inv h" and "update_from_packet t h = (h', ks)"
  shows "sorted_wrt (<) ks \<and> set ks = set (packet_keys t)
    \<and> (\<forall>k. k \<notin> set ks \<longrightarrow> map_of h' k = map_of h k)
    \<and> (\<forall>k \<in> set ks. \<exists>c. map_of h' k = Some c \<and> packet_bucket t k (map_of h k) = Some c)
    \<and> fst (update_from_packet t h') = h'"
  by (rule update_contract [OF update_from_packet_spec packet_bucket_untouched packet_bucket_None
        packet_bucket_idem assms])

lemma aprsis_update_contract:
  assumes "om_inv h" and "update_from_aprsis t h = (h', ks)"
  shows "sorted_wrt (<) ks \<and> set ks = set (aprsis_keys t)
    \<and> (\<forall>k. k \<notin> set ks \<longrightarrow> map_of h' k = map_of h k)
    \<and> (\<forall>k \<in> set ks. \<exists>c. map_of h' k = Some c \<and> aprsis_bucket t k (map_of h k) = Some c)
    \<and> fst (update_from_aprsis t h') = h'"
  by (rule update_contract [OF update_from_aprsis_spec aprsis_bucket_untouched aprsis_bucket_None
        aprsis_bucket_idem assms])

lemma packet_bucket_ts: "packet_bucket t k b = Some c \<Longrightarrow> sb_ts c = sb_ts (or_default (default_bucket k) b)"
  by (cases b; cases "series_at (pt_total_packets t) k"; cases "series_at (pt_heard_direct t) k";
      cases "series_at (pt_digipeated t) k"; cases "series_at (pt_decode_errors t) k")
    (auto simp: packet_bucket_def merged_def set_total_def set_direct_def set_digipeated_def set_errors_def)

lemma aprsis_bucket_ts: "aprsis_bucket t k b = Some c \<Longrightarrow> sb_ts c = sb_ts (or_default (default_bucket k) b)"
  by (cases b; cases "series_at (at_packets_igated t) k"; cases "series_at (at_packets_dropped t) k";
      cases "series_at (at_rf_received t) k"; cases "series_at (at_reconnects t) k")
    (auto simp: aprsis_bucket_def merged_def set_igated_def set_dropped_def set_rf_received_def set_reconnects_def)

lemma packet_bucket_value:
  assumes "packet_bucket t k b = Some c"
  defines "old \<equiv> or_default (default_bucket k) b"
  shows "c = old\<lparr>sb_total := or_default (sb_total old) (series_at (pt_total_packets t) k),
    sb_direct := or_default (sb_direct old) (series_at (pt_heard_direct t) k),
    sb_digipeated := or_default (sb_digipeated old) (series_at (pt_digipeated t) k),
    sb_errors := or_default (sb_errors old) (series_at (pt_decode_errors t) k)\<rparr>"
  by (rule stat_bucket.equality)
    (use packet_bucket_fields [OF assms(1)] packet_bucket_ts [OF assms(1)] in \<open>simp_all add: old_def\<close>)

lemma aprsis_bucket_value:
  assumes "aprsis_bucket t k b = Some c"
  defines "old \<equiv> or_default (default_bucket k) b"
  shows "c = old\<lparr>sb_igated := or_default (sb_igated old) (series_at (at_packets_igated t) k),
    sb_dropped := or_default (sb_dropped old) (series_at (at_packets_dropped t) k),
    sb_rf_received := or_default (sb_rf_received old) (series_at (at_rf_received t) k),
    sb_reconnects := or_default (sb_reconnects old) (series_at (at_reconnects t) k)\<rparr>"
  by (rule stat_bucket.equality)
    (use aprsis_bucket_fields [OF assms(1)] aprsis_bucket_ts [OF assms(1)] in \<open>simp_all add: old_def\<close>)

section \<open>Pruning, snapshots and rebuilding\<close>

definition prune_cutoff :: "datetime \<Rightarrow> int" where
  "prune_cutoff now = bucket_key (timestamp now) - retention_secs"

lemma prune_spec:
  assumes "om_inv h"
  shows "om_inv (fst (prune now h))
    \<and> map_of (fst (prune now h)) k = (if k < prune_cutoff now then None else map_of h k)
    \<and> snd (prune now h) = filter (\<lambda>k. k < prune_cutoff now) (map fst h)"
proof -
  let ?r = "filter (\<lambda>k. k < prune_cutoff now) (map fst h)"
  have p: "prune now h = (fold om_remove ?r h, ?r)" by (simp add: prune_def prune_cutoff_def Let_def)
  have "k \<in> set ?r \<longleftrightarrow> k < prune_cutoff now \<and> map_of h k \<noteq> None"
    using om.keys_iff [OF assms, of k] by auto
  with om.lookup_fold_remove [OF assms, of ?r k] show ?thesis unfolding p by auto
qed

lemma prune_inv [inv_intros]: "history_inv h \<Longrightarrow> history_inv (fst (prune now h))"
  using prune_spec [of h now] by (auto simp: history_inv_lookup bucket_ok_def split: if_splits)

lemma snapshot_sorted: "history_inv h \<Longrightarrow> sorted_wrt (<) (map sb_ts (snapshot h))"
proof -
  assume h: "history_inv h"
  then have "map sb_ts (snapshot h) = map fst h"
    by (auto simp: history_inv_def snapshot_def)
  with h show ?thesis by (simp add: history_inv_def om_inv_def)
qed

lemma snapshot_mem:
  assumes "history_inv h" and "b \<in> set (snapshot h)"
  shows "map_of h (sb_ts b) = Some b"
proof -
  have "b \<in> snd ` set h" using assms(2) by (simp add: snapshot_def)
  then obtain e where e: "e \<in> set h" "b = snd e" by (rule imageE) blast
  moreover obtain k c where "e = (k, c)" by (cases e)
  ultimately have k: "(k, b) \<in> set h" by simp
  then have "sb_ts b = k" using assms(1) by (auto simp: history_inv_def)
  moreover have "om_inv h" using assms(1) by (simp add: history_inv_def)
  ultimately show ?thesis using k by (simp add: om.entries_iff)
qed

lemma from_buckets_lookup:
  "om_inv (from_buckets bs) \<and> map_of (from_buckets bs) k = map_of (rev (map (\<lambda>b. (sb_ts b, b)) bs)) k"
proof -
  have "om_inv history_new" by (simp add: history_new_def om_inv_def)
  from om.lookup_fold_insert [OF this, of "map (\<lambda>b. (sb_ts b, b)) bs" k] show ?thesis
    by (auto simp: from_buckets_def history_new_def split: option.splits)
qed

lemma from_buckets_inv [inv_intros]: "\<forall>b\<in>set bs. sb_ts b mod 15 = 0 \<Longrightarrow> history_inv (from_buckets bs)"
  using from_buckets_lookup [of bs]
  by (auto simp: history_inv_lookup bucket_ok_def dest!: map_of_SomeD)

lemma map_of_rev_distinct: "distinct (map fst xs) \<Longrightarrow> map_of (rev xs) k = map_of xs k"
proof (cases "map_of xs k")
  case None
  then have "k \<notin> fst ` set (rev xs)" by (simp add: map_of_eq_None_iff)
  then show ?thesis using None map_of_eq_None_iff [of "rev xs" k] by simp
next
  case (Some v)
  moreover assume "distinct (map fst xs)"
  moreover from this have "distinct (map fst (rev xs))" by (simp flip: rev_map)
  ultimately show ?thesis by (simp add: map_of_eq_Some_iff)
qed

lemma from_buckets_snapshot: "history_inv h \<Longrightarrow> from_buckets (snapshot h) = h"
proof (rule om_ext)
  assume h: "history_inv h"
  then show "om_inv h" by (simp add: history_inv_def)
  show "om_inv (from_buckets (snapshot h))" using from_buckets_lookup by blast
  have e: "map (\<lambda>b. (sb_ts b, b)) (snapshot h) = h"
    using h by (auto simp: history_inv_def snapshot_def intro!: map_idI)
  have d: "distinct (map fst h)" using h by (simp add: history_inv_def om_inv_def strict_sorted_iff)
  then show "map_of (from_buckets (snapshot h)) k = map_of h k" for k
    using from_buckets_lookup [of "snapshot h" k] map_of_rev_distinct [OF d] by (simp add: e)
qed

text \<open>Every touched key has a bucket to persist.\<close>

lemma buckets_for_touched:
  assumes "history_inv h" and "set ks \<subseteq> set (map fst h)"
  shows "map sb_ts (buckets_for ks h) = ks"
  using assms(2)
proof (induction ks)
  case (Cons k ks)
  then obtain b where b: "map_of h k = Some b"
    using om.keys_iff [of h k] assms(1) by (auto simp: history_inv_def)
  then have "sb_ts b = k" using assms(1) by (auto simp: history_inv_lookup bucket_ok_def)
  with b Cons show ?case by (simp add: buckets_for_def List.map_filter_def)
qed (simp add: buckets_for_def List.map_filter_def)

section \<open>Properties\<close>

text \<open>
  C12. The two telemetry streams tick independently: whichever of the two
  updates comes first, the merged history is the same.
\<close>

theorem history_updates_commute:
  assumes "history_inv h"
  shows "fst (update_from_aprsis a (fst (update_from_packet t h)))
    = fst (update_from_packet t (fst (update_from_aprsis a h)))"
proof -
  have o0: "om_inv h" using assms by (simp add: history_inv_lookup)
  obtain h1 where 1: "fst (update_from_packet t h) = h1" "om_inv h1"
    "\<And>k. map_of h1 k = packet_bucket t k (map_of h k)"
    using update_from_packet_spec [OF o0, of t] by auto
  obtain h2 where 2: "fst (update_from_aprsis a h) = h2" "om_inv h2"
    "\<And>k. map_of h2 k = aprsis_bucket a k (map_of h k)"
    using update_from_aprsis_spec [OF o0, of a] by auto
  obtain h3 where 3: "fst (update_from_aprsis a h1) = h3" "om_inv h3"
    "\<And>k. map_of h3 k = aprsis_bucket a k (map_of h1 k)"
    using update_from_aprsis_spec [OF 1(2), of a] by auto
  obtain h4 where 4: "fst (update_from_packet t h2) = h4" "om_inv h4"
    "\<And>k. map_of h4 k = packet_bucket t k (map_of h2 k)"
    using update_from_packet_spec [OF 2(2), of t] by auto
  have "h3 = h4"
    by (rule om_ext [OF 3(2) 4(2)]) (simp add: 1(3) 2(3) 3(3) 4(3) packet_aprsis_bucket)
  then show ?thesis by (simp add: 1 2 3 4)
qed

definition sample_series :: "u32 \<Rightarrow> data_series" where
  "sample_series v = \<lparr> ds_name = ''n'', ds_data = [\<lparr> dp_timestamp = 100 * 1000000000, dp_value = v \<rparr>] \<rparr>"

definition sample_packet_telemetry :: packet_telemetry where
  "sample_packet_telemetry = \<lparr> pt_name = ''packet_statistics'', pt_timestamp = 0, pt_microsecs = Fin 0,
     pt_total_packets = sample_series 7, pt_heard_direct = sample_series 3, pt_digipeated = sample_series 4,
     pt_decode_errors = sample_series 0, pt_lifetime_total_packets = 7, pt_lifetime_heard_direct = 3,
     pt_lifetime_digipeated = 4, pt_lifetime_decode_errors = 0 \<rparr>"

definition sample_aprsis_telemetry :: aprsis_telemetry where
  "sample_aprsis_telemetry = \<lparr> at_name = ''aprsis_statistics'', at_timestamp = 0, at_microsecs = Fin 0,
     at_reconnects = sample_series 1, at_packets_igated = sample_series 5, at_packets_dropped = sample_series 2,
     at_rf_received = sample_series 7, at_lifetime_rf_received = 7, at_lifetime_packets_igated = 5,
     at_lifetime_packets_dropped = 2, at_lifetime_reconnects = 1, at_lifetime_drops_stale = 0,
     at_lifetime_drops_rfonly = 2, at_lifetime_drops_query = 0, at_lifetime_drops_thirdparty = 0,
     at_lifetime_drops_sat = 0, at_lifetime_drops_duplicate = 0, at_lifetime_drops_malformed = 0,
     at_lifetime_lagged_drops = 0 \<rparr>"

definition sample_bucket :: stat_bucket where
  "sample_bucket = \<lparr> sb_ts = 90, sb_total = 7, sb_direct = 3, sb_digipeated = 4, sb_errors = 0,
     sb_igated = 5, sb_dropped = 2, sb_rf_received = 7, sb_reconnects = 1 \<rparr>"

lemmas history_eval = update_from_packet_def update_from_aprsis_def merge_series_def merge_point_def
  point_key_def bucket_key_def bucket_secs_def timestamp_def nanos_per_sec_def default_bucket_def
  set_total_def set_direct_def set_digipeated_def set_errors_def set_igated_def set_dropped_def
  set_rf_received_def set_reconnects_def sample_series_def sample_packet_telemetry_def
  sample_aprsis_telemetry_def sample_bucket_def sort_dedup_def Let_def

lemma history_inv_Nil: "history_inv []"
  by (simp add: history_inv_def om_inv_def)

theorem history_updates_commute_witness:
  "fst (update_from_aprsis sample_aprsis_telemetry (fst (update_from_packet sample_packet_telemetry [])))
     = [(90, sample_bucket)]"
  unfolding history_updates_commute [OF history_inv_Nil] by (simp add: history_eval)

text \<open>
  C13. Each of the two updates keeps the invariant of the history and reports
  exactly the buckets its points fall in, in order and without repetition. In each of them it sets
  its own four fields, each to the value of the last point its series has there (where it has one),
  and leaves the four of the other stream and the time stamp alone; it changes no other bucket, and
  repeating it changes nothing more.
\<close>

theorem history_update_contract:
  assumes "history_inv h"
    and "update_from_packet t h = (h1, ks)" and "update_from_aprsis a h = (h2, js)"
  shows "history_inv h1 \<and> sorted_wrt (<) ks
    \<and> set ks = set (packet_keys t)
    \<and> (\<forall>k. k \<notin> set ks \<longrightarrow> map_of h1 k = map_of h k)
    \<and> (\<forall>k \<in> set ks. map_of h1 k = Some (
        let old = or_default (default_bucket k) (map_of h k) in
        old\<lparr>sb_total := or_default (sb_total old) (series_at (pt_total_packets t) k),
            sb_direct := or_default (sb_direct old) (series_at (pt_heard_direct t) k),
            sb_digipeated := or_default (sb_digipeated old) (series_at (pt_digipeated t) k),
            sb_errors := or_default (sb_errors old) (series_at (pt_decode_errors t) k)\<rparr>))
    \<and> fst (update_from_packet t h1) = h1
    \<and> history_inv h2 \<and> sorted_wrt (<) js
    \<and> set js = set (aprsis_keys a)
    \<and> (\<forall>k. k \<notin> set js \<longrightarrow> map_of h2 k = map_of h k)
    \<and> (\<forall>k \<in> set js. map_of h2 k = Some (
        let old = or_default (default_bucket k) (map_of h k) in
        old\<lparr>sb_igated := or_default (sb_igated old) (series_at (at_packets_igated a) k),
            sb_dropped := or_default (sb_dropped old) (series_at (at_packets_dropped a) k),
            sb_rf_received := or_default (sb_rf_received old) (series_at (at_rf_received a) k),
            sb_reconnects := or_default (sb_reconnects old) (series_at (at_reconnects a) k)\<rparr>))
    \<and> fst (update_from_aprsis a h2) = h2"
proof -
  have h: "om_inv h" using assms(1) by (simp add: history_inv_lookup)
  have i: "history_inv h1" "history_inv h2"
    using update_from_packet_inv [OF assms(1), of t] update_from_aprsis_inv [OF assms(1), of a] assms(2,3)
    by simp_all
  note p = packet_update_contract [OF h assms(2)] and q = aprsis_update_contract [OF h assms(3)]
  have "map_of h1 k = Some (let old = or_default (default_bucket k) (map_of h k) in
        old\<lparr>sb_total := or_default (sb_total old) (series_at (pt_total_packets t) k),
            sb_direct := or_default (sb_direct old) (series_at (pt_heard_direct t) k),
            sb_digipeated := or_default (sb_digipeated old) (series_at (pt_digipeated t) k),
            sb_errors := or_default (sb_errors old) (series_at (pt_decode_errors t) k)\<rparr>)" if "k \<in> set ks" for k
    unfolding Let_def using p that packet_bucket_value by blast
  moreover have "map_of h2 k = Some (let old = or_default (default_bucket k) (map_of h k) in
        old\<lparr>sb_igated := or_default (sb_igated old) (series_at (at_packets_igated a) k),
            sb_dropped := or_default (sb_dropped old) (series_at (at_packets_dropped a) k),
            sb_rf_received := or_default (sb_rf_received old) (series_at (at_rf_received a) k),
            sb_reconnects := or_default (sb_reconnects old) (series_at (at_reconnects a) k)\<rparr>)" if "k \<in> set js" for k
    unfolding Let_def using q that aprsis_bucket_value by blast
  ultimately show ?thesis using i p q by blast
qed

theorem history_update_contract_witness:
  "\<exists>h1 h2. update_from_packet sample_packet_telemetry [(90, sample_bucket\<lparr>sb_total := 1, sb_errors := 9\<rparr>)] = (h1, [90])
     \<and> update_from_aprsis sample_aprsis_telemetry [(90, sample_bucket\<lparr>sb_total := 1, sb_errors := 9\<rparr>)] = (h2, [90])
     \<and> map_of h1 90 = Some sample_bucket \<and> history_inv h1
     \<and> map_of h2 90 = Some (sample_bucket\<lparr>sb_total := 1, sb_errors := 9\<rparr>)"
proof -
  let ?h = "[(90, sample_bucket\<lparr>sb_total := 1, sb_errors := 9\<rparr>)]"
  have inv: "history_inv ?h" by (simp add: history_inv_def om_inv_def sample_bucket_def)
  obtain h1 ks where u: "update_from_packet sample_packet_telemetry ?h = (h1, ks)" by fastforce
  obtain h2 js where v: "update_from_aprsis sample_aprsis_telemetry ?h = (h2, js)" by fastforce
  have ks: "ks = [90]" using u by (simp add: history_eval)
  have js: "js = [90]" using v by (simp add: history_eval)
  have s: "series_at (sample_series v) 90 = Some v" for v
    by (simp add: series_at_def sample_series_def point_key_def bucket_key_def bucket_secs_def
        timestamp_def nanos_per_sec_def)
  note c = history_update_contract [OF inv u v]
  have "map_of h1 90 = Some sample_bucket" "map_of h2 90 = Some (sample_bucket\<lparr>sb_total := 1, sb_errors := 9\<rparr>)"
    "history_inv h1"
    using c s unfolding ks js
    by (simp_all add: Let_def sample_packet_telemetry_def sample_aprsis_telemetry_def sample_bucket_def)
  then show ?thesis using u v unfolding ks js by blast
qed

text \<open>
  Pruning removes exactly the buckets below the cutoff, which lies a day
  (to the bucket) before now: it reports exactly the removed keys, every bucket of the last 24
  hours stays as it is, and nothing older than 24 hours and one bucket is left.
\<close>

theorem history_prune_window:
  assumes "history_inv h" and "prune now h = (h', removed)"
  shows "history_inv h'
    \<and> set removed = {k. map_of h k \<noteq> None \<and> map_of h' k = None}
    \<and> (\<forall>k. timestamp now - 86400 \<le> k \<longrightarrow> map_of h' k = map_of h k)
    \<and> (\<forall>b \<in> set (snapshot h'). timestamp now - 86400 - 15 < sb_ts b)
    \<and> sorted_wrt (<) (map sb_ts (snapshot h'))"
proof -
  have o0: "om_inv h" using assms(1) by (simp add: history_inv_lookup)
  have c: "prune_cutoff now \<le> timestamp now - 86400" "timestamp now - 86400 - 15 < prune_cutoff now"
    using bucket_key_bounds [of "timestamp now"] by (simp_all add: prune_cutoff_def retention_secs_def)
  have p: "map_of h' k = (if k < prune_cutoff now then None else map_of h k)" for k
    using prune_spec [OF o0, of now k] assms(2) by simp
  have r: "removed = filter (\<lambda>k. k < prune_cutoff now) (map fst h)"
    using prune_spec [OF o0, of now] assms(2) by simp
  have inv: "history_inv h'" using prune_inv [OF assms(1), of now] assms(2) by simp
  have "set removed = {k. map_of h k \<noteq> None \<and> map_of h' k = None}"
    using om.keys_iff [OF o0] by (auto simp: r p split: if_splits)
  moreover have "timestamp now - 86400 - 15 < sb_ts b" if "b \<in> set (snapshot h')" for b
    using snapshot_mem [OF inv that] c p [of "sb_ts b"] by (simp split: if_splits)
  ultimately show ?thesis using inv c p snapshot_sorted [OF inv] by auto
qed

theorem history_prune_window_witness:
  "snd (prune (100000 * 1000000000) [(90, sample_bucket), (90000, sample_bucket\<lparr>sb_ts := 90000\<rparr>)]) = [90]
   \<and> history_inv (fst (prune (100000 * 1000000000) [(90, sample_bucket), (90000, sample_bucket\<lparr>sb_ts := 90000\<rparr>)]))"
proof -
  let ?h = "[(90, sample_bucket), (90000, sample_bucket\<lparr>sb_ts := 90000\<rparr>)]"
  have inv: "history_inv ?h" by (simp add: history_inv_def om_inv_def sample_bucket_def)
  obtain h' r where p: "prune (100000 * 1000000000) ?h = (h', r)" by fastforce
  then have "r = [90]" by (simp add: prune_def history_eval retention_secs_def)
  with history_prune_window [OF inv p] p show ?thesis by simp
qed

text \<open>
  Rebuilding the history from its snapshot, as a restart does from the
  database, gives the same history back.
\<close>

theorem history_rebuild:
  assumes "history_inv h"
  shows "from_buckets (snapshot h) = h"
  by (rule from_buckets_snapshot) (fact assms)

theorem history_rebuild_witness:
  "from_buckets (snapshot [(90, sample_bucket)]) = [(90, sample_bucket)]"
  by (rule history_rebuild) (simp add: history_inv_def om_inv_def sample_bucket_def)

end
