(* ===== verification/Store_Records.thy ===== *)
theory Store_Records
  imports Stat_History Rx_Packet
begin

text \<open>
  The rows of the statistics database (first half of \<open>src/store.rs\<close>): the record types of the
  tables, the migrations between the four versions of the packet row, and the conversions to and
  from the runtime types. The lemmas say what a conversion there and back keeps.

  Parameter: \<open>from_us\<close>, chrono's \<open>from_timestamp_micros\<close>, which fails outside its range.
\<close>

section \<open>Singletons\<close>

record packet_lifetime =
  pl_id :: u8
  pl_total :: u64
  pl_heard_direct :: u64
  pl_digipeated :: u64
  pl_decode_errors :: u64

record aprsis_lifetime =
  al_id :: u8
  al_rf_received :: u64
  al_packets_igated :: u64
  al_packets_dropped :: u64
  al_reconnects :: u64
  al_drops_stale :: u64
  al_drops_rfonly :: u64
  al_drops_query :: u64
  al_drops_thirdparty :: u64
  al_drops_sat :: u64
  al_drops_duplicate :: u64
  al_drops_malformed :: u64
  al_lagged_drops :: u64

record slicer_interval_rec =
  sir_ts_micros :: int
  sir_counts :: "u32 list"

record slicer_state =
  ss_id :: u8
  ss_slicer_count :: u64
  ss_slicer_gains :: "f32 list"
  ss_lifetime_hits :: "u64 list"
  ss_history :: "slicer_interval_rec list"

record restored_slicer =
  rs_lifetime_hits :: "u64 list"
  rs_history :: "slicer_interval list"

record telemetry_seq =
  ts_id :: u8
  ts_seq :: u32

definition default_packet_lifetime :: packet_lifetime where
  "default_packet_lifetime = \<lparr> pl_id = 0, pl_total = 0, pl_heard_direct = 0, pl_digipeated = 0,
     pl_decode_errors = 0 \<rparr>"

definition default_aprsis_lifetime :: aprsis_lifetime where
  "default_aprsis_lifetime = \<lparr> al_id = 0, al_rf_received = 0, al_packets_igated = 0,
     al_packets_dropped = 0, al_reconnects = 0, al_drops_stale = 0, al_drops_rfonly = 0,
     al_drops_query = 0, al_drops_thirdparty = 0, al_drops_sat = 0, al_drops_duplicate = 0,
     al_drops_malformed = 0, al_lagged_drops = 0 \<rparr>"

section \<open>Keyed tables\<close>

record station_rec =
  sr_callsign :: string
  sr_transmitted_by :: "string option"
  sr_last_heard_micros :: int
  sr_frequency :: f64
  sr_latitude :: "f64 option"
  sr_longitude :: "f64 option"
  sr_altitude_ft :: "f64 option"
  sr_heard_direct :: bool
  sr_position_path :: "string list"
  sr_position_hops :: u32
  sr_altitude_path :: "string list"
  sr_altitude_hops :: u32
  sr_symbol_table :: "rchar option"
  sr_symbol_code :: "rchar option"
  sr_count :: u64
  sr_count_direct :: u64
  sr_count_digipeated :: u64

record history_bucket_rec =
  hb_ts :: int
  hb_total :: u32
  hb_direct :: u32
  hb_digipeated :: u32
  hb_errors :: u32
  hb_igated :: u32
  hb_dropped :: u32
  hb_rf_received :: u32
  hb_reconnects :: u32

record sat_packet_rec =
  sp_key_micros :: int
  sp_raw :: string
  sp_info :: string
  sp_path :: string
  sp_digipeater_path :: "string list"
  sp_hops :: u32
  sp_ptype :: rchar
  sp_source :: string
  sp_destination :: string
  sp_heard_direct :: bool
  sp_heardfrom :: string
  sp_was_digipeated :: bool
  sp_rfonly :: bool
  sp_frequency :: f64
  sp_is_satellite :: bool
  sp_igated :: bool
  sp_info_invalid_bytes :: u64
  sp_object_name :: "string option"
  sp_latitude :: "f64 option"
  sp_longitude :: "f64 option"
  sp_altitude_ft :: "f64 option"
record freq_rec =
  fq_frequency :: string
  fq_count :: u64
  fq_last_heard_micros :: int

record watched_station_rec =
  ws_callsign :: string
  ws_added_micros :: int

text \<open>The packet row, in its four versions.\<close>

record packet_rec_v1 =
  r1_key_micros :: int
  r1_source :: string
  r1_raw :: string
  r1_info :: string
  r1_path :: string
  r1_digipeater_path :: "string list"
  r1_hops :: u32
  r1_ptype :: rchar
  r1_destination :: string
  r1_heard_direct :: bool
  r1_heardfrom :: string
  r1_was_digipeated :: bool
  r1_rfonly :: bool
  r1_frequency :: f64
  r1_is_satellite :: bool
  r1_igated :: bool
  r1_info_invalid_bytes :: u64
  r1_object_name :: "string option"
  r1_latitude :: "f64 option"
  r1_longitude :: "f64 option"
  r1_altitude_ft :: "f64 option"

record packet_rec_v2 =
  r2_key_micros :: int
  r2_source :: string
  r2_raw :: string
  r2_info :: string
  r2_path :: string
  r2_digipeater_path :: "string list"
  r2_hops :: u32
  r2_ptype :: rchar
  r2_destination :: string
  r2_heard_direct :: bool
  r2_heardfrom :: string
  r2_was_digipeated :: bool
  r2_rfonly :: bool
  r2_frequency :: f64
  r2_is_satellite :: bool
  r2_igated :: bool
  r2_info_invalid_bytes :: u64
  r2_object_name :: "string option"
  r2_latitude :: "f64 option"
  r2_longitude :: "f64 option"
  r2_altitude_ft :: "f64 option"
  r2_twist_cols :: u32
  r2_twist_mask :: u16
  r2_twist_zones :: "u8 list"
  r2_twist_centroid_db :: f32

record packet_rec_v3 =
  r3_key_micros :: int
  r3_source :: string
  r3_raw :: string
  r3_info :: string
  r3_path :: string
  r3_digipeater_path :: "string list"
  r3_hops :: u32
  r3_ptype :: rchar
  r3_destination :: string
  r3_heard_direct :: bool
  r3_heardfrom :: string
  r3_was_digipeated :: bool
  r3_rfonly :: bool
  r3_frequency :: f64
  r3_is_satellite :: bool
  r3_igated :: bool
  r3_info_invalid_bytes :: u64
  r3_object_name :: "string option"
  r3_latitude :: "f64 option"
  r3_longitude :: "f64 option"
  r3_altitude_ft :: "f64 option"
  r3_twist_cols :: u32
  r3_twist_mask :: u16
  r3_twist_zones :: "u8 list"
  r3_twist_centroid_db :: f32
  r3_speed_mph :: "f64 option"
  r3_course_deg :: "u16 option"

record packet_rec =
  r4_key_micros :: int
  r4_source :: string
  r4_raw :: string
  r4_info :: string
  r4_path :: string
  r4_digipeater_path :: "string list"
  r4_hops :: u32
  r4_ptype :: rchar
  r4_destination :: string
  r4_heard_direct :: bool
  r4_heardfrom :: string
  r4_was_digipeated :: bool
  r4_rfonly :: bool
  r4_frequency :: f64
  r4_is_satellite :: bool
  r4_igated :: bool
  r4_info_invalid_bytes :: u64
  r4_object_name :: "string option"
  r4_latitude :: "f64 option"
  r4_longitude :: "f64 option"
  r4_altitude_ft :: "f64 option"
  r4_twist_cols :: u32
  r4_twist_mask :: u16
  r4_twist_zones :: "u8 list"
  r4_twist_centroid_db :: f32
  r4_speed_mph :: "f64 option"
  r4_course_deg :: "u16 option"
  r4_snr_db :: "f32 option"

section \<open>Migrations\<close>

text \<open>Each step up fills the new fields with defaults; each step down drops them.\<close>

definition upgrade_v1 :: "packet_rec_v1 \<Rightarrow> packet_rec_v2" where
  "upgrade_v1 v =
     \<lparr> r2_key_micros = r1_key_micros v, r2_source = r1_source v, r2_raw = r1_raw v,
       r2_info = r1_info v, r2_path = r1_path v, r2_digipeater_path = r1_digipeater_path v,
       r2_hops = r1_hops v, r2_ptype = r1_ptype v, r2_destination = r1_destination v,
       r2_heard_direct = r1_heard_direct v, r2_heardfrom = r1_heardfrom v,
       r2_was_digipeated = r1_was_digipeated v, r2_rfonly = r1_rfonly v,
       r2_frequency = r1_frequency v, r2_is_satellite = r1_is_satellite v,
       r2_igated = r1_igated v, r2_info_invalid_bytes = r1_info_invalid_bytes v,
       r2_object_name = r1_object_name v, r2_latitude = r1_latitude v,
       r2_longitude = r1_longitude v, r2_altitude_ft = r1_altitude_ft v, r2_twist_cols = 0,
       r2_twist_mask = 0, r2_twist_zones = [], r2_twist_centroid_db = Fin 0 \<rparr>"

definition downgrade_v2 :: "packet_rec_v2 \<Rightarrow> packet_rec_v1" where
  "downgrade_v2 v =
     \<lparr> r1_key_micros = r2_key_micros v, r1_source = r2_source v, r1_raw = r2_raw v,
       r1_info = r2_info v, r1_path = r2_path v, r1_digipeater_path = r2_digipeater_path v,
       r1_hops = r2_hops v, r1_ptype = r2_ptype v, r1_destination = r2_destination v,
       r1_heard_direct = r2_heard_direct v, r1_heardfrom = r2_heardfrom v,
       r1_was_digipeated = r2_was_digipeated v, r1_rfonly = r2_rfonly v,
       r1_frequency = r2_frequency v, r1_is_satellite = r2_is_satellite v,
       r1_igated = r2_igated v, r1_info_invalid_bytes = r2_info_invalid_bytes v,
       r1_object_name = r2_object_name v, r1_latitude = r2_latitude v,
       r1_longitude = r2_longitude v, r1_altitude_ft = r2_altitude_ft v \<rparr>"

definition upgrade_v2 :: "packet_rec_v2 \<Rightarrow> packet_rec_v3" where
  "upgrade_v2 v =
     \<lparr> r3_key_micros = r2_key_micros v, r3_source = r2_source v, r3_raw = r2_raw v,
       r3_info = r2_info v, r3_path = r2_path v, r3_digipeater_path = r2_digipeater_path v,
       r3_hops = r2_hops v, r3_ptype = r2_ptype v, r3_destination = r2_destination v,
       r3_heard_direct = r2_heard_direct v, r3_heardfrom = r2_heardfrom v,
       r3_was_digipeated = r2_was_digipeated v, r3_rfonly = r2_rfonly v,
       r3_frequency = r2_frequency v, r3_is_satellite = r2_is_satellite v,
       r3_igated = r2_igated v, r3_info_invalid_bytes = r2_info_invalid_bytes v,
       r3_object_name = r2_object_name v, r3_latitude = r2_latitude v,
       r3_longitude = r2_longitude v, r3_altitude_ft = r2_altitude_ft v,
       r3_twist_cols = r2_twist_cols v, r3_twist_mask = r2_twist_mask v,
       r3_twist_zones = r2_twist_zones v, r3_twist_centroid_db = r2_twist_centroid_db v,
       r3_speed_mph = None, r3_course_deg = None \<rparr>"

definition downgrade_v3 :: "packet_rec_v3 \<Rightarrow> packet_rec_v2" where
  "downgrade_v3 v =
     \<lparr> r2_key_micros = r3_key_micros v, r2_source = r3_source v, r2_raw = r3_raw v,
       r2_info = r3_info v, r2_path = r3_path v, r2_digipeater_path = r3_digipeater_path v,
       r2_hops = r3_hops v, r2_ptype = r3_ptype v, r2_destination = r3_destination v,
       r2_heard_direct = r3_heard_direct v, r2_heardfrom = r3_heardfrom v,
       r2_was_digipeated = r3_was_digipeated v, r2_rfonly = r3_rfonly v,
       r2_frequency = r3_frequency v, r2_is_satellite = r3_is_satellite v,
       r2_igated = r3_igated v, r2_info_invalid_bytes = r3_info_invalid_bytes v,
       r2_object_name = r3_object_name v, r2_latitude = r3_latitude v,
       r2_longitude = r3_longitude v, r2_altitude_ft = r3_altitude_ft v,
       r2_twist_cols = r3_twist_cols v, r2_twist_mask = r3_twist_mask v,
       r2_twist_zones = r3_twist_zones v, r2_twist_centroid_db = r3_twist_centroid_db v \<rparr>"

definition upgrade_v3 :: "packet_rec_v3 \<Rightarrow> packet_rec" where
  "upgrade_v3 v =
     \<lparr> r4_key_micros = r3_key_micros v, r4_source = r3_source v, r4_raw = r3_raw v,
       r4_info = r3_info v, r4_path = r3_path v, r4_digipeater_path = r3_digipeater_path v,
       r4_hops = r3_hops v, r4_ptype = r3_ptype v, r4_destination = r3_destination v,
       r4_heard_direct = r3_heard_direct v, r4_heardfrom = r3_heardfrom v,
       r4_was_digipeated = r3_was_digipeated v, r4_rfonly = r3_rfonly v,
       r4_frequency = r3_frequency v, r4_is_satellite = r3_is_satellite v,
       r4_igated = r3_igated v, r4_info_invalid_bytes = r3_info_invalid_bytes v,
       r4_object_name = r3_object_name v, r4_latitude = r3_latitude v,
       r4_longitude = r3_longitude v, r4_altitude_ft = r3_altitude_ft v,
       r4_twist_cols = r3_twist_cols v, r4_twist_mask = r3_twist_mask v,
       r4_twist_zones = r3_twist_zones v, r4_twist_centroid_db = r3_twist_centroid_db v,
       r4_speed_mph = r3_speed_mph v, r4_course_deg = r3_course_deg v, r4_snr_db = None \<rparr>"

definition downgrade_v4 :: "packet_rec \<Rightarrow> packet_rec_v3" where
  "downgrade_v4 v =
     \<lparr> r3_key_micros = r4_key_micros v, r3_source = r4_source v, r3_raw = r4_raw v,
       r3_info = r4_info v, r3_path = r4_path v, r3_digipeater_path = r4_digipeater_path v,
       r3_hops = r4_hops v, r3_ptype = r4_ptype v, r3_destination = r4_destination v,
       r3_heard_direct = r4_heard_direct v, r3_heardfrom = r4_heardfrom v,
       r3_was_digipeated = r4_was_digipeated v, r3_rfonly = r4_rfonly v,
       r3_frequency = r4_frequency v, r3_is_satellite = r4_is_satellite v,
       r3_igated = r4_igated v, r3_info_invalid_bytes = r4_info_invalid_bytes v,
       r3_object_name = r4_object_name v, r3_latitude = r4_latitude v,
       r3_longitude = r4_longitude v, r3_altitude_ft = r4_altitude_ft v,
       r3_twist_cols = r4_twist_cols v, r3_twist_mask = r4_twist_mask v,
       r3_twist_zones = r4_twist_zones v, r3_twist_centroid_db = r4_twist_centroid_db v,
       r3_speed_mph = r4_speed_mph v, r3_course_deg = r4_course_deg v \<rparr>"
section \<open>Conversions\<close>

definition to_micros :: "datetime \<Rightarrow> int" where
  "to_micros dt = timestamp_micros dt"

definition from_micros :: "(int \<Rightarrow> datetime option) \<Rightarrow> int \<Rightarrow> datetime" where
  "from_micros from_us micros = or_default 0 (from_us micros)"

definition station_from_entry :: "station_entry \<Rightarrow> station_rec" where
  "station_from_entry s =
     \<lparr> sr_callsign = se_callsign s, sr_transmitted_by = se_transmitted_by s,
       sr_last_heard_micros = to_micros (se_last_heard s), sr_frequency = se_frequency s,
       sr_latitude = se_latitude s, sr_longitude = se_longitude s,
       sr_altitude_ft = se_altitude_ft s, sr_heard_direct = se_heard_direct s,
       sr_position_path = se_position_path s, sr_position_hops = se_position_hops s,
       sr_altitude_path = se_altitude_path s, sr_altitude_hops = se_altitude_hops s,
       sr_symbol_table = se_symbol_table s, sr_symbol_code = se_symbol_code s,
       sr_count = se_count s, sr_count_direct = se_count_direct s,
       sr_count_digipeated = se_count_digipeated s \<rparr>"

definition station_into_entry :: "(int \<Rightarrow> datetime option) \<Rightarrow> station_rec \<Rightarrow> station_entry" where
  "station_into_entry from_us r =
     \<lparr> se_callsign = sr_callsign r, se_transmitted_by = sr_transmitted_by r,
       se_last_heard = from_micros from_us (sr_last_heard_micros r),
       se_frequency = sr_frequency r, se_latitude = sr_latitude r, se_longitude = sr_longitude r,
       se_altitude_ft = sr_altitude_ft r, se_heard_direct = sr_heard_direct r,
       se_position_path = sr_position_path r, se_position_hops = sr_position_hops r,
       se_altitude_path = sr_altitude_path r, se_altitude_hops = sr_altitude_hops r,
       se_symbol_table = sr_symbol_table r, se_symbol_code = sr_symbol_code r,
       se_count = sr_count r, se_count_direct = sr_count_direct r,
       se_count_digipeated = sr_count_digipeated r \<rparr>"

definition bucket_rec_of :: "stat_bucket \<Rightarrow> history_bucket_rec" where
  "bucket_rec_of b =
     \<lparr> hb_ts = sb_ts b, hb_total = sb_total b, hb_direct = sb_direct b,
       hb_digipeated = sb_digipeated b, hb_errors = sb_errors b, hb_igated = sb_igated b,
       hb_dropped = sb_dropped b, hb_rf_received = sb_rf_received b,
       hb_reconnects = sb_reconnects b \<rparr>"

definition bucket_of_rec :: "history_bucket_rec \<Rightarrow> stat_bucket" where
  "bucket_of_rec r =
     \<lparr> sb_ts = hb_ts r, sb_total = hb_total r, sb_direct = hb_direct r,
       sb_digipeated = hb_digipeated r, sb_errors = hb_errors r, sb_igated = hb_igated r,
       sb_dropped = hb_dropped r, sb_rf_received = hb_rf_received r,
       sb_reconnects = hb_reconnects r \<rparr>"

definition sat_from_packet :: "rtp_packet \<Rightarrow> sat_packet_rec" where
  "sat_from_packet p =
     \<lparr> sp_key_micros = to_micros (p_receivetime p), sp_raw = p_raw p, sp_info = p_info p,
       sp_path = p_path p, sp_digipeater_path = p_digipeater_path p, sp_hops = p_hops p,
       sp_ptype = p_ptype p, sp_source = p_source p, sp_destination = p_destination p,
       sp_heard_direct = p_heard_direct p, sp_heardfrom = p_heardfrom p,
       sp_was_digipeated = p_was_digipeated p, sp_rfonly = p_rfonly p,
       sp_frequency = p_frequency p, sp_is_satellite = p_is_satellite p, sp_igated = p_igated p,
       sp_info_invalid_bytes = of_nat (p_info_invalid_bytes p), sp_object_name = p_object_name p,
       sp_latitude = p_latitude p, sp_longitude = p_longitude p,
       sp_altitude_ft = p_altitude_ft p \<rparr>"

definition sat_into_packet :: "(int \<Rightarrow> datetime option) \<Rightarrow> instant \<Rightarrow> sat_packet_rec \<Rightarrow> rtp_packet" where
  "sat_into_packet from_us now r =
     \<lparr> p_receivetime = from_micros from_us (sp_key_micros r), p_received_instant = now,
       p_raw = sp_raw r, p_info = sp_info r, p_info_bytes = [], p_path = sp_path r,
       p_digipeater_path = sp_digipeater_path r, p_hops = sp_hops r, p_ptype = sp_ptype r,
       p_source = sp_source r, p_destination = sp_destination r,
       p_heard_direct = sp_heard_direct r, p_heardfrom = sp_heardfrom r,
       p_was_digipeated = sp_was_digipeated r, p_rfonly = sp_rfonly r,
       p_frequency = sp_frequency r, p_is_satellite = sp_is_satellite r, p_igated = sp_igated r,
       p_info_invalid_bytes = unat (sp_info_invalid_bytes r), p_object_name = sp_object_name r,
       p_latitude = sp_latitude r, p_longitude = sp_longitude r,
       p_altitude_ft = sp_altitude_ft r, p_speed_mph = None, p_course_deg = None,
       p_snr_db = None, p_slicer_mask = 0, p_twist = None \<rparr>"

definition packet_from_packet :: "rtp_packet \<Rightarrow> packet_rec" where
  "packet_from_packet p =
     (let (cols, mask, zones, centroid) = (case p_twist p of
            Some t \<Rightarrow> (of_nat (tw_cols t), tw_mask t, tw_zones t, tw_centroid_db t)
          | None \<Rightarrow> (0, 0, [], Fin 0))
      in
     \<lparr> r4_key_micros = to_micros (p_receivetime p), r4_source = p_source p,
       r4_raw = p_raw p, r4_info = p_info p, r4_path = p_path p,
       r4_digipeater_path = p_digipeater_path p, r4_hops = p_hops p, r4_ptype = p_ptype p,
       r4_destination = p_destination p, r4_heard_direct = p_heard_direct p,
       r4_heardfrom = p_heardfrom p, r4_was_digipeated = p_was_digipeated p,
       r4_rfonly = p_rfonly p, r4_frequency = p_frequency p, r4_is_satellite = p_is_satellite p,
       r4_igated = p_igated p, r4_info_invalid_bytes = of_nat (p_info_invalid_bytes p),
       r4_object_name = p_object_name p, r4_latitude = p_latitude p,
       r4_longitude = p_longitude p, r4_altitude_ft = p_altitude_ft p, r4_twist_cols = cols,
       r4_twist_mask = mask, r4_twist_zones = zones, r4_twist_centroid_db = centroid,
       r4_speed_mph = p_speed_mph p, r4_course_deg = p_course_deg p,
       r4_snr_db = p_snr_db p \<rparr>)"

definition packet_into_packet :: "(int \<Rightarrow> datetime option) \<Rightarrow> instant \<Rightarrow> packet_rec \<Rightarrow> rtp_packet" where
  "packet_into_packet from_us now r =
     (let tw = (if 0 < r4_twist_cols r
                then Some \<lparr> tw_cols = unat (r4_twist_cols r), tw_mask = r4_twist_mask r,
                            tw_zones = r4_twist_zones r, tw_centroid_db = r4_twist_centroid_db r \<rparr>
                else None)
      in
     \<lparr> p_receivetime = from_micros from_us (r4_key_micros r), p_received_instant = now,
       p_raw = r4_raw r, p_info = r4_info r, p_info_bytes = [], p_path = r4_path r,
       p_digipeater_path = r4_digipeater_path r, p_hops = r4_hops r, p_ptype = r4_ptype r,
       p_source = r4_source r, p_destination = r4_destination r,
       p_heard_direct = r4_heard_direct r, p_heardfrom = r4_heardfrom r,
       p_was_digipeated = r4_was_digipeated r, p_rfonly = r4_rfonly r,
       p_frequency = r4_frequency r, p_is_satellite = r4_is_satellite r, p_igated = r4_igated r,
       p_info_invalid_bytes = unat (r4_info_invalid_bytes r), p_object_name = r4_object_name r,
       p_latitude = r4_latitude r, p_longitude = r4_longitude r,
       p_altitude_ft = r4_altitude_ft r, p_speed_mph = r4_speed_mph r,
       p_course_deg = r4_course_deg r, p_snr_db = r4_snr_db r, p_slicer_mask = 0,
       p_twist = tw \<rparr>)"

section \<open>Migrations up and down\<close>

definition upgrade_row :: "packet_rec_v1 \<Rightarrow> packet_rec" where
  "upgrade_row v = upgrade_v3 (upgrade_v2 (upgrade_v1 v))"

definition downgrade_row :: "packet_rec \<Rightarrow> packet_rec_v1" where
  "downgrade_row v = downgrade_v2 (downgrade_v3 (downgrade_v4 v))"

lemma downgrade_upgrade [simp]:
  "downgrade_v2 (upgrade_v1 a) = a" "downgrade_v3 (upgrade_v2 b) = b" "downgrade_v4 (upgrade_v3 c) = c"
  by (simp_all add: downgrade_v2_def upgrade_v1_def downgrade_v3_def upgrade_v2_def downgrade_v4_def
      upgrade_v3_def)

section \<open>Times\<close>

text \<open>The stored form of a time: its microseconds.\<close>

definition to_whole_micros :: "datetime \<Rightarrow> datetime" where
  "to_whole_micros t = to_micros t * 1000"

lemma to_micros_whole [simp]: "to_micros (to_whole_micros t) = to_micros t"
  by (simp add: to_whole_micros_def to_micros_def timestamp_micros_def)

lemma to_whole_micros_idem [simp]: "to_whole_micros (to_whole_micros t) = to_whole_micros t"
  by (simp add: to_whole_micros_def [of "to_whole_micros t"]) (simp add: to_whole_micros_def)

lemma to_whole_micros_bounds: "to_whole_micros t \<le> t \<and> t < to_whole_micros t + 1000"
proof -
  have "0 \<le> t mod 1000" "t mod 1000 < 1000" by simp_all
  moreover have "t div 1000 * 1000 + t mod 1000 = t" by simp
  ultimately show ?thesis unfolding to_whole_micros_def to_micros_def timestamp_micros_def by linarith
qed

text \<open>The law of chrono's conversion for the times in \<open>dom_ok\<close>.\<close>

definition micros_ok :: "(int \<Rightarrow> datetime option) \<Rightarrow> (int \<Rightarrow> bool) \<Rightarrow> bool" where
  "micros_ok from_us dom_ok = (\<forall>m. dom_ok m \<longrightarrow> from_us m = Some (m * 1000))"

lemma from_to_micros: "micros_ok from_us dom_ok \<Longrightarrow> dom_ok (to_micros t) \<Longrightarrow> from_micros from_us (to_micros t) = to_whole_micros t"
  by (simp add: micros_ok_def from_micros_def to_whole_micros_def)

lemma to_from_micros: "micros_ok from_us dom_ok \<Longrightarrow> dom_ok m \<Longrightarrow> to_micros (from_micros from_us m) = m"
  by (simp add: micros_ok_def from_micros_def to_micros_def timestamp_micros_def)

section \<open>There and back\<close>

lemma bucket_of_rec_of [simp]: "bucket_of_rec (bucket_rec_of b) = b"
  by (simp add: bucket_of_rec_def bucket_rec_of_def)

lemma bucket_rec_of_rec [simp]: "bucket_rec_of (bucket_of_rec r) = r"
  by (simp add: bucket_of_rec_def bucket_rec_of_def)

lemma station_roundtrip:
  "micros_ok from_us dom_ok \<Longrightarrow> dom_ok (to_micros (se_last_heard s)) \<Longrightarrow>
     station_into_entry from_us (station_from_entry s) = s\<lparr>se_last_heard := to_whole_micros (se_last_heard s)\<rparr>"
  by (simp add: station_into_entry_def station_from_entry_def from_to_micros)

lemma station_roundtrip_rec:
  "micros_ok from_us dom_ok \<Longrightarrow> dom_ok (sr_last_heard_micros r) \<Longrightarrow>
     station_from_entry (station_into_entry from_us r) = r"
  by (simp add: station_into_entry_def station_from_entry_def to_from_micros)

text \<open>
  What a stored packet keeps: everything the front end reads. The raw payload, the slicer mask
  and the monotonic stamp are gone, and times are whole microseconds.
\<close>

definition stored_view :: "instant \<Rightarrow> rtp_packet \<Rightarrow> rtp_packet" where
  "stored_view now p = p\<lparr>p_receivetime := to_whole_micros (p_receivetime p), p_received_instant := now,
     p_info_bytes := [], p_slicer_mask := 0\<rparr>"

definition twist_storable :: "twist_info option \<Rightarrow> bool" where
  "twist_storable tw = (case tw of None \<Rightarrow> True | Some t \<Rightarrow> 0 < tw_cols t \<and> tw_cols t < 2 ^ 32)"

lemma packet_roundtrip:
  assumes "micros_ok from_us dom_ok" and "dom_ok (to_micros (p_receivetime p))"
    and "p_info_invalid_bytes p < 2 ^ 64" and "twist_storable (p_twist p)"
  shows "packet_into_packet from_us now (packet_from_packet p) = stored_view now p"
proof -
  have i: "unat (of_nat (p_info_invalid_bytes p) :: u64) = p_info_invalid_bytes p"
    using assms(3) by (simp add: unat_of_nat)
  show ?thesis
  proof (cases "p_twist p")
    case None
    with i from_to_micros [OF assms(1,2)] show ?thesis
      by (simp add: packet_into_packet_def packet_from_packet_def stored_view_def)
  next
    case (Some t)
    then have "unat (of_nat (tw_cols t) :: u32) = tw_cols t" "0 < tw_cols t"
      using assms(4) by (simp_all add: twist_storable_def unat_of_nat)
    moreover from this have "0 < (of_nat (tw_cols t) :: u32)"
      by (metis unat_0 word_gt_0 less_irrefl)
    ultimately show ?thesis using Some i from_to_micros [OF assms(1,2)]
      by (simp add: packet_into_packet_def packet_from_packet_def stored_view_def)
  qed
qed

text \<open>A satellite row keeps less: speed, course, signal-to-noise ratio and twist are lost too.\<close>

lemma sat_roundtrip:
  assumes "micros_ok from_us dom_ok" and "dom_ok (to_micros (p_receivetime p))"
    and "p_info_invalid_bytes p < 2 ^ 64"
  shows "sat_into_packet from_us now (sat_from_packet p)
    = (stored_view now p)\<lparr>p_speed_mph := None, p_course_deg := None, p_snr_db := None, p_twist := None\<rparr>"
proof -
  have "unat (of_nat (p_info_invalid_bytes p) :: u64) = p_info_invalid_bytes p"
    using assms(3) by (simp add: unat_of_nat)
  then show ?thesis using from_to_micros [OF assms(1,2)]
    by (simp add: sat_into_packet_def sat_from_packet_def stored_view_def)
qed

section \<open>Properties\<close>

text \<open>
  A row written by the first version survives the upgrade to the current
  version and back unchanged, at every step; an upgraded row has no twist, course, speed or
  signal-to-noise ratio and keeps its key and its source.
\<close>

theorem row_migrations:
  "downgrade_row (upgrade_row v) = v
   \<and> downgrade_v2 (upgrade_v1 v) = v \<and> downgrade_v3 (upgrade_v2 w) = w \<and> downgrade_v4 (upgrade_v3 x) = x
   \<and> r4_key_micros (upgrade_row v) = r1_key_micros v \<and> r4_source (upgrade_row v) = r1_source v
   \<and> p_twist (packet_into_packet from_us now (upgrade_row v)) = None
   \<and> p_speed_mph (packet_into_packet from_us now (upgrade_row v)) = None
   \<and> p_snr_db (packet_into_packet from_us now (upgrade_row v)) = None"
  by (simp add: downgrade_row_def upgrade_row_def)
    (simp add: upgrade_v1_def upgrade_v2_def upgrade_v3_def packet_into_packet_def)

text \<open>
  C14. A packet read back from its row is the packet that was stored, with its
  time in whole microseconds and without the three live-path fields, the twist bar included.
\<close>

theorem packet_row_roundtrip:
  assumes "micros_ok from_us dom_ok" and "dom_ok (to_micros (p_receivetime p))"
    and "p_info_invalid_bytes p < 2 ^ 64" and "twist_storable (p_twist p)"
  shows "packet_into_packet from_us now (packet_from_packet p) = stored_view now p"
  by (rule packet_roundtrip) (fact assms)+

definition plain_packet :: rtp_packet where
  "plain_packet = \<lparr> p_receivetime = 1700000000 * 1000000000, p_received_instant = 5, p_raw = ''A>B:x'',
     p_info = ''x'', p_info_bytes = ''x'', p_path = [], p_digipeater_path = [], p_hops = 0, p_ptype = 120,
     p_source = ''A'', p_destination = ''B'', p_heard_direct = True, p_heardfrom = ''A'',
     p_was_digipeated = False, p_rfonly = False, p_frequency = Fin 145, p_is_satellite = False,
     p_igated = True, p_info_invalid_bytes = 2, p_object_name = None, p_latitude = Some (Fin 39),
     p_longitude = None, p_altitude_ft = None, p_speed_mph = Some (Fin 3), p_course_deg = Some 90,
     p_snr_db = None, p_slicer_mask = 3,
     p_twist = Some \<lparr> tw_cols = 2, tw_mask = 3, tw_zones = [0, 1], tw_centroid_db = Fin 0 \<rparr> \<rparr>"

text \<open>A conversion that obeys the law for the times of about 290,000 years around the epoch.\<close>

definition wide_micros :: "int \<Rightarrow> datetime option" where
  "wide_micros m = (if \<bar>m\<bar> \<le> 2 ^ 63 then Some (m * 1000) else None)"

lemma wide_micros_ok: "micros_ok wide_micros (\<lambda>m. \<bar>m\<bar> \<le> 2 ^ 63)"
  by (simp add: micros_ok_def wide_micros_def)

theorem packet_row_roundtrip_witness:
  "packet_into_packet wide_micros 9 (packet_from_packet plain_packet)
     = plain_packet\<lparr>p_received_instant := 9, p_info_bytes := [], p_slicer_mask := 0\<rparr>"
  using packet_row_roundtrip [OF wide_micros_ok, of plain_packet 9]
  by (simp add: plain_packet_def twist_storable_def stored_view_def to_whole_micros_def to_micros_def
      timestamp_micros_def)

end
