(* ===== verification/Stat_Store.thy ===== *)
theory Stat_Store
  imports Store_Records "HOL-Library.List_Lexorder" "HOL-Library.Char_ord" "HOL-Library.Product_Lexorder"
begin

text \<open>
  The statistics store (second half of \<open>src/store.rs\<close>): one operation per method of \<open>Store\<close>, over
  the database.

  The database is native_db, which is not part of the repository: its state is of a type \<open>'d\<close>,
  its transactions and reads are the fields of the parameter \<open>native_db\<close>, and the locale
  \<open>native_db_laws\<close> states what its documentation promises: a transaction applies all of its
  writes or, when it fails, none; a read returns what is stored, a scan in key order. A
  transaction is the list of its writes; a removal removes the row if it is there. The locale
  \<open>keyed_table\<close> is what the tasks rely on: a table as a map, written row by row. It holds of
  each table under the laws. An in-memory database satisfies them.
\<close>

section \<open>Tables, keys and rows\<close>

datatype db_table = T_PacketLifetime | T_AprsisLifetime | T_Slicer | T_Seq | T_Station | T_Freq
  | T_Bucket | T_Sat | T_Watched | T_Packet

datatype db_key = K_Id db_table u8 | K_Str db_table string | K_Int db_table int

datatype db_row =
    R_PacketLifetime packet_lifetime
  | R_AprsisLifetime aprsis_lifetime
  | R_Slicer slicer_state
  | R_Seq telemetry_seq
  | R_Station station_rec
  | R_Freq freq_rec
  | R_Bucket history_bucket_rec
  | R_Sat sat_packet_rec
  | R_Watched watched_station_rec
  | R_Packet packet_rec

text \<open>The primary key of a row.\<close>

fun row_key :: "db_row \<Rightarrow> db_key" where
  "row_key (R_PacketLifetime v) = K_Id T_PacketLifetime (pl_id v)"
| "row_key (R_AprsisLifetime v) = K_Id T_AprsisLifetime (al_id v)"
| "row_key (R_Slicer v) = K_Id T_Slicer (ss_id v)"
| "row_key (R_Seq v) = K_Id T_Seq (ts_id v)"
| "row_key (R_Station v) = K_Str T_Station (sr_callsign v)"
| "row_key (R_Freq v) = K_Str T_Freq (fq_frequency v)"
| "row_key (R_Bucket v) = K_Int T_Bucket (hb_ts v)"
| "row_key (R_Sat v) = K_Int T_Sat (sp_key_micros v)"
| "row_key (R_Watched v) = K_Str T_Watched (ws_callsign v)"
| "row_key (R_Packet v) = K_Int T_Packet (r4_key_micros v)"

fun key_table :: "db_key \<Rightarrow> db_table" where
  "key_table (K_Id t _) = t"
| "key_table (K_Str t _) = t"
| "key_table (K_Int t _) = t"

text \<open>Keys are ordered within a table: integers by value, strings bytewise.\<close>

fun table_index :: "db_table \<Rightarrow> nat" where
  "table_index T_PacketLifetime = 0"
| "table_index T_AprsisLifetime = 1"
| "table_index T_Slicer = 2"
| "table_index T_Seq = 3"
| "table_index T_Station = 4"
| "table_index T_Freq = 5"
| "table_index T_Bucket = 6"
| "table_index T_Sat = 7"
| "table_index T_Watched = 8"
| "table_index T_Packet = 9"

fun key_rank :: "db_key \<Rightarrow> nat \<times> nat \<times> int \<times> string" where
  "key_rank (K_Id t i) = (table_index t, 0, uint i, [])"
| "key_rank (K_Str t s) = (table_index t, 1, 0, s)"
| "key_rank (K_Int t i) = (table_index t, 2, i, [])"

lemma table_index_inj: "table_index a = table_index b \<longleftrightarrow> a = b"
  by (cases a; cases b) simp_all

lemma key_rank_inj: "key_rank a = key_rank b \<longleftrightarrow> a = b"
  by (cases a; cases b) (auto simp: table_index_inj word_uint_eq_iff)

instantiation db_key :: linorder
begin

definition less_eq_db_key :: "db_key \<Rightarrow> db_key \<Rightarrow> bool" where
  "less_eq_db_key a b = (key_rank a \<le> key_rank b)"

definition less_db_key :: "db_key \<Rightarrow> db_key \<Rightarrow> bool" where
  "less_db_key a b = (key_rank a < key_rank b)"

instance
proof
  fix a b c :: db_key
  show "a < b \<longleftrightarrow> a \<le> b \<and> \<not> b \<le> a" by (auto simp: less_eq_db_key_def less_db_key_def less_le_not_le)
  show "a \<le> a" by (simp add: less_eq_db_key_def)
  show "a \<le> b \<Longrightarrow> b \<le> c \<Longrightarrow> a \<le> c" by (auto simp: less_eq_db_key_def)
  show "a \<le> b \<Longrightarrow> b \<le> a \<Longrightarrow> a = b" by (auto simp: less_eq_db_key_def simp flip: key_rank_inj)
  show "a \<le> b \<or> b \<le> a" by (auto simp: less_eq_db_key_def)
qed

end

lemma K_Int_less [simp]: "K_Int t i < K_Int t j \<longleftrightarrow> i < j"
  by (simp add: less_db_key_def)

section \<open>The database\<close>

text \<open>
  The writes of a transaction, and the reads: by key, of a table, of the packets of a source, and of
  the packets with a key below a bound (\<open>range(..bound)\<close>). A read in a write transaction sees what
  its writes then change, since the database has one writer at a time.
\<close>

datatype db_op = Put db_row | Del db_key

record 'd native_db =
  nd_txn :: "'d \<Rightarrow> db_op list \<Rightarrow> 'd \<times> (string + unit)"
  nd_get :: "'d \<Rightarrow> db_key \<Rightarrow> string + db_row option"
  nd_scan :: "'d \<Rightarrow> db_table \<Rightarrow> string + db_row list"
  nd_source :: "'d \<Rightarrow> string \<Rightarrow> string + db_row list"
  nd_below :: "'d \<Rightarrow> int \<Rightarrow> string + db_row list"

definition open_store :: "(string \<Rightarrow> string + 'd) \<Rightarrow> string \<Rightarrow> 'd result" where
  "open_store create path = map_error from_native_db (create path)"

definition run_txn :: "'d native_db \<Rightarrow> 'd \<Rightarrow> db_op list \<Rightarrow> 'd \<times> unit result" where
  "run_txn nd d ops = (let (d', r) = nd_txn nd d ops in (d', map_error from_native_db r))"

definition get_row :: "'d native_db \<Rightarrow> 'd \<Rightarrow> db_key \<Rightarrow> db_row option result" where
  "get_row nd d k = map_error from_native_db (nd_get nd d k)"

definition scan_rows :: "'d native_db \<Rightarrow> 'd \<Rightarrow> db_table \<Rightarrow> db_row list result" where
  "scan_rows nd d t = map_error from_native_db (nd_scan nd d t)"

section \<open>Singletons\<close>

definition singleton :: u8 where
  "singleton = 0"

definition load_packet_lifetime :: "'d native_db \<Rightarrow> 'd \<Rightarrow> packet_lifetime result" where
  "load_packet_lifetime nd d = bind_result (get_row nd d (K_Id T_PacketLifetime singleton))
     (\<lambda>r. Inr (case r of Some (R_PacketLifetime v) \<Rightarrow> v | _ \<Rightarrow> default_packet_lifetime))"

definition save_packet_lifetime :: "'d native_db \<Rightarrow> 'd \<Rightarrow> packet_lifetime \<Rightarrow> 'd \<times> unit result" where
  "save_packet_lifetime nd d v = run_txn nd d [Put (R_PacketLifetime (v\<lparr>pl_id := singleton\<rparr>))]"

definition load_aprsis_lifetime :: "'d native_db \<Rightarrow> 'd \<Rightarrow> aprsis_lifetime result" where
  "load_aprsis_lifetime nd d = bind_result (get_row nd d (K_Id T_AprsisLifetime singleton))
     (\<lambda>r. Inr (case r of Some (R_AprsisLifetime v) \<Rightarrow> v | _ \<Rightarrow> default_aprsis_lifetime))"

definition save_aprsis_lifetime :: "'d native_db \<Rightarrow> 'd \<Rightarrow> aprsis_lifetime \<Rightarrow> 'd \<times> unit result" where
  "save_aprsis_lifetime nd d v = run_txn nd d [Put (R_AprsisLifetime (v\<lparr>al_id := singleton\<rparr>))]"

definition load_slicer :: "'d native_db \<Rightarrow> (int \<Rightarrow> datetime option) \<Rightarrow> 'd \<Rightarrow> restored_slicer option result" where
  "load_slicer nd from_us d = bind_result (get_row nd d (K_Id T_Slicer singleton))
     (\<lambda>r. Inr (case r of
        Some (R_Slicer s) \<Rightarrow> Some \<lparr> rs_lifetime_hits = ss_lifetime_hits s,
          rs_history = map (\<lambda>h. \<lparr> si_timestamp = from_micros from_us (sir_ts_micros h),
            si_counts = sir_counts h \<rparr>) (ss_history s) \<rparr>
      | _ \<Rightarrow> None))"

definition save_slicer :: "'d native_db \<Rightarrow> 'd \<Rightarrow> nat \<Rightarrow> f32 list \<Rightarrow> u64 list \<Rightarrow> slicer_interval list
    \<Rightarrow> 'd \<times> unit result" where
  "save_slicer nd d slicer_count gains lifetime_hits history = run_txn nd d
     [Put (R_Slicer \<lparr> ss_id = singleton, ss_slicer_count = of_nat slicer_count,
        ss_slicer_gains = gains, ss_lifetime_hits = lifetime_hits,
        ss_history = map (\<lambda>h. \<lparr> sir_ts_micros = to_micros (si_timestamp h),
          sir_counts = si_counts h \<rparr>) history \<rparr>)]"

definition load_telemetry_seq :: "'d native_db \<Rightarrow> 'd \<Rightarrow> u32 option result" where
  "load_telemetry_seq nd d = bind_result (get_row nd d (K_Id T_Seq singleton))
     (\<lambda>r. Inr (case r of Some (R_Seq t) \<Rightarrow> Some (ts_seq t) | _ \<Rightarrow> None))"

definition save_telemetry_seq :: "'d native_db \<Rightarrow> 'd \<Rightarrow> u32 \<Rightarrow> 'd \<times> unit result" where
  "save_telemetry_seq nd d seq = run_txn nd d [Put (R_Seq \<lparr> ts_id = singleton, ts_seq = seq \<rparr>)]"

section \<open>Stations and frequencies\<close>

definition station_rows :: "db_row list \<Rightarrow> station_rec list" where
  "station_rows rs = List.map_filter (\<lambda>r. case r of R_Station s \<Rightarrow> Some s | _ \<Rightarrow> None) rs"

definition load_stations :: "'d native_db \<Rightarrow> (int \<Rightarrow> datetime option) \<Rightarrow> 'd \<Rightarrow> station_entry list result" where
  "load_stations nd from_us d = bind_result (scan_rows nd d T_Station)
     (\<lambda>rs. Inr (map (station_into_entry from_us) (station_rows rs)))"

definition upsert_station :: "'d native_db \<Rightarrow> 'd \<Rightarrow> station_entry \<Rightarrow> 'd \<times> unit result" where
  "upsert_station nd d s = run_txn nd d [Put (R_Station (station_from_entry s))]"

definition delete_station :: "'d native_db \<Rightarrow> 'd \<Rightarrow> string \<Rightarrow> 'd \<times> unit result" where
  "delete_station nd d callsign = run_txn nd d [Del (K_Str T_Station callsign)]"

definition freq_rows :: "db_row list \<Rightarrow> freq_rec list" where
  "freq_rows rs = List.map_filter (\<lambda>r. case r of R_Freq s \<Rightarrow> Some s | _ \<Rightarrow> None) rs"

definition load_freqs :: "'d native_db \<Rightarrow> (int \<Rightarrow> datetime option) \<Rightarrow> 'd
    \<Rightarrow> (string \<times> u64 \<times> datetime) list result" where
  "load_freqs nd from_us d = bind_result (scan_rows nd d T_Freq)
     (\<lambda>rs. Inr (map (\<lambda>f. (fq_frequency f, fq_count f, from_micros from_us (fq_last_heard_micros f))) (freq_rows rs)))"

definition upsert_freq :: "'d native_db \<Rightarrow> 'd \<Rightarrow> string \<Rightarrow> u64 \<Rightarrow> datetime \<Rightarrow> 'd \<times> unit result" where
  "upsert_freq nd d frequency count last_heard = run_txn nd d
     [Put (R_Freq \<lparr> fq_frequency = frequency, fq_count = count,
        fq_last_heard_micros = to_micros last_heard \<rparr>)]"

definition delete_freq :: "'d native_db \<Rightarrow> 'd \<Rightarrow> string \<Rightarrow> 'd \<times> unit result" where
  "delete_freq nd d frequency = run_txn nd d [Del (K_Str T_Freq frequency)]"

section \<open>History buckets\<close>

definition bucket_rows :: "db_row list \<Rightarrow> history_bucket_rec list" where
  "bucket_rows rs = List.map_filter (\<lambda>r. case r of R_Bucket s \<Rightarrow> Some s | _ \<Rightarrow> None) rs"

definition load_buckets :: "'d native_db \<Rightarrow> 'd \<Rightarrow> stat_bucket list result" where
  "load_buckets nd d = bind_result (scan_rows nd d T_Bucket)
     (\<lambda>rs. Inr (map bucket_of_rec (bucket_rows rs)))"

definition upsert_buckets :: "'d native_db \<Rightarrow> 'd \<Rightarrow> stat_bucket list \<Rightarrow> 'd \<times> unit result" where
  "upsert_buckets nd d bs = run_txn nd d (map (\<lambda>b. Put (R_Bucket (bucket_rec_of b))) bs)"

definition delete_buckets :: "'d native_db \<Rightarrow> 'd \<Rightarrow> int list \<Rightarrow> 'd \<times> unit result" where
  "delete_buckets nd d ks =
     (if ks = [] then (d, Inr ()) else run_txn nd d (map (\<lambda>k. Del (K_Int T_Bucket k)) ks))"

section \<open>Packets\<close>

definition sat_rows :: "db_row list \<Rightarrow> sat_packet_rec list" where
  "sat_rows rs = List.map_filter (\<lambda>r. case r of R_Sat s \<Rightarrow> Some s | _ \<Rightarrow> None) rs"

definition load_sat_packets :: "'d native_db \<Rightarrow> (int \<Rightarrow> datetime option) \<Rightarrow> instant \<Rightarrow> 'd \<Rightarrow> rtp_packet list result" where
  "load_sat_packets nd from_us now d = bind_result (scan_rows nd d T_Sat)
     (\<lambda>rs. Inr (map (sat_into_packet from_us now) (sat_rows rs)))"

definition insert_sat_packet :: "'d native_db \<Rightarrow> 'd \<Rightarrow> rtp_packet \<Rightarrow> 'd \<times> unit result" where
  "insert_sat_packet nd d p = run_txn nd d [Put (R_Sat (sat_from_packet p))]"

definition delete_sat_packets :: "'d native_db \<Rightarrow> 'd \<Rightarrow> int list \<Rightarrow> 'd \<times> unit result" where
  "delete_sat_packets nd d ks =
     (if ks = [] then (d, Inr ()) else run_txn nd d (map (\<lambda>k. Del (K_Int T_Sat k)) ks))"

definition sat_packet_key :: "rtp_packet \<Rightarrow> int" where
  "sat_packet_key p = to_micros (p_receivetime p)"

definition packet_rows :: "db_row list \<Rightarrow> packet_rec list" where
  "packet_rows rs = List.map_filter (\<lambda>r. case r of R_Packet s \<Rightarrow> Some s | _ \<Rightarrow> None) rs"

definition insert_packet :: "'d native_db \<Rightarrow> 'd \<Rightarrow> rtp_packet \<Rightarrow> 'd \<times> unit result" where
  "insert_packet nd d p = run_txn nd d [Put (R_Packet (packet_from_packet p))]"

text \<open>Newest first: a stable sort by descending key.\<close>

definition load_packets_by_source :: "'d native_db \<Rightarrow> (int \<Rightarrow> datetime option) \<Rightarrow> instant \<Rightarrow> 'd \<Rightarrow> string
    \<Rightarrow> rtp_packet list result" where
  "load_packets_by_source nd from_us now d source =
     bind_result (map_error from_native_db (nd_source nd d source))
       (\<lambda>rs. Inr (map (packet_into_packet from_us now)
          (sort_key (\<lambda>r. - r4_key_micros r) (packet_rows rs))))"

definition prune_packets :: "'d native_db \<Rightarrow> 'd \<Rightarrow> int \<Rightarrow> 'd \<times> unit result" where
  "prune_packets nd d cutoff_micros = (case nd_below nd d cutoff_micros of
     Inl e \<Rightarrow> (d, Inl (from_native_db e))
   | Inr stale \<Rightarrow> run_txn nd d (map (\<lambda>r. Del (row_key r)) stale))"

section \<open>Watched stations\<close>

definition watched_rows :: "db_row list \<Rightarrow> watched_station_rec list" where
  "watched_rows rs = List.map_filter (\<lambda>r. case r of R_Watched s \<Rightarrow> Some s | _ \<Rightarrow> None) rs"

definition load_watched_stations :: "'d native_db \<Rightarrow> 'd \<Rightarrow> string list result" where
  "load_watched_stations nd d = bind_result (scan_rows nd d T_Watched)
     (\<lambda>rs. Inr (map ws_callsign (sort_key ws_added_micros (watched_rows rs))))"

definition add_watched_station :: "'d native_db \<Rightarrow> 'd \<Rightarrow> string \<Rightarrow> datetime \<Rightarrow> 'd \<times> unit result" where
  "add_watched_station nd d callsign added = run_txn nd d
     [Put (R_Watched \<lparr> ws_callsign = callsign, ws_added_micros = to_micros added \<rparr>)]"

definition remove_watched_station :: "'d native_db \<Rightarrow> 'd \<Rightarrow> string \<Rightarrow> 'd \<times> unit result" where
  "remove_watched_station nd d callsign = run_txn nd d [Del (K_Str T_Watched callsign)]"

section \<open>What the database promises\<close>

fun apply_op :: "db_op \<Rightarrow> (db_key \<Rightarrow> db_row option) \<Rightarrow> db_key \<Rightarrow> db_row option" where
  "apply_op (Put r) m = m(row_key r \<mapsto> r)"
| "apply_op (Del k) m = m(k := None)"

definition drop_below :: "int \<Rightarrow> (db_key \<Rightarrow> db_row option) \<Rightarrow> db_key \<Rightarrow> db_row option" where
  "drop_below c m k = (case k of K_Int t i \<Rightarrow> if t = T_Packet \<and> i < c then None else m k | _ \<Rightarrow> m k)"

lemma drop_below_other [simp]: "drop_below c m (K_Str t k) = m (K_Str t k)" "drop_below c m (K_Id t i) = m (K_Id t i)"
  by (simp_all add: drop_below_def)

locale native_db_laws =
  fixes nd :: "'d native_db"
    and rows :: "'d \<Rightarrow> db_key \<Rightarrow> db_row option"
    and ok :: "'d \<Rightarrow> bool"
  assumes typed: "ok d \<Longrightarrow> rows d k = Some r \<Longrightarrow> row_key r = k"
    and txn_ok: "ok d \<Longrightarrow> nd_txn nd d ops = (d', Inr u) \<Longrightarrow> ok d' \<and> rows d' = fold apply_op ops (rows d)"
    and txn_err: "ok d \<Longrightarrow> nd_txn nd d ops = (d', Inl e) \<Longrightarrow> ok d' \<and> rows d' = rows d"
    and get: "ok d \<Longrightarrow> nd_get nd d k = Inr o' \<Longrightarrow> o' = rows d k"
    and scan: "ok d \<Longrightarrow> nd_scan nd d t = Inr rs \<Longrightarrow> sorted_wrt (<) (map row_key rs)
      \<and> (\<forall>r. r \<in> set rs \<longleftrightarrow> rows d (row_key r) = Some r \<and> key_table (row_key r) = t)"
    and source: "ok d \<Longrightarrow> nd_source nd d s = Inr rs \<Longrightarrow> sorted_wrt (<) (map row_key rs)
      \<and> (\<forall>r. r \<in> set rs \<longleftrightarrow> rows d (row_key r) = Some r \<and> (\<exists>p. r = R_Packet p \<and> r4_source p = s))"
    and below: "ok d \<Longrightarrow> nd_below nd d c = Inr rs \<Longrightarrow> sorted_wrt (<) (map row_key rs)
      \<and> (\<forall>r. r \<in> set rs \<longleftrightarrow> rows d (row_key r) = Some r \<and> (\<exists>k. row_key r = K_Int T_Packet k \<and> k < c))"
begin

lemma run_txn_cases:
  assumes "ok d" and "run_txn nd d ops = (d', r)"
  shows "ok d' \<and> (case r of Inr _ \<Rightarrow> rows d' = fold apply_op ops (rows d) | Inl _ \<Rightarrow> rows d' = rows d)"
proof -
  obtain e x where x: "nd_txn nd d ops = (e, x)" by (cases "nd_txn nd d ops")
  with assms txn_ok [OF assms(1)] txn_err [OF assms(1)] show ?thesis
    by (cases x) (auto simp: run_txn_def)
qed

lemma run_txn_ok: "ok d \<Longrightarrow> run_txn nd d ops = (d', r) \<Longrightarrow> ok d'"
  using run_txn_cases by blast

lemma run_txn_Inr: "ok d \<Longrightarrow> run_txn nd d ops = (d', Inr u) \<Longrightarrow> rows d' = fold apply_op ops (rows d)"
  using run_txn_cases by fastforce

lemma run_txn_Inl: "ok d \<Longrightarrow> run_txn nd d ops = (d', Inl e) \<Longrightarrow> rows d' = rows d"
  using run_txn_cases by fastforce

lemma get_row_Inr: "ok d \<Longrightarrow> get_row nd d k = Inr r \<Longrightarrow> r = rows d k"
  using get [of d k] by (cases "nd_get nd d k") (auto simp: get_row_def)

lemma scan_rows_Inr: "ok d \<Longrightarrow> scan_rows nd d t = Inr rs \<Longrightarrow> sorted_wrt (<) (map row_key rs)
    \<and> (\<forall>r. r \<in> set rs \<longleftrightarrow> rows d (row_key r) = Some r \<and> key_table (row_key r) = t)"
  using scan [of d t] by (cases "nd_scan nd d t") (auto simp: scan_rows_def)

lemma packet_key_row: "ok d \<Longrightarrow> rows d (K_Int T_Packet k) = Some r \<Longrightarrow> \<exists>p. r = R_Packet p \<and> r4_key_micros p = k"
  using typed [of d "K_Int T_Packet k" r] by (cases r) auto

lemma station_key_row: "ok d \<Longrightarrow> rows d (K_Str T_Station k) = Some r \<Longrightarrow> \<exists>s. r = R_Station s \<and> sr_callsign s = k"
  using typed [of d "K_Str T_Station k" r] by (cases r) auto

lemma freq_key_row: "ok d \<Longrightarrow> rows d (K_Str T_Freq k) = Some r \<Longrightarrow> \<exists>s. r = R_Freq s \<and> fq_frequency s = k"
  using typed [of d "K_Str T_Freq k" r] by (cases r) auto

lemma watched_key_row: "ok d \<Longrightarrow> rows d (K_Str T_Watched k) = Some r \<Longrightarrow> \<exists>s. r = R_Watched s \<and> ws_callsign s = k"
  using typed [of d "K_Str T_Watched k" r] by (cases r) auto

lemma bucket_key_row: "ok d \<Longrightarrow> rows d (K_Int T_Bucket k) = Some r \<Longrightarrow> \<exists>s. r = R_Bucket s \<and> hb_ts s = k"
  using typed [of d "K_Int T_Bucket k" r] by (cases r) auto

end

section \<open>A table as a map\<close>

text \<open>
  \<open>view\<close> is the table as a map from keys to runtime values, \<open>norm\<close> the form a value is stored
  in. A write changes one key or, when it fails, nothing.
\<close>

locale keyed_table =
  fixes ok :: "'d \<Rightarrow> bool"
    and view :: "'d \<Rightarrow> 'k \<Rightarrow> 'v option"
    and key :: "'v \<Rightarrow> 'k"
    and norm :: "'v \<Rightarrow> 'v"
    and put :: "'d \<Rightarrow> 'v \<Rightarrow> 'd \<times> unit result"
    and del :: "'d \<Rightarrow> 'k \<Rightarrow> 'd \<times> unit result"
    and load :: "'d \<Rightarrow> 'v list result"
  assumes put: "ok d \<Longrightarrow> put d v = (d', r) \<Longrightarrow> ok d'
      \<and> view d' = (if is_ok r then (view d)(key v \<mapsto> norm v) else view d)"
    and del: "ok d \<Longrightarrow> del d k = (d', r) \<Longrightarrow> ok d'
      \<and> view d' = (if is_ok r then (view d)(k := None) else view d)"
    and load: "ok d \<Longrightarrow> load d = Inr vs \<Longrightarrow> distinct (map key vs)
      \<and> (\<forall>v. v \<in> set vs \<longleftrightarrow> view d (key v) = Some v)"
    and view_key: "ok d \<Longrightarrow> view d k = Some v \<Longrightarrow> key v = k"
    and norm_key: "key (norm v) = key v"
begin

lemma load_map: "ok d \<Longrightarrow> load d = Inr vs \<Longrightarrow> map_of (map (\<lambda>v. (key v, v)) vs) = view d"
proof
  fix k
  assume d: "ok d" "load d = Inr vs"
  note l = load [OF d]
  have "distinct (map fst (map (\<lambda>v. (key v, v)) vs))" using l by (simp add: comp_def)
  then have "map_of (map (\<lambda>v. (key v, v)) vs) k = Some v \<longleftrightarrow> v \<in> set vs \<and> key v = k" for v
    by (auto simp: map_of_eq_Some_iff)
  moreover have "view d k = Some v \<longleftrightarrow> v \<in> set vs \<and> key v = k" for v
    using l view_key [OF d(1), of k v] by auto
  ultimately show "map_of (map (\<lambda>v. (key v, v)) vs) k = view d k"
    by (metis option.exhaust)
qed

lemma put_load:
  assumes "ok d" and "put d v = (d', Inr u)" and "load d = Inr us" and "load d' = Inr vs"
  shows "set vs = insert (norm v) {w \<in> set us. key w \<noteq> key v}"
proof -
  have d': "ok d'" "view d' = (view d)(key v \<mapsto> norm v)" using put [OF assms(1,2)] by simp_all
  show ?thesis using load [OF assms(1,3)] load [OF d'(1) assms(4)] norm_key [of v]
    by (auto simp: d'(2) split: if_splits)
qed

lemma del_load:
  assumes "ok d" and "del d k = (d', Inr u)" and "load d = Inr us" and "load d' = Inr vs"
  shows "set vs = {w \<in> set us. key w \<noteq> k}"
proof -
  have d': "ok d'" "view d' = (view d)(k := None)" using del [OF assms(1,2)] by simp_all
  show ?thesis using load [OF assms(1,3)] load [OF d'(1) assms(4)]
    by (auto simp: d'(2) split: if_splits)
qed

text \<open>
  Mirroring: when the keys that differ from a map are all rewritten from it, successfully, the
  table shows the map.
\<close>

lemma put_all:
  assumes "ok d" and "\<forall>v \<in> set vs. \<forall>d. ok d \<longrightarrow> is_ok (snd (put d v))"
  shows "ok (fold (\<lambda>v d. fst (put d v)) vs d)
    \<and> view (fold (\<lambda>v d. fst (put d v)) vs d) = fold (\<lambda>v m. m(key v \<mapsto> norm v)) vs (view d)"
  using assms
proof (induction vs arbitrary: d)
  case (Cons v vs)
  obtain d' r where p: "put d v = (d', r)" by (cases "put d v")
  have "is_ok r" using Cons.prems p by (metis list.set_intros(1) snd_conv)
  with put [OF Cons.prems(1) p] Cons p show ?case by (simp del: fun_upd_apply)
qed simp

end

section \<open>The tables\<close>

lemma map_filter_map: "(\<And>s. f (c s) = Some s) \<Longrightarrow> List.map_filter f (map c ss) = ss"
  by (induction ss) (simp_all add: List.map_filter_simps)

definition station_view :: "('d \<Rightarrow> db_key \<Rightarrow> db_row option) \<Rightarrow> (int \<Rightarrow> datetime option) \<Rightarrow> 'd
    \<Rightarrow> string \<Rightarrow> station_entry option" where
  "station_view rows from_us d k = (case rows d (K_Str T_Station k) of
     Some (R_Station s) \<Rightarrow> Some (station_into_entry from_us s) | _ \<Rightarrow> None)"

definition freq_view :: "('d \<Rightarrow> db_key \<Rightarrow> db_row option) \<Rightarrow> (int \<Rightarrow> datetime option) \<Rightarrow> 'd
    \<Rightarrow> string \<Rightarrow> (string \<times> u64 \<times> datetime) option" where
  "freq_view rows from_us d k = (case rows d (K_Str T_Freq k) of
     Some (R_Freq f) \<Rightarrow> Some (fq_frequency f, fq_count f, from_micros from_us (fq_last_heard_micros f)) | _ \<Rightarrow> None)"

definition bucket_view :: "('d \<Rightarrow> db_key \<Rightarrow> db_row option) \<Rightarrow> 'd \<Rightarrow> int \<Rightarrow> stat_bucket option" where
  "bucket_view rows d k = (case rows d (K_Int T_Bucket k) of
     Some (R_Bucket b) \<Rightarrow> Some (bucket_of_rec b) | _ \<Rightarrow> None)"

definition stored_station :: "(int \<Rightarrow> datetime option) \<Rightarrow> station_entry \<Rightarrow> station_entry" where
  "stored_station from_us s = station_into_entry from_us (station_from_entry s)"

definition stored_freq :: "(int \<Rightarrow> datetime option) \<Rightarrow> string \<times> u64 \<times> datetime \<Rightarrow> string \<times> u64 \<times> datetime" where
  "stored_freq from_us f = (fst f, fst (snd f), from_micros from_us (to_micros (snd (snd f))))"

context native_db_laws
begin

lemma scan_stations:
  assumes "ok d" and "scan_rows nd d T_Station = Inr rs"
  shows "\<exists>ss. rs = map R_Station ss \<and> distinct (map sr_callsign ss)
    \<and> (\<forall>s. s \<in> set ss \<longleftrightarrow> rows d (K_Str T_Station (sr_callsign s)) = Some (R_Station s))"
proof -
  have sc: "sorted_wrt (<) (map row_key rs)"
    "\<And>r. r \<in> set rs \<longleftrightarrow> rows d (row_key r) = Some r \<and> key_table (row_key r) = T_Station"
    using scan_rows_Inr [OF assms] by blast+
  have "\<exists>s. r = R_Station s" if "r \<in> set rs" for r
    using sc(2) [of r] that by (cases r) simp_all
  then obtain ss where rs: "rs = map R_Station ss" using ex_map_conv [of rs R_Station] by blast
  have "distinct (map row_key rs)" using sc(1) strict_sorted_iff by blast
  then have "distinct (map sr_callsign ss)" by (simp add: rs distinct_map inj_on_def)
  moreover have "s \<in> set ss \<longleftrightarrow> rows d (K_Str T_Station (sr_callsign s)) = Some (R_Station s)" for s
  proof -
    have "s \<in> set ss \<longleftrightarrow> R_Station s \<in> set rs" by (auto simp: rs)
    then show ?thesis using sc(2) [of "R_Station s"] by simp
  qed
  ultimately show ?thesis using rs by blast
qed

lemma scan_freqs:
  assumes "ok d" and "scan_rows nd d T_Freq = Inr rs"
  shows "\<exists>ss. rs = map R_Freq ss \<and> distinct (map fq_frequency ss)
    \<and> (\<forall>s. s \<in> set ss \<longleftrightarrow> rows d (K_Str T_Freq (fq_frequency s)) = Some (R_Freq s))"
proof -
  have sc: "sorted_wrt (<) (map row_key rs)"
    "\<And>r. r \<in> set rs \<longleftrightarrow> rows d (row_key r) = Some r \<and> key_table (row_key r) = T_Freq"
    using scan_rows_Inr [OF assms] by blast+
  have "\<exists>s. r = R_Freq s" if "r \<in> set rs" for r
    using sc(2) [of r] that by (cases r) simp_all
  then obtain ss where rs: "rs = map R_Freq ss" using ex_map_conv [of rs R_Freq] by blast
  have "distinct (map row_key rs)" using sc(1) strict_sorted_iff by blast
  then have "distinct (map fq_frequency ss)" by (simp add: rs distinct_map inj_on_def)
  moreover have "s \<in> set ss \<longleftrightarrow> rows d (K_Str T_Freq (fq_frequency s)) = Some (R_Freq s)" for s
  proof -
    have "s \<in> set ss \<longleftrightarrow> R_Freq s \<in> set rs" by (auto simp: rs)
    then show ?thesis using sc(2) [of "R_Freq s"] by simp
  qed
  ultimately show ?thesis using rs by blast
qed

lemma scan_buckets:
  assumes "ok d" and "scan_rows nd d T_Bucket = Inr rs"
  shows "\<exists>ss. rs = map R_Bucket ss \<and> sorted_wrt (<) (map hb_ts ss)
    \<and> (\<forall>s. s \<in> set ss \<longleftrightarrow> rows d (K_Int T_Bucket (hb_ts s)) = Some (R_Bucket s))"
proof -
  have sc: "sorted_wrt (<) (map row_key rs)"
    "\<And>r. r \<in> set rs \<longleftrightarrow> rows d (row_key r) = Some r \<and> key_table (row_key r) = T_Bucket"
    using scan_rows_Inr [OF assms] by blast+
  have "\<exists>s. r = R_Bucket s" if "r \<in> set rs" for r
    using sc(2) [of r] that by (cases r) simp_all
  then obtain ss where rs: "rs = map R_Bucket ss" using ex_map_conv [of rs R_Bucket] by blast
  have "sorted_wrt (<) (map hb_ts ss)" using sc(1) by (simp add: rs sorted_wrt_map)
  moreover have "s \<in> set ss \<longleftrightarrow> rows d (K_Int T_Bucket (hb_ts s)) = Some (R_Bucket s)" for s
  proof -
    have "s \<in> set ss \<longleftrightarrow> R_Bucket s \<in> set rs" by (auto simp: rs)
    then show ?thesis using sc(2) [of "R_Bucket s"] by simp
  qed
  ultimately show ?thesis using rs by blast
qed

lemma source_packets:
  assumes "ok d" and "nd_source nd d src = Inr rs"
  shows "\<exists>ps. rs = map R_Packet ps \<and> sorted_wrt (<) (map r4_key_micros ps)
    \<and> (\<forall>p. p \<in> set ps \<longleftrightarrow> r4_source p = src \<and> rows d (K_Int T_Packet (r4_key_micros p)) = Some (R_Packet p))"
proof -
  have sc: "sorted_wrt (<) (map row_key rs)"
    "\<And>r. r \<in> set rs \<longleftrightarrow> rows d (row_key r) = Some r \<and> (\<exists>p. r = R_Packet p \<and> r4_source p = src)"
    using source [OF assms] by blast+
  have "\<exists>p. r = R_Packet p" if "r \<in> set rs" for r
    using sc(2) [of r] that by blast
  then obtain ps where rs: "rs = map R_Packet ps" using ex_map_conv [of rs R_Packet] by blast
  have "sorted_wrt (<) (map r4_key_micros ps)" using sc(1) by (simp add: rs sorted_wrt_map)
  moreover have "p \<in> set ps \<longleftrightarrow> r4_source p = src \<and> rows d (K_Int T_Packet (r4_key_micros p)) = Some (R_Packet p)" for p
  proof -
    have "p \<in> set ps \<longleftrightarrow> R_Packet p \<in> set rs" by (auto simp: rs)
    then show ?thesis using sc(2) [of "R_Packet p"] by auto
  qed
  ultimately show ?thesis using rs by blast
qed

lemma station_view_upd:
  "rows d' = (rows d)(K_Str T_Station (sr_callsign s) \<mapsto> R_Station s) \<Longrightarrow>
     station_view rows from_us d' = (station_view rows from_us d)(sr_callsign s \<mapsto> station_into_entry from_us s)"
  by (auto simp: station_view_def fun_eq_iff)

lemma freq_view_upd:
  "rows d' = (rows d)(K_Str T_Freq (fq_frequency f) \<mapsto> R_Freq f) \<Longrightarrow>
     freq_view rows from_us d' = (freq_view rows from_us d)(fq_frequency f
       \<mapsto> (fq_frequency f, fq_count f, from_micros from_us (fq_last_heard_micros f)))"
  by (auto simp: freq_view_def fun_eq_iff)

end

sublocale native_db_laws \<subseteq> stations: keyed_table ok "station_view rows from_us" se_callsign
    "stored_station from_us" "upsert_station nd" "delete_station nd" "load_stations nd from_us" for from_us
proof
  fix d d' v r
  assume d: "ok d" and u: "upsert_station nd d v = (d', r)"
  show "ok d' \<and> station_view rows from_us d' = (if is_ok r
      then (station_view rows from_us d)(se_callsign v \<mapsto> stored_station from_us v) else station_view rows from_us d)"
  proof (cases r)
    case (Inl e)
    then have "ok d' \<and> rows d' = rows d" using run_txn_cases [OF d, of _ d' r] u by (simp add: upsert_station_def)
    then show ?thesis by (simp add: Inl station_view_def fun_eq_iff)
  next
    case (Inr w)
    then have "ok d' \<and> rows d' = (rows d)(K_Str T_Station (se_callsign v) \<mapsto> R_Station (station_from_entry v))"
      using run_txn_cases [OF d, of _ d' r] u by (simp add: upsert_station_def station_from_entry_def)
    with station_view_upd [of d' d "station_from_entry v" from_us] show ?thesis
      by (simp add: Inr stored_station_def station_from_entry_def)
  qed
next
  fix d d' k r
  assume d: "ok d" and u: "delete_station nd d k = (d', r)"
  then show "ok d' \<and> station_view rows from_us d' = (if is_ok r
      then (station_view rows from_us d)(k := None) else station_view rows from_us d)"
    using run_txn_cases [OF d, of "[Del (K_Str T_Station k)]" d' r]
    by (cases r) (auto simp: delete_station_def station_view_def fun_eq_iff)
next
  fix d vs
  assume d: "ok d" and l: "load_stations nd from_us d = Inr vs"
  then obtain rs where "scan_rows nd d T_Station = Inr rs" "vs = map (station_into_entry from_us) (station_rows rs)"
    by (auto simp: load_stations_def bind_result_Inr)
  with scan_stations [OF d] obtain ss where ss: "vs = map (station_into_entry from_us) ss"
    "distinct (map sr_callsign ss)"
    "\<And>s. s \<in> set ss \<longleftrightarrow> rows d (K_Str T_Station (sr_callsign s)) = Some (R_Station s)"
    by (auto simp: station_rows_def map_filter_map)
  have k: "se_callsign (station_into_entry from_us s) = sr_callsign s" for s
    by (simp add: station_into_entry_def)
  have "v \<in> set vs \<longleftrightarrow> station_view rows from_us d (se_callsign v) = Some v" for v
  proof
    assume "v \<in> set vs"
    then show "station_view rows from_us d (se_callsign v) = Some v"
      using ss k by (auto simp: station_view_def)
  next
    assume v: "station_view rows from_us d (se_callsign v) = Some v"
    then obtain s where s: "rows d (K_Str T_Station (se_callsign v)) = Some (R_Station s)"
      "v = station_into_entry from_us s"
      by (auto simp: station_view_def split: option.splits db_row.splits)
    with k ss(3) [of s] have "s \<in> set ss" by simp
    with s ss(1) show "v \<in> set vs" by simp
  qed
  moreover have "map se_callsign vs = map sr_callsign ss" by (simp add: ss(1) k)
  ultimately show "distinct (map se_callsign vs)
      \<and> (\<forall>v. v \<in> set vs \<longleftrightarrow> station_view rows from_us d (se_callsign v) = Some v)"
    using ss(2) by simp
next
  fix d k v
  assume "ok d" "station_view rows from_us d k = Some v"
  then show "se_callsign v = k"
    using typed [of d "K_Str T_Station k"]
    by (auto simp: station_view_def station_into_entry_def split: option.splits db_row.splits)
next
  show "se_callsign (stored_station from_us v) = se_callsign v" for v
    by (simp add: stored_station_def station_into_entry_def station_from_entry_def)
qed

sublocale native_db_laws \<subseteq> freqs: keyed_table ok "freq_view rows from_us" fst "stored_freq from_us"
    "\<lambda>d f. upsert_freq nd d (fst f) (fst (snd f)) (snd (snd f))" "delete_freq nd" "load_freqs nd from_us" for from_us
proof
  fix d d' v r
  let ?f = "\<lparr> fq_frequency = fst v, fq_count = fst (snd v), fq_last_heard_micros = to_micros (snd (snd v)) \<rparr>"
  assume d: "ok d" and u: "upsert_freq nd d (fst v) (fst (snd v)) (snd (snd v)) = (d', r)"
  show "ok d' \<and> freq_view rows from_us d' = (if is_ok r
      then (freq_view rows from_us d)(fst v \<mapsto> stored_freq from_us v) else freq_view rows from_us d)"
  proof (cases r)
    case (Inl e)
    then have "ok d' \<and> rows d' = rows d" using run_txn_cases [OF d, of _ d' r] u by (simp add: upsert_freq_def)
    then show ?thesis by (simp add: Inl freq_view_def fun_eq_iff)
  next
    case (Inr w)
    then have "ok d' \<and> rows d' = (rows d)(K_Str T_Freq (fst v) \<mapsto> R_Freq ?f)"
      using run_txn_cases [OF d, of _ d' r] u by (simp add: upsert_freq_def)
    with freq_view_upd [of d' d ?f from_us] show ?thesis by (simp add: Inr stored_freq_def)
  qed
next
  fix d d' k r
  assume d: "ok d" and u: "delete_freq nd d k = (d', r)"
  then show "ok d' \<and> freq_view rows from_us d' = (if is_ok r
      then (freq_view rows from_us d)(k := None) else freq_view rows from_us d)"
    using run_txn_cases [OF d, of "[Del (K_Str T_Freq k)]" d' r]
    by (cases r) (auto simp: delete_freq_def freq_view_def fun_eq_iff)
next
  fix d vs
  let ?into = "\<lambda>f. (fq_frequency f, fq_count f, from_micros from_us (fq_last_heard_micros f))"
  assume d: "ok d" and l: "load_freqs nd from_us d = Inr vs"
  then obtain rs where "scan_rows nd d T_Freq = Inr rs" "vs = map ?into (freq_rows rs)"
    by (auto simp: load_freqs_def bind_result_Inr)
  with scan_freqs [OF d] obtain ss where ss: "vs = map ?into ss" "distinct (map fq_frequency ss)"
    "\<And>s. s \<in> set ss \<longleftrightarrow> rows d (K_Str T_Freq (fq_frequency s)) = Some (R_Freq s)"
    by (auto simp: freq_rows_def map_filter_map)
  have "v \<in> set vs \<longleftrightarrow> freq_view rows from_us d (fst v) = Some v" for v
  proof
    assume "v \<in> set vs"
    then show "freq_view rows from_us d (fst v) = Some v" using ss by (auto simp: freq_view_def)
  next
    assume v: "freq_view rows from_us d (fst v) = Some v"
    then obtain s where s: "rows d (K_Str T_Freq (fst v)) = Some (R_Freq s)" "v = ?into s"
      by (auto simp: freq_view_def split: option.splits db_row.splits)
    with ss(3) [of s] have "s \<in> set ss" by simp
    with s ss(1) show "v \<in> set vs" by simp
  qed
  moreover have "map fst vs = map fq_frequency ss" by (simp add: ss(1))
  ultimately show "distinct (map fst vs) \<and> (\<forall>v. v \<in> set vs \<longleftrightarrow> freq_view rows from_us d (fst v) = Some v)"
    using ss(2) by simp
next
  fix d k v
  assume "ok d" "freq_view rows from_us d k = Some v"
  then show "fst v = k"
    using typed [of d "K_Str T_Freq k"] by (auto simp: freq_view_def split: option.splits db_row.splits)
next
  show "fst (stored_freq from_us v) = fst v" for v by (simp add: stored_freq_def)
qed

text \<open>The bucket table changes in batches: one transaction for the buckets of an update.\<close>

definition bucket_at :: "(db_key \<Rightarrow> db_row option) \<Rightarrow> int \<Rightarrow> stat_bucket option" where
  "bucket_at m k = (case m (K_Int T_Bucket k) of Some (R_Bucket b) \<Rightarrow> Some (bucket_of_rec b) | _ \<Rightarrow> None)"

lemma bucket_view_at: "bucket_view rows d = bucket_at (rows d)"
  by (simp add: bucket_view_def bucket_at_def fun_eq_iff)

lemma bucket_at_put: "bucket_at (m(K_Int T_Bucket (sb_ts b) \<mapsto> R_Bucket (bucket_rec_of b))) = (bucket_at m)(sb_ts b \<mapsto> b)"
  by (simp add: bucket_at_def fun_eq_iff)

lemma bucket_at_puts:
  "bucket_at (fold apply_op (map (\<lambda>b. Put (R_Bucket (bucket_rec_of b))) bs) m)
     = fold (\<lambda>b n. n(sb_ts b \<mapsto> b)) bs (bucket_at m)"
proof (induction bs arbitrary: m)
  case (Cons b bs)
  have "hb_ts (bucket_rec_of b) = sb_ts b" by (simp add: bucket_rec_of_def)
  with Cons show ?case by (simp add: bucket_at_put del: fun_upd_apply)
qed simp

lemma bucket_at_dels:
  "bucket_at (fold apply_op (map (\<lambda>k. Del (K_Int T_Bucket k)) ks) m)
     = (\<lambda>k. if k \<in> set ks then None else bucket_at m k)"
proof (induction ks arbitrary: m)
  case (Cons j ks)
  then show ?case by (auto simp: bucket_at_def fun_eq_iff)
qed simp

lemma fold_upd_keys:
  "k \<in> sb_ts ` set bs \<Longrightarrow> (\<forall>b\<in>set bs. n (sb_ts b) = Some b) \<Longrightarrow> fold (\<lambda>b n. n(sb_ts b \<mapsto> b)) bs m k = n k"
  "k \<notin> sb_ts ` set bs \<Longrightarrow> fold (\<lambda>b n. n(sb_ts b \<mapsto> b)) bs m k = m k"
  by (induction bs rule: rev_induct) auto

lemma map_filter_mem: "x \<in> set (List.map_filter f xs) \<longleftrightarrow> (\<exists>y\<in>set xs. f y = Some x)"
  by (induction xs) (auto simp: List.map_filter_simps split: option.splits)

context native_db_laws
begin

lemma upsert_buckets_view:
  "ok d \<Longrightarrow> upsert_buckets nd d bs = (d', Inr u) \<Longrightarrow>
     ok d' \<and> bucket_view rows d' = fold (\<lambda>b n. n(sb_ts b \<mapsto> b)) bs (bucket_view rows d)"
  using run_txn_Inr [of d _ d' u] run_txn_ok [of d _ d' "Inr u"]
  by (simp add: upsert_buckets_def bucket_view_at bucket_at_puts)

lemma delete_buckets_view:
  "ok d \<Longrightarrow> delete_buckets nd d ks = (d', Inr u) \<Longrightarrow>
     ok d' \<and> bucket_view rows d' = (\<lambda>k. if k \<in> set ks then None else bucket_view rows d k)"
  using run_txn_Inr [of d _ d' u] run_txn_ok [of d _ d' "Inr u"]
  by (auto simp: delete_buckets_def bucket_view_at bucket_at_dels split: if_splits)

lemma load_buckets_view:
  assumes "ok d" and "load_buckets nd d = Inr bs"
  shows "sorted_wrt (<) (map sb_ts bs) \<and> (\<forall>b. b \<in> set bs \<longleftrightarrow> bucket_view rows d (sb_ts b) = Some b)"
proof -
  obtain rs where "scan_rows nd d T_Bucket = Inr rs" "bs = map bucket_of_rec (bucket_rows rs)"
    using assms(2) by (auto simp: load_buckets_def bind_result_Inr)
  with scan_buckets [OF assms(1)] obtain ss where ss: "bs = map bucket_of_rec ss"
    "sorted_wrt (<) (map hb_ts ss)"
    "\<And>s. s \<in> set ss \<longleftrightarrow> rows d (K_Int T_Bucket (hb_ts s)) = Some (R_Bucket s)"
    by (auto simp: bucket_rows_def map_filter_map)
  have k: "sb_ts (bucket_of_rec s) = hb_ts s" for s by (simp add: bucket_of_rec_def)
  have "b \<in> set bs \<longleftrightarrow> bucket_view rows d (sb_ts b) = Some b" for b
  proof
    assume "b \<in> set bs"
    then show "bucket_view rows d (sb_ts b) = Some b" using ss k by (auto simp: bucket_view_def)
  next
    assume v: "bucket_view rows d (sb_ts b) = Some b"
    then obtain s where s: "rows d (K_Int T_Bucket (sb_ts b)) = Some (R_Bucket s)" "b = bucket_of_rec s"
      by (auto simp: bucket_view_def split: option.splits db_row.splits)
    with k ss(3) [of s] have "s \<in> set ss" by simp
    with s ss(1) show "b \<in> set bs" by simp
  qed
  moreover have "map sb_ts bs = map hb_ts ss" by (simp add: ss(1) k)
  ultimately show ?thesis using ss(2) by simp
qed

text \<open>The table mirrors a history: same buckets under the same keys.\<close>

lemma mirror_update:
  assumes "ok d" and "bucket_view rows d = map_of h" and "history_inv h'"
    and "\<And>k. k \<notin> set ks \<Longrightarrow> map_of h' k = map_of h k" and "set ks \<subseteq> set (map fst h')"
    and "upsert_buckets nd d (buckets_for ks h') = (d', Inr u)"
  shows "bucket_view rows d' = map_of h'"
proof
  fix k
  let ?bs = "buckets_for ks h'"
  have ts: "map sb_ts ?bs = ks" using buckets_for_touched [OF assms(3,5)] .
  then have ks: "sb_ts ` set ?bs = set ks" by (metis list.set_map)
  have b: "map_of h' (sb_ts b) = Some b" if "b \<in> set ?bs" for b
  proof -
    from that obtain j where "map_of h' j = Some b" by (auto simp: buckets_for_def map_filter_mem)
    moreover from this have "sb_ts b = j" using assms(3) by (auto simp: history_inv_lookup bucket_ok_def)
    ultimately show ?thesis by simp
  qed
  have v: "bucket_view rows d' = fold (\<lambda>b n. n(sb_ts b \<mapsto> b)) ?bs (map_of h)"
    using upsert_buckets_view [OF assms(1,6)] assms(2) by simp
  show "bucket_view rows d' k = map_of h' k"
  proof (cases "k \<in> set ks")
    case True
    then show ?thesis unfolding v by (intro fold_upd_keys(1)) (simp_all add: ks b)
  next
    case False
    then show ?thesis unfolding v using assms(4) by (subst fold_upd_keys(2)) (simp_all add: ks)
  qed
qed

lemma mirror_load:
  assumes "ok d" and "bucket_view rows d = map_of h" and "history_inv h" and "load_buckets nd d = Inr bs"
  shows "from_buckets bs = h"
proof -
  note l = load_buckets_view [OF assms(1,4)]
  have "om_inv (map (\<lambda>b. (sb_ts b, b)) bs)" using l by (simp add: om_inv_def comp_def)
  moreover have D: "distinct (map sb_ts bs)" using l strict_sorted_iff by blast
  moreover have "map_of (map (\<lambda>b. (sb_ts b, b)) bs) k = map_of h k" for k
  proof -
    have "map_of (map (\<lambda>b. (sb_ts b, b)) bs) k = Some b \<longleftrightarrow> map_of h k = Some b" for b
    proof -
      have "map_of (map (\<lambda>b. (sb_ts b, b)) bs) k = Some b \<longleftrightarrow> b \<in> set bs \<and> sb_ts b = k"
        using D map_of_eq_Some_iff [of "map (\<lambda>b. (sb_ts b, b)) bs" k b] by (auto simp: comp_def)
      also have "\<dots> \<longleftrightarrow> map_of h k = Some b"
        using l assms(2,3) by (auto simp: history_inv_lookup bucket_ok_def)
      finally show ?thesis .
    qed
    then show ?thesis by (metis option.exhaust)
  qed
  ultimately have "map (\<lambda>b. (sb_ts b, b)) bs = h"
    using assms(3) by (intro om_ext) (simp_all add: history_inv_def)
  then have "bs = snapshot h" by (auto simp: snapshot_def comp_def)
  then show ?thesis using from_buckets_snapshot [OF assms(3)] by simp
qed

end

section \<open>The packet table, and the singletons\<close>

text \<open>The packets stored under the keys of the packet table.\<close>

definition packet_at :: "(db_key \<Rightarrow> db_row option) \<Rightarrow> int \<Rightarrow> packet_rec option" where
  "packet_at m k = (case m (K_Int T_Packet k) of Some (R_Packet p) \<Rightarrow> Some p | _ \<Rightarrow> None)"

lemma sort_key_reverse:
  assumes "sorted_wrt (<) (map (f :: 'a \<Rightarrow> int) xs)"
  shows "sort_key (\<lambda>x. - f x) xs = rev xs"
proof -
  have d: "distinct (map f xs)" and s: "sorted (map f xs)" using assms strict_sorted_iff by blast+
  have "sorted (map (\<lambda>x. - f x) (rev xs))"
    using s by (simp add: sorted_wrt_map sorted_wrt_rev)
  moreover have "inj_on (\<lambda>x. - f x) (set xs)" "distinct (map (\<lambda>x. - f x) xs)" "distinct (map (\<lambda>x. - f x) (rev xs))"
    using d by (auto simp: distinct_map inj_on_def)
  ultimately show ?thesis
    by (intro map_sorted_distinct_set_unique [where f = "\<lambda>x. - f x"]) (simp_all add: distinct_map)
qed

context native_db_laws
begin

lemma packet_at_Some: "ok d \<Longrightarrow> packet_at (rows d) k = Some p \<longleftrightarrow> rows d (K_Int T_Packet k) = Some (R_Packet p)"
  by (auto simp: packet_at_def split: option.splits db_row.splits)

lemma load_by_source:
  assumes "ok d" and "load_packets_by_source nd from_us now d src = Inr ps"
  shows "\<exists>rs. ps = map (packet_into_packet from_us now) rs \<and> sorted_wrt (>) (map r4_key_micros rs)
    \<and> (\<forall>p. p \<in> set rs \<longleftrightarrow> r4_source p = src \<and> packet_at (rows d) (r4_key_micros p) = Some p)"
proof -
  obtain rs where rs: "nd_source nd d src = Inr rs"
      "ps = map (packet_into_packet from_us now) (sort_key (\<lambda>r. - r4_key_micros r) (packet_rows rs))"
    using assms(2) by (cases "nd_source nd d src") (auto simp: load_packets_by_source_def bind_result_Inr)
  obtain qs where qs: "rs = map R_Packet qs" "sorted_wrt (<) (map r4_key_micros qs)"
      "\<And>p. p \<in> set qs \<longleftrightarrow> r4_source p = src \<and> rows d (K_Int T_Packet (r4_key_micros p)) = Some (R_Packet p)"
    using source_packets [OF assms(1) rs(1)] by blast
  have "packet_rows rs = qs" by (simp add: packet_rows_def qs(1) map_filter_map)
  then have "ps = map (packet_into_packet from_us now) (rev qs)"
    using sort_key_reverse [OF qs(2)] by (simp add: rs(2))
  moreover have "sorted_wrt (>) (map r4_key_micros (rev qs))"
    using qs(2) by (simp add: sorted_wrt_map sorted_wrt_rev)
  ultimately show ?thesis using qs(3) packet_at_Some [OF assms(1)] by auto
qed

lemma insert_packet_at:
  assumes "ok d" and "insert_packet nd d p = (d', r)"
  shows "ok d' \<and> packet_at (rows d') = (if is_ok r
     then (packet_at (rows d))(to_micros (p_receivetime p) \<mapsto> packet_from_packet p) else packet_at (rows d))"
proof -
  have k: "r4_key_micros (packet_from_packet p) = to_micros (p_receivetime p)"
    by (simp add: packet_from_packet_def split: option.split)
  show ?thesis
    using run_txn_cases [OF assms(1), of "[Put (R_Packet (packet_from_packet p))]" d' r] assms(2) k
    by (cases r) (auto simp: insert_packet_def packet_at_def fun_eq_iff)
qed

lemma apply_dels: "fold apply_op (map (\<lambda>r. Del (f r)) rs) m = (\<lambda>k. if k \<in> f ` set rs then None else m k)"
  by (induction rs arbitrary: m) (auto simp: fun_eq_iff)

text \<open>The rows that pruning leaves: the packets below the bound are gone.\<close>

lemma prune_packets_rows:
  assumes "ok d" and "prune_packets nd d c = (d', r)"
  shows "ok d' \<and> rows d' = (if is_ok r then drop_below c (rows d) else rows d)"
proof (cases "nd_below nd d c")
  case (Inl e)
  then show ?thesis using assms by (auto simp: prune_packets_def)
next
  case (Inr stale)
  then have "run_txn nd d (map (\<lambda>r. Del (row_key r)) stale) = (d', r)" using assms(2) by (simp add: prune_packets_def)
  note c = run_txn_cases [OF assms(1) this]
  have "k \<in> row_key ` set stale \<longleftrightarrow> rows d k \<noteq> None \<and> (\<exists>i. k = K_Int T_Packet i \<and> i < c)" for k
  proof
    assume "k \<in> row_key ` set stale"
    then show "rows d k \<noteq> None \<and> (\<exists>i. k = K_Int T_Packet i \<and> i < c)" using below [OF assms(1) Inr] by auto
  next
    assume k: "rows d k \<noteq> None \<and> (\<exists>i. k = K_Int T_Packet i \<and> i < c)"
    then obtain r where r: "rows d k = Some r" by blast
    then have "row_key r = k" by (rule typed [OF assms(1)])
    moreover from this have "r \<in> set stale" using below [OF assms(1) Inr] k r by blast
    ultimately show "k \<in> row_key ` set stale" by blast
  qed
  then have "(\<lambda>k. if k \<in> row_key ` set stale then None else rows d k) = drop_below c (rows d)"
    by (auto simp: fun_eq_iff drop_below_def split: db_key.split)
  then show ?thesis using c by (cases r) (simp_all add: apply_dels)
qed

lemma prune_packets_at:
  assumes "ok d" and "prune_packets nd d c = (d', r)"
  shows "ok d' \<and> packet_at (rows d') = (if is_ok r
     then (\<lambda>k. if k < c then None else packet_at (rows d) k) else packet_at (rows d))"
  using prune_packets_rows [OF assms] by (auto simp: packet_at_def drop_below_def)

text \<open>A singleton row is read back as it was written.\<close>

lemma get_after_put:
  assumes "ok d" and "run_txn nd d [Put r] = (d', Inr u)" and "get_row nd d' (row_key r) = Inr x"
  shows "x = Some r"
  using run_txn_Inr [OF assms(1,2)] get_row_Inr [OF run_txn_ok [OF assms(1,2)] assms(3)] by simp

lemma packet_lifetime_saved:
  assumes "ok d" and "save_packet_lifetime nd d v = (d', Inr u)" and "load_packet_lifetime nd d' = Inr w"
  shows "w = v\<lparr>pl_id := singleton\<rparr>"
  using get_after_put [OF assms(1), of "R_PacketLifetime (v\<lparr>pl_id := singleton\<rparr>)" d' u] assms(2,3)
  by (auto simp: save_packet_lifetime_def load_packet_lifetime_def bind_result_Inr)

lemma aprsis_lifetime_saved:
  assumes "ok d" and "save_aprsis_lifetime nd d v = (d', Inr u)" and "load_aprsis_lifetime nd d' = Inr w"
  shows "w = v\<lparr>al_id := singleton\<rparr>"
  using get_after_put [OF assms(1), of "R_AprsisLifetime (v\<lparr>al_id := singleton\<rparr>)" d' u] assms(2,3)
  by (auto simp: save_aprsis_lifetime_def load_aprsis_lifetime_def bind_result_Inr)

lemma telemetry_seq_saved:
  assumes "ok d" and "save_telemetry_seq nd d n = (d', Inr u)" and "load_telemetry_seq nd d' = Inr w"
  shows "w = Some n"
  using get_after_put [OF assms(1), of "R_Seq \<lparr> ts_id = singleton, ts_seq = n \<rparr>" d' u] assms(2,3)
  by (auto simp: save_telemetry_seq_def load_telemetry_seq_def bind_result_Inr)

text \<open>A write to one singleton leaves the others alone, and so does a write to any other table.\<close>

lemma get_other:
  assumes "ok d" and "run_txn nd d [Put r] = (d', x)" and "k \<noteq> row_key r"
  shows "rows d' k = rows d k"
  using run_txn_cases [OF assms(1,2)] assms(3) by (cases x) simp_all

lemma slicer_saved:
  assumes "ok d" and "save_slicer nd d n gains hits history = (d', Inr u)" and "load_slicer nd from_us d' = Inr w"
  shows "w = Some \<lparr> rs_lifetime_hits = hits, rs_history = map (\<lambda>h. \<lparr> si_timestamp =
      from_micros from_us (to_micros (si_timestamp h)), si_counts = si_counts h \<rparr>) history \<rparr>"
  using get_after_put [OF assms(1), of _ d' u] assms(2,3)
  by (fastforce simp: save_slicer_def load_slicer_def bind_result_Inr comp_def)

end

section \<open>A database in memory\<close>

text \<open>
  The rows in key order and a capacity: a transaction that would leave more rows than that
  fails, and then nothing has changed. It satisfies the laws, and both outcomes occur.
\<close>

type_synonym mem_state = "(db_key \<times> db_row) list"

fun mem_op :: "db_op \<Rightarrow> mem_state \<Rightarrow> mem_state" where
  "mem_op (Put r) d = om_insert (row_key r) r d"
| "mem_op (Del k) d = om_remove k d"

definition mem_db :: "nat \<Rightarrow> mem_state native_db" where
  "mem_db cap = \<lparr>
     nd_txn = (\<lambda>d ops. let d' = fold mem_op ops d in
        if length d' \<le> cap then (d', Inr ()) else (d, Inl ''disk full'')),
     nd_get = (\<lambda>d k. Inr (map_of d k)),
     nd_scan = (\<lambda>d t. Inr (map snd (filter (\<lambda>e. key_table (fst e) = t) d))),
     nd_source = (\<lambda>d s. Inr (map snd (filter (\<lambda>e. case snd e of R_Packet p \<Rightarrow> r4_source p = s | _ \<Rightarrow> False) d))),
     nd_below = (\<lambda>d c. Inr (map snd (filter (\<lambda>e. case fst e of K_Int t i \<Rightarrow> t = T_Packet \<and> i < c | _ \<Rightarrow> False) d))) \<rparr>"

definition mem_ok :: "mem_state \<Rightarrow> bool" where
  "mem_ok d = (om_inv d \<and> (\<forall>e\<in>set d. fst e = row_key (snd e)))"

lemma set_om_remove: "set (om_remove k d) = {e \<in> set d. fst e \<noteq> k}"
  by (simp add: om_remove_def)

lemma mem_op_ok:
  assumes "mem_ok d"
  shows "mem_ok (mem_op x d) \<and> map_of (mem_op x d) = apply_op x (map_of d)"
proof (cases x)
  case (Put r)
  then show ?thesis using assms om_inv_insert [of d "row_key r" r] set_om_insert [of "row_key r" r d]
    by (auto simp: mem_ok_def om_lookup_insert)
next
  case (Del k)
  then show ?thesis using assms om_inv_remove [of d k]
    by (auto simp: mem_ok_def om_lookup_remove set_om_remove fun_eq_iff)
qed

lemma mem_ops_ok: "mem_ok d \<Longrightarrow> mem_ok (fold mem_op ops d) \<and> map_of (fold mem_op ops d) = fold apply_op ops (map_of d)"
  by (induction ops arbitrary: d) (simp_all add: mem_op_ok)

lemma mem_select:
  assumes "mem_ok d"
  shows "sorted_wrt (<) (map row_key (map snd (filter P d)))
    \<and> (\<forall>r. r \<in> set (map snd (filter P d)) \<longleftrightarrow> map_of d (row_key r) = Some r \<and> P (row_key r, r))"
proof -
  have f: "map row_key (map snd (filter P d)) = map fst (filter P d)"
    using assms by (auto simp: mem_ok_def)
  have "om_inv (filter P d)" using assms om_inv_filter by (auto simp: mem_ok_def)
  then have "sorted_wrt (<) (map fst (filter P d))" by (simp add: om_inv_def)
  moreover have "r \<in> set (map snd (filter P d)) \<longleftrightarrow> map_of d (row_key r) = Some r \<and> P (row_key r, r)" for r
  proof -
    have "r \<in> set (map snd (filter P d)) \<longleftrightarrow> (row_key r, r) \<in> set d \<and> P (row_key r, r)"
      using assms by (force simp: mem_ok_def)
    then show ?thesis using assms om.entries_iff [of d "row_key r" r] by (simp add: mem_ok_def)
  qed
  ultimately show ?thesis unfolding f by blast
qed

interpretation mem: native_db_laws "mem_db cap" map_of mem_ok for cap
proof
  fix d :: mem_state
  assume d: "mem_ok d"
  show "row_key r = k" if "map_of d k = Some r" for k r
    using that d by (auto simp: mem_ok_def dest!: map_of_SomeD)
  show "mem_ok d' \<and> map_of d' = fold apply_op ops (map_of d)"
    if "nd_txn (mem_db cap) d ops = (d', Inr u)" for ops d' u
    using that mem_ops_ok [OF d, of ops] by (auto simp: mem_db_def Let_def split: if_splits)
  show "mem_ok d' \<and> map_of d' = map_of d" if "nd_txn (mem_db cap) d ops = (d', Inl e)" for ops d' e
    using that d by (auto simp: mem_db_def Let_def split: if_splits)
  show "o' = map_of d k" if "nd_get (mem_db cap) d k = Inr o'" for k o'
    using that by (simp add: mem_db_def)
  show "sorted_wrt (<) (map row_key rs)
      \<and> (\<forall>r. r \<in> set rs \<longleftrightarrow> map_of d (row_key r) = Some r \<and> key_table (row_key r) = t)"
    if "nd_scan (mem_db cap) d t = Inr rs" for t rs
    using that mem_select [OF d, of "\<lambda>e. key_table (fst e) = t"] by (simp add: mem_db_def)
  show "sorted_wrt (<) (map row_key rs)
      \<and> (\<forall>r. r \<in> set rs \<longleftrightarrow> map_of d (row_key r) = Some r \<and> (\<exists>p. r = R_Packet p \<and> r4_source p = s))"
    if "nd_source (mem_db cap) d s = Inr rs" for s rs
    using that mem_select [OF d, of "\<lambda>e. case snd e of R_Packet p \<Rightarrow> r4_source p = s | _ \<Rightarrow> False"]
    by (auto simp: mem_db_def split: db_row.splits)
  show "sorted_wrt (<) (map row_key rs)
      \<and> (\<forall>r. r \<in> set rs \<longleftrightarrow> map_of d (row_key r) = Some r \<and> (\<exists>k. row_key r = K_Int T_Packet k \<and> k < c))"
    if "nd_below (mem_db cap) d c = Inr rs" for c rs
    using that mem_select [OF d, of "\<lambda>e. case fst e of K_Int t i \<Rightarrow> t = T_Packet \<and> i < c | _ \<Rightarrow> False"]
    by (auto simp: mem_db_def split: db_key.splits)
qed

lemma mem_ok_Nil: "mem_ok []"
  by (simp add: mem_ok_def om_inv_def)

section \<open>Properties\<close>

context native_db_laws
begin

lemmas station_put_load = stations.put_load
lemmas station_del_load = stations.del_load
lemmas station_put = stations.put
lemmas station_del = stations.del
lemmas station_load = stations.load

lemma station_write:
  assumes "ok d" and "load_stations nd from_us d = Inr before"
    and "upsert_station nd d s = (d', r)" and "load_stations nd from_us d' = Inr after"
  shows "distinct (map se_callsign after) \<and> set after = (if is_ok r
    then insert (stored_station from_us s) {w \<in> set before. se_callsign w \<noteq> se_callsign s} else set before)"
proof (cases r)
  case (Inl e)
  have d': "ok d'" "station_view rows from_us d' = station_view rows from_us d"
    using station_put [OF assms(1,3), of from_us] by (simp_all add: Inl)
  show ?thesis using station_load [OF d'(1) assms(4)] station_load [OF assms(1,2)] by (auto simp: Inl d'(2))
next
  case (Inr u)
  have "ok d'" using station_put [OF assms(1,3), of from_us] by simp
  then show ?thesis
    using station_load [of d' from_us after] assms(4)
      station_put_load [OF assms(1) assms(3) [unfolded Inr] assms(2,4)] by (simp add: Inr)
qed

lemma station_removal:
  assumes "ok d" and "load_stations nd from_us d = Inr before"
    and "delete_station nd d k = (d', r)" and "load_stations nd from_us d' = Inr after"
  shows "set after = (if is_ok r then {w \<in> set before. se_callsign w \<noteq> k} else set before)"
proof (cases r)
  case (Inl e)
  have d': "ok d'" "station_view rows from_us d' = station_view rows from_us d"
    using station_del [OF assms(1,3), of from_us] by (simp_all add: Inl)
  show ?thesis using station_load [OF d'(1) assms(4)] station_load [OF assms(1,2)] by (auto simp: Inl d'(2))
next
  case (Inr u)
  then show ?thesis using station_del_load [OF assms(1) assms(3) [unfolded Inr] assms(2,4)] by simp
qed

lemma counters_kept:
  assumes "ok d"
    and "save_telemetry_seq nd d n = (d1, Inr u1)" and "save_packet_lifetime nd d1 p = (d2, Inr u2)"
    and "save_aprsis_lifetime nd d2 a = (d3, r3)"
    and "load_telemetry_seq nd d3 = Inr n'" and "load_packet_lifetime nd d3 = Inr p'"
    and "load_aprsis_lifetime nd d3 = Inr a'"
  shows "n' = Some n \<and> p' = p\<lparr>pl_id := singleton\<rparr> \<and> (is_ok r3 \<longrightarrow> a' = a\<lparr>al_id := singleton\<rparr>)"
proof -
  let ?n = "R_Seq \<lparr> ts_id = singleton, ts_seq = n \<rparr>" and ?p = "R_PacketLifetime (p\<lparr>pl_id := singleton\<rparr>)"
    and ?a = "R_AprsisLifetime (a\<lparr>al_id := singleton\<rparr>)"
  have t: "run_txn nd d [Put ?n] = (d1, Inr u1)" "run_txn nd d1 [Put ?p] = (d2, Inr u2)"
      "run_txn nd d2 [Put ?a] = (d3, r3)"
    using assms(2-4) by (simp_all add: save_telemetry_seq_def save_packet_lifetime_def save_aprsis_lifetime_def)
  have d1: "ok d1" and d2: "ok d2" and d3: "ok d3"
    using run_txn_ok assms(1) t by blast+
  have "rows d3 (row_key ?n) = Some ?n"
    using get_other [OF d2 t(3), of "row_key ?n"] get_other [OF d1 t(2), of "row_key ?n"]
      run_txn_Inr [OF assms(1) t(1)] by simp
  moreover have "rows d3 (row_key ?p) = Some ?p"
    using get_other [OF d2 t(3), of "row_key ?p"] run_txn_Inr [OF d1 t(2)] by simp
  moreover have "a' = a\<lparr>al_id := singleton\<rparr>" if "is_ok r3"
  proof -
    from that obtain u where "r3 = Inr u" by (cases r3) auto
    then show ?thesis using aprsis_lifetime_saved [OF d2 _ assms(7), of a u] assms(4) by simp
  qed
  ultimately show ?thesis using assms(5,6) get_row_Inr [OF d3]
    by (fastforce simp: load_telemetry_seq_def load_packet_lifetime_def bind_result_Inr)
qed

end

text \<open>
  C15. The station table is a set of rows keyed by callsign. A successful
  write leaves one row for that callsign, the one written (its times rounded down to the
  microsecond), and every other row as it was; a successful removal takes that callsign's row
  and no other; a write or removal that fails leaves the table as it was.
\<close>

theorem station_table_contract:
  assumes "native_db_laws nd rows ok" and "ok d" and "load_stations nd from_us d = Inr before"
    and "micros_ok from_us dom_ok"
  shows "(\<forall>s d' r after. upsert_station nd d s = (d', r) \<and> load_stations nd from_us d' = Inr after
        \<and> dom_ok (to_micros (se_last_heard s)) \<longrightarrow>
      distinct (map se_callsign after) \<and> set after = (if is_ok r
        then insert (s\<lparr>se_last_heard := to_whole_micros (se_last_heard s)\<rparr>)
          {w \<in> set before. se_callsign w \<noteq> se_callsign s}
        else set before))
    \<and> (\<forall>k d' r after. delete_station nd d k = (d', r) \<and> load_stations nd from_us d' = Inr after \<longrightarrow>
      set after = (if is_ok r then {w \<in> set before. se_callsign w \<noteq> k} else set before))"
proof -
  have "stored_station from_us s = s\<lparr>se_last_heard := to_whole_micros (se_last_heard s)\<rparr>"
    if "dom_ok (to_micros (se_last_heard s))" for s
    unfolding stored_station_def by (rule station_roundtrip [OF assms(4) that])
  moreover note native_db_laws.station_write [OF assms(1-3)] native_db_laws.station_removal [OF assms(1-3)]
  ultimately show ?thesis by (intro conjI allI impI) (elim conjE, simp)+
qed

definition sample_station :: "string \<Rightarrow> station_entry" where
  "sample_station c = \<lparr> se_callsign = c, se_transmitted_by = None, se_last_heard = 5432, se_frequency = Fin 145,
     se_latitude = None, se_longitude = None, se_altitude_ft = None, se_heard_direct = True,
     se_position_path = [], se_position_hops = 0, se_altitude_path = [], se_altitude_hops = 0,
     se_symbol_table = None, se_symbol_code = None, se_count = 1, se_count_direct = 1, se_count_digipeated = 0 \<rparr>"

lemmas mem_eval = mem_db_def run_txn_def scan_rows_def get_row_def bind_result_Inr

theorem station_table_contract_witness:
  "\<exists>d after. upsert_station (mem_db 1) [] (sample_station ''A'') = (d, Inr ())
     \<and> load_stations (mem_db 1) wide_micros d = Inr after
     \<and> set after = {sample_station ''A''\<lparr>se_last_heard := 5000\<rparr>}
     \<and> \<not> is_ok (snd (upsert_station (mem_db 1) d (sample_station ''B'')))"
proof -
  let ?r = "R_Station (station_from_entry (sample_station ''A''))"
  let ?d = "[(row_key ?r, ?r)]"
  have u: "upsert_station (mem_db 1) [] (sample_station ''A'') = (?d, Inr ())"
    by (simp add: upsert_station_def mem_eval)
  obtain after where l: "load_stations (mem_db 1) wide_micros ?d = Inr after"
    by (simp add: load_stations_def mem_eval)
  have e: "load_stations (mem_db 1) wide_micros [] = Inr []"
    by (simp add: load_stations_def mem_eval station_rows_def List.map_filter_simps)
  have f: "\<not> is_ok (snd (upsert_station (mem_db 1) ?d (sample_station ''B'')))"
    by (simp add: upsert_station_def mem_eval station_from_entry_def sample_station_def less_db_key_def)
  have "set after = {sample_station ''A''\<lparr>se_last_heard := to_whole_micros (se_last_heard (sample_station ''A''))\<rparr>}"
    using station_table_contract [OF mem.native_db_laws_axioms mem_ok_Nil e wide_micros_ok, THEN conjunct1,
        rule_format, of "sample_station ''A''" ?d "Inr ()" after] u l
    by (simp add: to_micros_def timestamp_micros_def sample_station_def)
  moreover have "to_whole_micros (se_last_heard (sample_station ''A'')) = 5000"
    by (simp add: to_whole_micros_def to_micros_def timestamp_micros_def sample_station_def)
  ultimately have "set after = {sample_station ''A''\<lparr>se_last_heard := 5000\<rparr>}" by simp
  with u l f show ?thesis by blast
qed

text \<open>
  C16. The packet log: a query for a station returns that station's stored
  packets, all of them, newest first. A packet stored is found again under its receive time to
  the microsecond (and replaces a packet stored under the same microsecond); pruning with a
  cutoff removes exactly the packets received before it; a write that fails changes nothing.
\<close>

theorem packet_history_query:
  assumes "native_db_laws nd rows ok" and "ok d"
    and "load_packets_by_source nd from_us now d src = Inr found"
  shows "(\<exists>rs. found = map (packet_into_packet from_us now) rs \<and> sorted_wrt (>) (map r4_key_micros rs)
      \<and> set rs = {p. r4_source p = src \<and> packet_at (rows d) (r4_key_micros p) = Some p})
    \<and> (\<forall>p d' r. insert_packet nd d p = (d', r) \<longrightarrow> ok d' \<and> packet_at (rows d') = (if is_ok r
        then (packet_at (rows d))(to_micros (p_receivetime p) \<mapsto> packet_from_packet p) else packet_at (rows d)))
    \<and> (\<forall>c d' r. prune_packets nd d c = (d', r) \<longrightarrow> ok d' \<and> packet_at (rows d') = (if is_ok r
        then (\<lambda>k. if k < c then None else packet_at (rows d) k) else packet_at (rows d)))"
proof -
  have "\<exists>rs. found = map (packet_into_packet from_us now) rs \<and> sorted_wrt (>) (map r4_key_micros rs)
      \<and> set rs = {p. r4_source p = src \<and> packet_at (rows d) (r4_key_micros p) = Some p}"
    using native_db_laws.load_by_source [OF assms] by auto
  then show ?thesis
    using native_db_laws.insert_packet_at [OF assms(1,2)] native_db_laws.prune_packets_at [OF assms(1,2)]
    by blast
qed

definition two_packets :: mem_state where
  "two_packets = fst (insert_packet (mem_db 9) (fst (insert_packet (mem_db 9) [] plain_packet))
     (plain_packet\<lparr>p_receivetime := 1700000001 * 1000000000\<rparr>))"

lemmas packet_eval = insert_packet_def mem_eval packet_from_packet_def plain_packet_def to_micros_def
  timestamp_micros_def load_packets_by_source_def prune_packets_def

theorem packet_history_query_witness:
  "\<exists>found. load_packets_by_source (mem_db 9) wide_micros 0 two_packets ''A'' = Inr found
     \<and> (\<exists>rs. found = map (packet_into_packet wide_micros 0) rs \<and> sorted_wrt (>) (map r4_key_micros rs)
       \<and> 1700000001000000 \<in> r4_key_micros ` set rs)"
proof -
  have ok1: "mem_ok (fst (insert_packet (mem_db 9) d p))" if "mem_ok d" for d p
    using mem.insert_packet_at [OF that, of 9 p] by (metis fst_conv surj_pair)
  have ok: "mem_ok two_packets" unfolding two_packets_def by (intro ok1 mem_ok_Nil)
  obtain found where f: "load_packets_by_source (mem_db 9) wide_micros 0 two_packets ''A'' = Inr found"
    by (simp add: load_packets_by_source_def mem_eval)
  have "\<exists>p. packet_at (map_of two_packets) 1700000001000000 = Some p \<and> r4_source p = ''A''
      \<and> r4_key_micros p = 1700000001000000"
    by (simp add: two_packets_def packet_at_def packet_eval)
  with packet_history_query [OF mem.native_db_laws_axioms ok f] f show ?thesis by force
qed

text \<open>
  Counters resume where they stopped: after a successful save, a later load
  gives the saved value (the packet counters, the APRS-IS counters, the telemetry sequence
  number), and saves of the other two in between do not disturb it.
\<close>

theorem counters_resume:
  assumes "native_db_laws nd rows ok" and "ok d"
    and "save_telemetry_seq nd d n = (d1, Inr u1)" and "save_packet_lifetime nd d1 p = (d2, Inr u2)"
    and "save_aprsis_lifetime nd d2 a = (d3, r3)"
    and "load_telemetry_seq nd d3 = Inr n'" and "load_packet_lifetime nd d3 = Inr p'"
    and "load_aprsis_lifetime nd d3 = Inr a'"
  shows "n' = Some n \<and> p' = p\<lparr>pl_id := singleton\<rparr> \<and> (is_ok r3 \<longrightarrow> a' = a\<lparr>al_id := singleton\<rparr>)"
  using native_db_laws.counters_kept [OF assms] .

theorem counters_resume_witness:
  "\<exists>d1 d2 d3. save_telemetry_seq (mem_db 2) [] 41 = (d1, Inr ())
     \<and> save_packet_lifetime (mem_db 2) d1 (default_packet_lifetime\<lparr>pl_total := 7\<rparr>) = (d2, Inr ())
     \<and> fst (save_aprsis_lifetime (mem_db 2) d2 default_aprsis_lifetime) = d3
     \<and> load_telemetry_seq (mem_db 2) d3 = Inr (Some 41)"
proof -
  obtain d1 where 1: "save_telemetry_seq (mem_db 2) [] 41 = (d1, Inr ())"
    by (simp add: save_telemetry_seq_def mem_eval)
  obtain d2 where 2: "save_packet_lifetime (mem_db 2) d1 (default_packet_lifetime\<lparr>pl_total := 7\<rparr>) = (d2, Inr ())"
    using 1 by (auto simp: save_telemetry_seq_def save_packet_lifetime_def mem_eval less_db_key_def)
  obtain d3 r3 where 3: "save_aprsis_lifetime (mem_db 2) d2 default_aprsis_lifetime = (d3, r3)"
    by (cases "save_aprsis_lifetime (mem_db 2) d2 default_aprsis_lifetime")
  obtain n' where 4: "load_telemetry_seq (mem_db 2) d3 = Inr n'"
    by (simp add: load_telemetry_seq_def mem_eval)
  obtain p' where 5: "load_packet_lifetime (mem_db 2) d3 = Inr p'"
    by (simp add: load_packet_lifetime_def mem_eval)
  obtain a' where 6: "load_aprsis_lifetime (mem_db 2) d3 = Inr a'"
    by (simp add: load_aprsis_lifetime_def mem_eval)
  from counters_resume [OF mem.native_db_laws_axioms mem_ok_Nil 1 2 3 4 5 6] 1 2 3 4
  show ?thesis by (metis fst_conv)
qed

text \<open>
  Two packets stamped with the same microsecond share a key: the second takes the place of the
  first in the log, whatever their sources.
\<close>

lemma same_microsecond_overwrites:
  assumes "native_db_laws nd rows ok" and "ok d"
    and "insert_packet nd d p = (d1, Inr u1)" and "insert_packet nd d1 q = (d2, Inr u2)"
    and "to_micros (p_receivetime p) = to_micros (p_receivetime q)"
  shows "packet_at (rows d2) = (packet_at (rows d))(to_micros (p_receivetime q) \<mapsto> packet_from_packet q)"
  using native_db_laws.insert_packet_at [OF assms(1,2,3)]
    native_db_laws.insert_packet_at [OF assms(1) _ assms(4)] assms(5) by simp

end
