(* ===== verification/Task_Support.thy ===== *)
theory Task_Support
  imports App_Config
begin

text \<open>
  What the long-running tasks share: the backoff between connection attempts, the series a task
  publishes, the duplicate cache of the APRS-IS task, and the control flow of their loops. The
  three interfaces are locales, interpreted on the definitions below.
\<close>

section \<open>Control flow\<close>

text \<open>How an arm of \<open>select!\<close> leaves the inner loop: it falls through or continues, or it breaks.\<close>

datatype flow = Go | Break

text \<open>A \<open>panic!\<close> as a value, beside the values a function returns.\<close>

datatype 'a outcome = Returns (returned: 'a) | Panics string

section \<open>Backoff\<close>

definition initial_backoff :: u64 where
  "initial_backoff = 5"

definition max_backoff_secs :: u64 where
  "max_backoff_secs = 300"

definition next_backoff :: "u64 \<Rightarrow> u64" where
  "next_backoff b = min (b * 2) max_backoff_secs"

locale capped_backoff =
  fixes first :: "'b::linorder"
    and cap :: "'b"
    and succ :: "'b \<Rightarrow> 'b"
  assumes first_cap: "first \<le> cap"
    and succ_cap: "succ b \<le> cap"
    and succ_grows: "first \<le> b \<Longrightarrow> b \<le> cap \<Longrightarrow> b \<le> succ b"
begin

definition in_bounds :: "'b \<Rightarrow> bool" where
  "in_bounds b = (first \<le> b \<and> b \<le> cap)"

lemma in_bounds_first: "in_bounds first"
  by (simp add: in_bounds_def first_cap)

lemma in_bounds_succ: "in_bounds b \<Longrightarrow> in_bounds (succ b)"
  using succ_grows [of b] succ_cap [of b] by (auto simp: in_bounds_def)

lemma in_bounds_iter: "in_bounds b \<Longrightarrow> in_bounds ((succ ^^ n) b)"
  by (induction n) (simp_all add: in_bounds_succ)

lemma iter_grows: "in_bounds b \<Longrightarrow> (succ ^^ n) b \<le> (succ ^^ Suc n) b"
  using in_bounds_iter [of b n] succ_grows by (simp add: in_bounds_def)

end

lemma next_backoff_unat: "b \<le> 300 \<Longrightarrow> unat (next_backoff b) = min (2 * unat b) 300"
proof -
  assume b: "b \<le> 300"
  then have "unat b \<le> 300" by (simp add: word_le_nat_alt)
  then have "unat (b * 2) = 2 * unat b" by (simp add: unat_word_ariths)
  then show ?thesis by (simp add: next_backoff_def max_backoff_secs_def min_def word_le_nat_alt)
qed

interpretation backoff: capped_backoff initial_backoff max_backoff_secs next_backoff
proof
  show "initial_backoff \<le> max_backoff_secs" by (simp add: initial_backoff_def max_backoff_secs_def)
  show "next_backoff b \<le> max_backoff_secs" for b by (simp add: next_backoff_def)
  show "b \<le> next_backoff b" if "initial_backoff \<le> b" "b \<le> max_backoff_secs" for b
    using next_backoff_unat [of b] that
    by (simp add: initial_backoff_def max_backoff_secs_def word_le_nat_alt min_def)
qed

text \<open>The waits of a row of failures: 5, 10, 20, 40, 80, 160, 300, 300, \<dots> seconds.\<close>

lemma backoff_iter: "unat ((next_backoff ^^ n) initial_backoff) = min (5 * 2 ^ n) 300"
proof (induction n)
  case (Suc n)
  have "(next_backoff ^^ n) initial_backoff \<le> 300"
    using backoff.in_bounds_iter [OF backoff.in_bounds_first, of n]
    by (simp only: backoff.in_bounds_def) (simp add: max_backoff_secs_def)
  with Suc show ?case using next_backoff_unat by simp
qed (simp add: initial_backoff_def)

section \<open>Series\<close>

definition empty_series :: "string \<Rightarrow> data_series" where
  "empty_series name = \<lparr> ds_name = name, ds_data = [] \<rparr>"

text \<open>Push a point at the back and, beyond 100 points, pop one at the front.\<close>

definition push_point :: "datetime \<Rightarrow> u32 \<Rightarrow> data_series \<Rightarrow> data_series" where
  "push_point t v s = (let ps = ds_data s @ [\<lparr> dp_timestamp = t, dp_value = v \<rparr>]
     in s\<lparr>ds_data := (if 100 < length ps then tl ps else ps)\<rparr>)"

locale bounded_series =
  fixes push :: "'t \<Rightarrow> 'v \<Rightarrow> 's \<Rightarrow> 's"
    and points :: "'s \<Rightarrow> ('t \<times> 'v) list"
    and bound :: nat
  assumes bound_pos: "0 < bound"
    and points_push: "length (points s) \<le> bound \<Longrightarrow>
      points (push t v s) = (if length (points s) < bound then points s @ [(t, v)] else tl (points s) @ [(t, v)])"
begin

lemma length_push: "length (points s) \<le> bound \<Longrightarrow> length (points (push t v s)) \<le> bound"
  using points_push [of s t v] bound_pos by (cases "points s") auto

lemma last_push: "length (points s) \<le> bound \<Longrightarrow> last (points (push t v s)) = (t, v)"
  using points_push [of s t v] by (simp split: if_splits)

lemma push_all:
  "length (points s) \<le> bound \<Longrightarrow> length (points s @ tvs) \<le> bound \<Longrightarrow>
     points (fold (\<lambda>(t, v). push t v) tvs s) = points s @ tvs"
proof (induction tvs arbitrary: s)
  case (Cons tv tvs)
  then show ?case using points_push [of s "fst tv" "snd tv"] by (simp add: case_prod_unfold)
qed simp

lemma sorted_push:
  "length (points s) \<le> bound \<Longrightarrow> sorted_wrt R (points s) \<Longrightarrow> \<forall>p\<in>set (points s). R p (t, v) \<Longrightarrow>
     sorted_wrt R (points (push t v s))"
  using points_push [of s t v]
  by (cases "points s") (auto simp: sorted_wrt_append)

end

definition series_points :: "data_series \<Rightarrow> (datetime \<times> u32) list" where
  "series_points s = map (\<lambda>p. (dp_timestamp p, dp_value p)) (ds_data s)"

interpretation series: bounded_series push_point series_points 100
proof
  show "(0::nat) < 100" by simp
  show "series_points (push_point t v s) = (if length (series_points s) < 100
      then series_points s @ [(t, v)] else tl (series_points s) @ [(t, v)])"
    if "length (series_points s) \<le> 100" for s t v
    using that by (cases "ds_data s") (auto simp: series_points_def push_point_def Let_def)
qed

lemma push_point_name [simp]: "ds_name (push_point t v s) = ds_name s"
  by (simp add: push_point_def Let_def)

section \<open>The duplicate cache\<close>

type_synonym dedup_map = "string \<rightharpoonup> int"

definition dedup_ttl_secs :: int where
  "dedup_ttl_secs = 30"

text \<open>\<open>retain\<close> of the entries younger than the limit.\<close>

definition cache_purge :: "int \<Rightarrow> dedup_map \<Rightarrow> dedup_map" where
  "cache_purge now m = (\<lambda>k. case m k of
     Some ts \<Rightarrow> if now - ts < dedup_ttl_secs then Some ts else None | None \<Rightarrow> None)"

definition cache_hit :: "int \<Rightarrow> string \<Rightarrow> dedup_map \<Rightarrow> bool" where
  "cache_hit now k m = (case m k of Some ts \<Rightarrow> now - ts < dedup_ttl_secs | None \<Rightarrow> False)"

definition cache_insert :: "string \<Rightarrow> int \<Rightarrow> dedup_map \<Rightarrow> dedup_map" where
  "cache_insert k now m = m(k \<mapsto> now)"

text \<open>
  A cache of last times: \<open>get\<close>, \<open>put\<close> and a \<open>purge\<close> that may forget only what is past its time.
  A client \<open>offers\<close> keys at times and accepts those that do not hit; it records an accepted key
  unless something went wrong in between.
\<close>

datatype 'k cache_event = Tick int | Offer 'k int bool

locale ttl_cache =
  fixes ttl :: int
    and get :: "'m \<Rightarrow> 'k \<Rightarrow> int option"
    and put :: "'k \<Rightarrow> int \<Rightarrow> 'm \<Rightarrow> 'm"
    and purge :: "int \<Rightarrow> 'm \<Rightarrow> 'm"
    and hit :: "int \<Rightarrow> 'k \<Rightarrow> 'm \<Rightarrow> bool"
  assumes get_put: "get (put k t m) j = (if j = k then Some t else get m j)"
    and get_purge: "get (purge t m) k = get m k \<or> (\<exists>s. get m k = Some s \<and> s + ttl \<le> t)"
    and hit_iff: "hit t k m \<longleftrightarrow> (\<exists>s. get m k = Some s \<and> t - s < ttl)"
begin

definition accepts :: "'k cache_event \<Rightarrow> 'm \<Rightarrow> ('k \<times> int) list" where
  "accepts e m = (case e of Offer k t True \<Rightarrow> if hit t k m then [] else [(k, t)] | _ \<Rightarrow> [])"

definition advance :: "'k cache_event \<Rightarrow> 'm \<Rightarrow> 'm" where
  "advance e m = (case e of Tick t \<Rightarrow> purge t m
     | Offer k t ok \<Rightarrow> if hit t k m \<or> \<not> ok then m else put k t m)"

definition event_time :: "'k cache_event \<Rightarrow> int" where
  "event_time e = (case e of Tick t \<Rightarrow> t | Offer k t ok \<Rightarrow> t)"

text \<open>\<open>acc\<close> is what has been accepted, in order, and \<open>c\<close> the last time read.\<close>

definition cache_inv :: "'m \<Rightarrow> int \<Rightarrow> ('k \<times> int) list \<Rightarrow> bool" where
  "cache_inv m c acc = ((\<forall>(k, t) \<in> set acc. t \<le> c \<and> (t + ttl \<le> c \<or> (\<exists>s. get m k = Some s \<and> t \<le> s)))
     \<and> sorted_wrt (\<lambda>(k, t) (j, u). k = j \<longrightarrow> t + ttl \<le> u) acc)"

lemma cache_inv_Nil: "cache_inv m c []"
  by (simp add: cache_inv_def)

lemma cache_inv_mono: "cache_inv m c acc \<Longrightarrow> c \<le> d \<Longrightarrow> cache_inv m d acc"
  unfolding cache_inv_def by (force simp: case_prod_unfold)

lemma cache_inv_step:
  assumes "cache_inv m c acc" and "c \<le> event_time e"
  shows "cache_inv (advance e m) (event_time e) (acc @ accepts e m)"
proof -
  let ?c = "event_time e"
  have old: "u \<le> ?c \<and> (u + ttl \<le> ?c \<or> (\<exists>s. get m j = Some s \<and> u \<le> s))" if "(j, u) \<in> set acc" for j u
  proof -
    have "u \<le> c \<and> (u + ttl \<le> c \<or> (\<exists>s. get m j = Some s \<and> u \<le> s))"
      using assms(1) that unfolding cache_inv_def by blast
    then show ?thesis using assms(2) by auto
  qed
  have apart: "sorted_wrt (\<lambda>(k, t) (j, u). k = j \<longrightarrow> t + ttl \<le> u) acc"
    using assms(1) by (simp add: cache_inv_def)
  show ?thesis
  proof (cases e)
    case (Tick t)
    have "u + ttl \<le> t \<or> (\<exists>s. get (purge t m) j = Some s \<and> u \<le> s)" if "(j, u) \<in> set acc" for j u
      using old [OF that] get_purge [of t m j] by (auto simp: event_time_def Tick)
    with old apart show ?thesis by (auto simp: cache_inv_def event_time_def Tick accepts_def advance_def)
  next
    case (Offer k t ok)
    show ?thesis
    proof (cases "hit t k m \<or> \<not> ok")
      case True
      then have "accepts e m = []" "advance e m = m" by (auto simp: Offer accepts_def advance_def split: bool.split)
      with old apart show ?thesis by (auto simp: cache_inv_def)
    next
      case False
      then have ok: "ok" "\<not> hit t k m" by simp_all
      have far: "u + ttl \<le> t" if "(k, u) \<in> set acc" for u
        using old [OF that] ok(2) hit_iff [of t k m] by (auto simp: event_time_def Offer)
      have "u + ttl \<le> t \<or> (\<exists>s. get (put k t m) j = Some s \<and> u \<le> s)" if "(j, u) \<in> set acc" for j u
        using old [OF that] get_put [of k t m j] by (auto simp: event_time_def Offer)
      moreover have "accepts e m = [(k, t)]" "advance e m = put k t m" "event_time e = t"
        using ok by (simp_all add: Offer accepts_def advance_def event_time_def)
      moreover have "sorted_wrt (\<lambda>(k, t) (j, u). k = j \<longrightarrow> t + ttl \<le> u) (acc @ [(k, t)])"
        using apart far by (auto simp: sorted_wrt_append)
      ultimately show ?thesis using old get_put [of k t m k] by (auto simp: cache_inv_def)
    qed
  qed
qed

end

interpretation dedup: ttl_cache dedup_ttl_secs "\<lambda>m. m" cache_insert cache_purge cache_hit
  by unfold_locales
    (auto simp: cache_insert_def cache_purge_def cache_hit_def split: option.split)

end
