(* ===== verification/Aprs_Login.thy ===== *)
theory Aprs_Login
  imports Task_Support Telemetry_Report Stat_Store
begin

text \<open>
  The start of the APRS-IS task and its login (\<open>src/aprs_is.rs\<close>): what the task takes from the
  configuration, the counters it restores from the store, and \<open>login_to_aprsis\<close>.

  Parameters: the socket's reads and writes (one value per call), the legacy sequence file of
  \<open>Telemetry_Report\<close>, and the Unicode case tables for characters outside ASCII.
\<close>

section \<open>What the task takes from the configuration\<close>

record aprsis_setup =
  u_host :: string
  u_port :: u32
  u_login :: string
  u_callsign :: string
  u_beaconing :: bool
  u_igating :: bool
  u_station_name :: string
  u_symbol :: "string option"
  u_overlay :: "string option"
  u_dao :: dao_mode
  u_location :: location
  u_position_source :: position_source
  u_move_threshold :: f64
  u_min_beacon_secs :: u64
  u_rw :: bool
  u_telemetry_threshold :: u64

text \<open>\<open>tokio::time::interval\<close> panics on a period of zero.\<close>

definition make_interval :: "u64 \<Rightarrow> (unit \<Rightarrow> 'a outcome) \<Rightarrow> 'a outcome" where
  "make_interval period k = (if period = 0 then Panics ''`period` must be non-zero.'' else k ())"

definition aprsis_setup_of :: "(string \<Rightarrow> string) \<Rightarrow> config \<Rightarrow> aprsis_setup result outcome" where
  "aprsis_setup_of uc c = (case ais_host (cfg_aprsis c) of
     None \<Rightarrow> Returns (Inl (Config_Err ''Unable to determine APRS-IS host''))
   | Some host \<Rightarrow> (case ais_port (cfg_aprsis c) of
     None \<Rightarrow> Returns (Inl (Config_Err ''Unable to determine APRS-IS port number''))
   | Some port \<Rightarrow> (case sta_callsign (cfg_station c) of
     None \<Rightarrow> Returns (Inl (Config_Err ''Unable to determine station callsign''))
   | Some callsign \<Rightarrow>
     let threshold = or_default 600 (ais_threshold (cfg_aprsis c));
         min_secs = gpsd_min_beacon_secs_eff (gpsd_config_of c)
     in make_interval threshold (\<lambda>_. make_interval min_secs (\<lambda>_. Returns (Inr \<lparr>
          u_host = host, u_port = port, u_login = aprsis_login_string uc c, u_callsign = callsign,
          u_beaconing = or_default False (ais_beaconing (cfg_aprsis c)),
          u_igating = or_default False (ais_igating (cfg_aprsis c)),
          u_station_name = or_default (callsign @ CHR 0x27 # ''s station'') (sta_name (cfg_station c)),
          u_symbol = ais_symbol (cfg_aprsis c), u_overlay = ais_overlay (cfg_aprsis c),
          u_dao = dao_mode_of c, u_location = cfg_location c,
          u_position_source = loc_source (cfg_location c),
          u_move_threshold = gpsd_move_threshold_eff (gpsd_config_of c),
          u_min_beacon_secs = min_secs, u_rw = passcode_isvalid uc c,
          u_telemetry_threshold = threshold \<rparr>))))))"

text \<open>The task's own start succeeds.\<close>

definition started :: "'a result outcome \<Rightarrow> bool" where
  "started r = (case r of Returns x \<Rightarrow> is_ok x | Panics m \<Rightarrow> False)"

definition panicked :: "'a outcome \<Rightarrow> bool" where
  "panicked r = (case r of Returns x \<Rightarrow> False | Panics m \<Rightarrow> True)"

text \<open>
  A validated configuration with APRS-IS enabled starts the task, unless a period is zero: that
  is the one thing validation does not look at, and then the task panics.
\<close>

lemma validated_setup:
  assumes "validate exists c = []" and "ais_enabled (cfg_aprsis c) = Some True"
  shows "if ais_threshold (cfg_aprsis c) = Some 0 \<or> gpsd_min_beacon_secs_eff (gpsd_config_of c) = 0
    then panicked (aprsis_setup_of uc c) else started (aprsis_setup_of uc c)"
proof -
  from assms obtain cs h p where "sta_callsign (cfg_station c) = Some cs" "ais_host (cfg_aprsis c) = Some h"
      "ais_port (cfg_aprsis c) = Some p"
    by (auto simp: validate_Nil required_ok_def Let_def)
  then show ?thesis
    by (cases "ais_threshold (cfg_aprsis c)")
      (simp_all add: aprsis_setup_of_def make_interval_def panicked_def started_def)
qed

lemma setup_fields:
  assumes "aprsis_setup_of uc c = Returns (Inr u)"
  shows "sta_callsign (cfg_station c) = Some (u_callsign u) \<and> u_rw u = passcode_isvalid uc c
    \<and> u_login u = aprsis_login_string uc c \<and> u_location u = cfg_location c
    \<and> u_position_source u = loc_source (cfg_location c)
    \<and> u_move_threshold u = gpsd_move_threshold_eff (gpsd_config_of c)
    \<and> 0 < u_telemetry_threshold u \<and> 0 < u_min_beacon_secs u"
  using assms by (auto simp: aprsis_setup_of_def make_interval_def Let_def word_neq_0_conv
      split: option.splits if_splits)

section \<open>What the task restores\<close>

text \<open>The lifetime counters of the task, and what it is in the middle of.\<close>

definition legacy_seq_file :: string where
  "legacy_seq_file = ''/tmp/telem-seq.txt''"

text \<open>
  The sequence number: from the store; on the first run from the legacy file, whose value is then
  saved (a failed save is only logged); zero when the store cannot be read. \<open>file_exists\<close> is
  \<open>try_exists\<close>, \<open>read_file\<close> is \<open>read_telemetry_file\<close> on the file system it finds.
\<close>

definition restore_sequence :: "'d native_db \<Rightarrow> (string \<Rightarrow> io_error + bool) \<Rightarrow> (string \<Rightarrow> int result) \<Rightarrow> 'd
    \<Rightarrow> u32 \<times> 'd" where
  "restore_sequence nd file_exists read_file d = (case load_telemetry_seq nd d of
     Inr (Some n) \<Rightarrow> (n, d)
   | Inr None \<Rightarrow>
       (let n = (case file_exists legacy_seq_file of
            Inr True \<Rightarrow> of_int (unwrap_or 0 (read_file legacy_seq_file)) | _ \<Rightarrow> 0)
        in (n, fst (save_telemetry_seq nd d n)))
   | Inl e \<Rightarrow> (0, d))"

section \<open>Reads and writes\<close>

text \<open>A line read from the socket, the end of the stream, or an error (invalid UTF-8 is one).\<close>

datatype line_result = L_Line string | L_Eof | L_Err io_error

text \<open>
  A bounded write: done, failed or timed out. In the last two cases \<open>n\<close> bytes had reached the
  socket.
\<close>

datatype write_result = W_Ok | W_Err nat io_error | W_Timeout nat

fun write_done :: "write_result \<Rightarrow> bool" where
  "write_done W_Ok = True"
| "write_done _ = False"

section \<open>Login\<close>

text \<open>
  \<open>str::to_lowercase\<close> per character, with the Unicode table \<open>lc\<close> outside ASCII (the one rule
  that looks at neighbours is the final sigma, both of whose forms are outside ASCII).
\<close>

definition to_lowercase :: "(string \<Rightarrow> string) \<Rightarrow> string \<Rightarrow> string" where
  "to_lowercase lc s = concat (map (\<lambda>ch. case ch of [c] \<Rightarrow> (if is_ascii c then [ascii_lower c] else lc ch)
     | _ \<Rightarrow> lc ch) (utf8_chars s))"

record login_io =
  li_version :: line_result
  li_write :: "io_error option"
  li_flush :: "io_error option"
  li_response :: line_result

definition host_port :: "aprsis_setup \<Rightarrow> string" where
  "host_port u = u_host u @ '':'' @ show_dec (uint (u_port u))"

definition login_verdict :: "(string \<Rightarrow> string) \<Rightarrow> bool \<Rightarrow> string \<Rightarrow> bool" where
  "login_verdict lc rw r = (let lower = to_lowercase lc r in
     if rw \<and> str_contains ''unverified'' lower then False
     else if rw \<and> \<not> str_contains ''verified'' lower then False
     else True)"

definition login_to_aprsis :: "(string \<Rightarrow> string) \<Rightarrow> aprsis_setup \<Rightarrow> login_io \<Rightarrow> bool result" where
  "login_to_aprsis lc u io = (case li_version io of
     L_Eof \<Rightarrow> Inl (Network (''Connection closed by '' @ host_port u @ '' before login''))
   | L_Err e \<Rightarrow> Inl (Network (''Error reading from '' @ host_port u @ '': '' @ io_text e))
   | L_Line v \<Rightarrow> (case li_write io of
       Some e \<Rightarrow> Inl (from_io e)
     | None \<Rightarrow> (case li_flush io of
       Some e \<Rightarrow> Inl (from_io e)
     | None \<Rightarrow> (case li_response io of
         L_Eof \<Rightarrow> Inl (Network (''Connection closed by '' @ host_port u @ '' during login''))
       | L_Err e \<Rightarrow> Inl (Network (''Error reading login response from '' @ host_port u @ '': '' @ io_text e))
       | L_Line r \<Rightarrow> Inr (login_verdict lc (u_rw u) r)))))"

text \<open>The login string is written once the server has shown its version line, and not before.\<close>

definition login_written :: "login_io \<Rightarrow> bool" where
  "login_written io = (case li_version io of L_Line v \<Rightarrow> True | _ \<Rightarrow> False)"

lemma login_ok_iff:
  "login_to_aprsis lc u io = Inr True \<longleftrightarrow> (\<exists>v r. li_version io = L_Line v \<and> li_write io = None
     \<and> li_flush io = None \<and> li_response io = L_Line r \<and> login_verdict lc (u_rw u) r)"
  by (auto simp: login_to_aprsis_def split: line_result.splits option.splits)

lemma login_verdict_iff:
  "login_verdict lc rw r \<longleftrightarrow> (rw \<longrightarrow> str_contains ''verified'' (to_lowercase lc r)
     \<and> \<not> str_contains ''unverified'' (to_lowercase lc r))"
  by (simp add: login_verdict_def Let_def)

lemma to_lowercase_ascii: "\<forall>c\<in>set s. is_ascii c \<Longrightarrow> to_lowercase lc s = map ascii_lower s"
  by (simp add: to_lowercase_def utf8_chars_ascii comp_def) (induction s; simp)

end
