(* ===== verification/Aprs_Loop.thy ===== *)
theory Aprs_Loop
  imports Aprs_Login Position_Beacon Igate_Rules
begin

text \<open>
  The inner loop of the APRS-IS task (\<open>src/aprs_is.rs\<close>): the task's local variables as a record,
  one definition per arm of the \<open>select!\<close>, and what each arm sends to the socket, to the data
  channel and to the store, as a list of actions in order.

  An event carries what the arm reads from outside: the clocks, the GPS state, the packet, and
  for each write how it ended. Counters wrap as in the release build.
\<close>

section \<open>State\<close>

record aprsis_state =
  v_rf_received :: u32
  v_dropped :: u32
  v_heard_direct :: u32
  v_received_sat :: u32
  v_received_other :: u32
  v_packets_dropped :: u32
  v_packets_igated :: u32
  v_stats_rf_received :: u32
  v_life_rf_received :: u64
  v_life_igated :: u64
  v_life_dropped :: u64
  v_drops_stale :: u64
  v_drops_rfonly :: u64
  v_drops_query :: u64
  v_drops_thirdparty :: u64
  v_drops_sat :: u64
  v_drops_duplicate :: u64
  v_drops_malformed :: u64
  v_lagged_drops :: u64
  v_rf_received_series :: data_series
  v_dropped_series :: data_series
  v_igated_series :: data_series
  v_reconnect_series :: data_series
  v_last_beacon_pos :: "(f64 \<times> f64) option"
  v_sequence :: u32
  v_dedup_cache :: dedup_map
  v_total_reconnects :: u32
  v_reconnects_interval :: u32
  v_first_connect :: bool
  v_backoff_secs :: u64

text \<open>The variables as the task initialises them, with the sequence and counters restored.\<close>

definition initial_state :: "u32 \<Rightarrow> aprsis_lifetime \<Rightarrow> aprsis_state" where
  "initial_state sequence al = \<lparr>
     v_rf_received = 0, v_dropped = 0, v_heard_direct = 0, v_received_sat = 0, v_received_other = 0,
     v_packets_dropped = 0, v_packets_igated = 0, v_stats_rf_received = 0,
     v_life_rf_received = al_rf_received al, v_life_igated = al_packets_igated al,
     v_life_dropped = al_packets_dropped al,
     v_drops_stale = al_drops_stale al, v_drops_rfonly = al_drops_rfonly al,
     v_drops_query = al_drops_query al, v_drops_thirdparty = al_drops_thirdparty al,
     v_drops_sat = al_drops_sat al, v_drops_duplicate = al_drops_duplicate al,
     v_drops_malformed = al_drops_malformed al, v_lagged_drops = al_lagged_drops al,
     v_rf_received_series = empty_series ''rf_received'',
     v_dropped_series = empty_series ''packets_dropped'',
     v_igated_series = empty_series ''packets_igated'',
     v_reconnect_series = empty_series ''aprsis_reconnects'',
     v_last_beacon_pos = None, v_sequence = sequence, v_dedup_cache = Map.empty,
     v_total_reconnects = ucast (al_reconnects al), v_reconnects_interval = 0,
     v_first_connect = True, v_backoff_secs = initial_backoff \<rparr>"

definition aprsis_init :: "'d native_db \<Rightarrow> (string \<Rightarrow> io_error + bool) \<Rightarrow> (string \<Rightarrow> int result) \<Rightarrow> 'd
    \<Rightarrow> aprsis_state \<times> 'd" where
  "aprsis_init nd file_exists read_file d =
     (let (n, d') = restore_sequence nd file_exists read_file d
      in (initial_state n (unwrap_or default_aprsis_lifetime (load_aprsis_lifetime nd d')), d'))"

section \<open>Actions and events\<close>

text \<open>
  \<open>A_Write bs w\<close>: \<open>write_all\<close> of \<open>bs\<close>, which ended as \<open>w\<close>. A failed publication or save is
  only logged, so the state does not depend on it.
\<close>

datatype aprsis_action =
    A_Login string
  | A_Write bytes write_result
  | A_Publish aprsis_telemetry
  | A_SaveLifetime aprsis_lifetime
  | A_SaveSeq u32
  | A_Shutdown

datatype read_result = R_Eof | R_Data bytes | R_Err io_error

text \<open>
  The arms: the statistics tick (\<open>Local::now\<close>, \<open>Utc::now\<close>), data from the server, a packet (the
  monotonic clock of the gate, the wall clock of the duplicate check, the end of the write), a
  lagged channel, any other item of the channel, the telemetry tick (clocks, GPS state, the ends
  of the beacon's write and of the report's writes) and the movement tick.
\<close>

datatype inner_event =
    Ev_Stats datetime datetime
  | Ev_Read read_result
  | Ev_Packet instant datetime write_result rtp_packet
  | Ev_Lagged u64
  | Ev_Other
  | Ev_Beacon instant datetime "gps_fix option option" write_result "nat \<Rightarrow> write_result"
  | Ev_Move instant datetime "gps_fix option option" write_result

type_synonym step_result = "aprsis_state \<times> aprsis_action list \<times> flow"

section \<open>Statistics\<close>

definition lifetime_record :: "aprsis_state \<Rightarrow> aprsis_lifetime" where
  "lifetime_record s = \<lparr> al_id = 0, al_rf_received = v_life_rf_received s,
     al_packets_igated = v_life_igated s, al_packets_dropped = v_life_dropped s,
     al_reconnects = ucast (v_total_reconnects s), al_drops_stale = v_drops_stale s,
     al_drops_rfonly = v_drops_rfonly s, al_drops_query = v_drops_query s,
     al_drops_thirdparty = v_drops_thirdparty s, al_drops_sat = v_drops_sat s,
     al_drops_duplicate = v_drops_duplicate s, al_drops_malformed = v_drops_malformed s,
     al_lagged_drops = v_lagged_drops s \<rparr>"

definition aprsis_report :: "datetime \<Rightarrow> datetime \<Rightarrow> aprsis_state \<Rightarrow> aprsis_telemetry" where
  "aprsis_report the_time now s = \<lparr> at_name = ''aprsis_statistics'', at_timestamp = the_time,
     at_microsecs = fp_div B64 (fp_of_int B64 (timestamp_micros now)) (Fin 1000000),
     at_reconnects = v_reconnect_series s, at_packets_igated = v_igated_series s,
     at_packets_dropped = v_dropped_series s, at_rf_received = v_rf_received_series s,
     at_lifetime_rf_received = v_life_rf_received s, at_lifetime_packets_igated = v_life_igated s,
     at_lifetime_packets_dropped = v_life_dropped s,
     at_lifetime_reconnects = ucast (v_total_reconnects s),
     at_lifetime_drops_stale = v_drops_stale s, at_lifetime_drops_rfonly = v_drops_rfonly s,
     at_lifetime_drops_query = v_drops_query s, at_lifetime_drops_thirdparty = v_drops_thirdparty s,
     at_lifetime_drops_sat = v_drops_sat s, at_lifetime_drops_duplicate = v_drops_duplicate s,
     at_lifetime_drops_malformed = v_drops_malformed s, at_lifetime_lagged_drops = v_lagged_drops s \<rparr>"

definition push_stats :: "datetime \<Rightarrow> aprsis_state \<Rightarrow> aprsis_state" where
  "push_stats t s = s\<lparr>
     v_dedup_cache := cache_purge (timestamp t) (v_dedup_cache s),
     v_rf_received_series := push_point t (v_stats_rf_received s) (v_rf_received_series s),
     v_dropped_series := push_point t (v_packets_dropped s) (v_dropped_series s),
     v_igated_series := push_point t (v_packets_igated s) (v_igated_series s),
     v_reconnect_series := push_point t (v_reconnects_interval s) (v_reconnect_series s)\<rparr>"

definition handle_stats :: "datetime \<Rightarrow> datetime \<Rightarrow> aprsis_state \<Rightarrow> step_result" where
  "handle_stats the_time now s =
     (let s1 = push_stats the_time s;
          s2 = s1\<lparr>v_packets_dropped := 0, v_packets_igated := 0, v_stats_rf_received := 0,
            v_reconnects_interval := 0\<rparr>
      in (s2, [A_Publish (aprsis_report the_time now s1), A_SaveLifetime (lifetime_record s2)], Go))"

section \<open>The server's side\<close>

text \<open>Data from the server is read to notice the end of the connection; its text is only logged.\<close>

definition handle_read :: "read_result \<Rightarrow> aprsis_state \<Rightarrow> step_result" where
  "handle_read r s = (case r of R_Eof \<Rightarrow> (s, [], Break) | R_Data raw \<Rightarrow> (s, [], Go) | R_Err e \<Rightarrow> (s, [], Break))"

section \<open>Packets\<close>

definition count_received :: "rtp_packet \<Rightarrow> aprsis_state \<Rightarrow> aprsis_state" where
  "count_received p s = s\<lparr>
     v_rf_received := v_rf_received s + 1, v_stats_rf_received := v_stats_rf_received s + 1,
     v_life_rf_received := v_life_rf_received s + 1,
     v_heard_direct := v_heard_direct s + of_bool (p_heard_direct p),
     v_received_sat := v_received_sat s + of_bool (p_is_satellite p),
     v_received_other := v_received_other s
       + (if fp_eq (p_frequency p) (lit64 (14439 / 100)) then 0 else 1)\<rparr>"

definition count_drop :: "aprsis_state \<Rightarrow> aprsis_state" where
  "count_drop s = s\<lparr>v_dropped := v_dropped s + 1, v_packets_dropped := v_packets_dropped s + 1,
     v_life_dropped := v_life_dropped s + 1\<rparr>"

fun count_reason :: "drop_reason \<Rightarrow> aprsis_state \<Rightarrow> aprsis_state" where
  "count_reason Stale s = s\<lparr>v_drops_stale := v_drops_stale s + 1\<rparr>"
| "count_reason RfOnly s = s\<lparr>v_drops_rfonly := v_drops_rfonly s + 1\<rparr>"
| "count_reason GenericQuery s = s\<lparr>v_drops_query := v_drops_query s + 1\<rparr>"
| "count_reason ThirdPartyInternet s = s\<lparr>v_drops_thirdparty := v_drops_thirdparty s + 1\<rparr>"
| "count_reason SatelliteDirect s = s\<lparr>v_drops_sat := v_drops_sat s + 1\<rparr>"
| "count_reason MalformedField s = s\<lparr>v_drops_malformed := v_drops_malformed s + 1\<rparr>"

definition dedup_key :: "rtp_packet \<Rightarrow> string" where
  "dedup_key p = p_source p @ '':'' @ p_info p"

definition record_igated :: "string \<Rightarrow> int \<Rightarrow> aprsis_state \<Rightarrow> aprsis_state" where
  "record_igated k now s = s\<lparr>v_dedup_cache := cache_insert k now (v_dedup_cache s),
     v_packets_igated := v_packets_igated s + 1, v_life_igated := v_life_igated s + 1\<rparr>"

text \<open>The last part: the line, the check at the write boundary, the write and its record.\<close>

definition igate_packet :: "aprsis_setup \<Rightarrow> int \<Rightarrow> write_result \<Rightarrow> rtp_packet \<Rightarrow> aprsis_state \<Rightarrow> step_result" where
  "igate_packet u now_ts w p s =
     (let bs = for_rxigate_bytes p (u_callsign u)
      in if embedded_crlf bs
         then (count_drop s\<lparr>v_drops_malformed := v_drops_malformed s + 1\<rparr>, [], Go)
         else if write_done w then (record_igated (dedup_key p) now_ts s, [A_Write (bs @ crlf) w], Go)
         else (s, [A_Write (bs @ crlf) w], Break))"

definition handle_packet :: "aprsis_setup \<Rightarrow> instant \<Rightarrow> datetime \<Rightarrow> write_result \<Rightarrow> rtp_packet \<Rightarrow> aprsis_state
    \<Rightarrow> step_result" where
  "handle_packet u now clock w p s =
     (let s1 = count_received p s in
      if u_igating u \<and> u_rw u then
        (case droppacket now p of
           Some reason \<Rightarrow> (count_drop (count_reason reason s1), [], Go)
         | None \<Rightarrow>
             (let now_ts = timestamp clock in
              if cache_hit now_ts (dedup_key p) (v_dedup_cache s1)
              then (count_drop s1\<lparr>v_drops_duplicate := v_drops_duplicate s1 + 1\<rparr>, [], Go)
              else igate_packet u now_ts w p s1))
      else (s1, [], Go))"

text \<open>\<open>saturating_add\<close>.\<close>

definition sat_add :: "'a::len word \<Rightarrow> 'a word \<Rightarrow> 'a word" where
  "sat_add a b = (if a + b < a then - 1 else a + b)"

definition handle_lagged :: "u64 \<Rightarrow> aprsis_state \<Rightarrow> step_result" where
  "handle_lagged n s = (s\<lparr>v_lagged_drops := sat_add (v_lagged_drops s) n\<rparr>, [], Go)"

section \<open>Beacons\<close>

text \<open>The outer option is the read lock, which fails when it is poisoned.\<close>

definition gpsd_beacon_location :: "instant \<Rightarrow> gps_fix option option \<Rightarrow> f64 option \<Rightarrow> location option" where
  "gpsd_beacon_location now gps fallback_alt = Option.bind gps (\<lambda>guard. Option.bind guard (\<lambda>fix.
     if is_fresh now fix
     then Some \<lparr> loc_lat = fix_lat fix, loc_lon = fix_lon fix,
       loc_alt = (case fix_alt_ft fix of Some a \<Rightarrow> Some a | None \<Rightarrow> fallback_alt), loc_source = Src_Gpsd \<rparr>
     else None))"

text \<open>Whether the connection is still healthy, and the write.\<close>

definition send_position_beacon :: "aprsis_setup \<Rightarrow> datetime \<Rightarrow> write_result \<Rightarrow> location
    \<Rightarrow> bool \<times> aprsis_action list" where
  "send_position_beacon u now w loc =
     (case positpacket now loc (u_callsign u) (u_station_name u) (u_symbol u) (u_overlay u) (u_dao u) of
        Inl e \<Rightarrow> (True, [])
      | Inr text \<Rightarrow> (write_done w, [A_Write (text @ crlf) w]))"

definition note_beacon :: "location \<Rightarrow> aprsis_state \<Rightarrow> aprsis_state" where
  "note_beacon loc s = (case (loc_lat loc, loc_lon loc) of
     (Some la, Some lo) \<Rightarrow> s\<lparr>v_last_beacon_pos := Some (la, lo)\<rparr> | _ \<Rightarrow> s)"

section \<open>The telemetry report\<close>

definition percent_of :: "u32 \<Rightarrow> u32 \<Rightarrow> f64" where
  "percent_of part whole =
     (if 0 < whole
      then let x = fp_div B64 (fp_mul B64 (Fin 100) (fp_of_int B64 (uint part))) (fp_of_int B64 (uint whole))
           in if fp_lt x (Fin 0) then Fin 0 else x
      else Fin 0)"

definition report_item :: "string \<Rightarrow> u64 \<Rightarrow> string \<Rightarrow> f64 \<Rightarrow> analog_item" where
  "report_item name threshold un x = \<lparr> ai_equation = quadratic_new x,
     ai_label = name @ ''_'' @ show_dec (uint (threshold div 60)) @ ''min'', ai_units = un \<rparr>"

definition report_items :: "aprsis_setup \<Rightarrow> aprsis_state \<Rightarrow> analog_item list" where
  "report_items u s = (let t = u_telemetry_threshold u in
     [report_item ''Rx'' t ''Pkts'' (fp_of_int B64 (uint (v_rf_received s))),
      report_item ''RxSat'' t ''Pkts'' (fp_of_int B64 (uint (v_received_sat s))),
      report_item ''%Drop'' t ''%'' (percent_of (v_dropped s) (v_rf_received s)),
      report_item ''%Direct'' t ''%'' (percent_of (v_heard_direct s) (v_rf_received s)),
      report_item ''RxAltFreq'' t ''Pkts'' (fp_of_int B64 (uint (v_received_other s)))])"

definition report_of :: "aprsis_setup \<Rightarrow> aprsis_state \<Rightarrow> telemetry" where
  "report_of u s = \<lparr> tl_items = report_items u s, tl_name = ''Telemetry Report'', tl_sequence = v_sequence s \<rparr>"

definition report_line :: "aprsis_setup \<Rightarrow> string \<Rightarrow> bytes" where
  "report_line u info = u_callsign u @ ''>'' @ tocall @ '',TCPIP*:'' @ info @ crlf"

text \<open>The lines in order, up to the first write that fails; \<open>i\<close> counts the writes.\<close>

fun write_lines :: "(nat \<Rightarrow> write_result) \<Rightarrow> nat \<Rightarrow> bytes list \<Rightarrow> aprsis_action list \<times> bool" where
  "write_lines ws i [] = ([], True)"
| "write_lines ws i (l # ls) =
     (if write_done (ws i) then let (as, ok) = write_lines ws (i + 1) ls in (A_Write l (ws i) # as, ok)
      else ([A_Write l (ws i)], False))"

definition send_report :: "aprsis_setup \<Rightarrow> (nat \<Rightarrow> write_result) \<Rightarrow> aprsis_state \<Rightarrow> step_result" where
  "send_report u ws s = (case to_aprs (report_of u s) (u_callsign u) of
     Inl e \<Rightarrow> (s, [], Go)
   | Inr packets \<Rightarrow>
       (let (as, ok) = write_lines ws 0 (map (report_line u) packets) in
        if ok
        then (s\<lparr>v_sequence := v_sequence s + 1, v_rf_received := 0, v_dropped := 0, v_heard_direct := 0,
            v_received_other := 0, v_received_sat := 0\<rparr>, as @ [A_SaveSeq (v_sequence s + 1)], Go)
        else (s, as, Break)))"

definition beacon_location :: "aprsis_setup \<Rightarrow> instant \<Rightarrow> gps_fix option option \<Rightarrow> location option" where
  "beacon_location u now gps = (case u_position_source u of
     Src_Config \<Rightarrow> Some (u_location u)
   | Src_Gpsd \<Rightarrow> gpsd_beacon_location now gps (loc_alt (u_location u)))"

definition handle_beacon :: "aprsis_setup \<Rightarrow> instant \<Rightarrow> datetime \<Rightarrow> gps_fix option option \<Rightarrow> write_result
    \<Rightarrow> (nat \<Rightarrow> write_result) \<Rightarrow> aprsis_state \<Rightarrow> step_result" where
  "handle_beacon u now utc gps w ws s =
     (if u_beaconing u \<and> u_rw u then
        (case beacon_location u now gps of
           Some loc \<Rightarrow>
             (let (healthy, as) = send_position_beacon u utc w loc in
              if \<not> healthy then (s, as, Break)
              else let (s', as', f) = send_report u ws (note_beacon loc s) in (s', as @ as', f))
         | None \<Rightarrow> send_report u ws s)
      else (s, [], Go))"

section \<open>Movement\<close>

definition has_moved :: "f64 \<Rightarrow> (f64 \<times> f64) option \<Rightarrow> location \<Rightarrow> bool" where
  "has_moved threshold prev loc = (case (prev, loc_lat loc, loc_lon loc) of
     (Some (plat, plon), Some la, Some lo) \<Rightarrow>
        fp_lt threshold (fp_abs (fp_sub B64 la plat)) \<or> fp_lt threshold (fp_abs (fp_sub B64 lo plon))
   | (None, Some la, Some lo) \<Rightarrow> True
   | _ \<Rightarrow> False)"

definition handle_move :: "aprsis_setup \<Rightarrow> instant \<Rightarrow> datetime \<Rightarrow> gps_fix option option \<Rightarrow> write_result
    \<Rightarrow> aprsis_state \<Rightarrow> step_result" where
  "handle_move u now utc gps w s = (case gpsd_beacon_location now gps (loc_alt (u_location u)) of
     Some loc \<Rightarrow>
       (if has_moved (u_move_threshold u) (v_last_beacon_pos s) loc
        then let (healthy, as) = send_position_beacon u utc w loc in
             if healthy then (note_beacon loc s, as, Go) else (s, as, Break)
        else (s, [], Go))
   | None \<Rightarrow> (s, [], Go))"

section \<open>The loop body\<close>

text \<open>The guard of the movement arm.\<close>

definition move_enabled :: "aprsis_setup \<Rightarrow> bool" where
  "move_enabled u = (u_position_source u = Src_Gpsd \<and> u_beaconing u \<and> u_rw u)"

fun inner_step :: "aprsis_setup \<Rightarrow> inner_event \<Rightarrow> aprsis_state \<Rightarrow> step_result option" where
  "inner_step u (Ev_Stats the_time now) s = Some (handle_stats the_time now s)"
| "inner_step u (Ev_Read r) s = Some (handle_read r s)"
| "inner_step u (Ev_Packet now clock w p) s = Some (handle_packet u now clock w p s)"
| "inner_step u (Ev_Lagged n) s = Some (handle_lagged n s)"
| "inner_step u Ev_Other s = Some (s, [], Go)"
| "inner_step u (Ev_Beacon now utc gps w ws) s = Some (handle_beacon u now utc gps w ws s)"
| "inner_step u (Ev_Move now utc gps w) s =
     (if move_enabled u then Some (handle_move u now utc gps w s) else None)"

section \<open>Drops\<close>

definition sum_drops :: "aprsis_state \<Rightarrow> u64" where
  "sum_drops s = v_drops_stale s + v_drops_rfonly s + v_drops_query s + v_drops_thirdparty s
     + v_drops_sat s + v_drops_duplicate s + v_drops_malformed s"

text \<open>What has been received is igated, dropped or lost in a failed write: the three counters of an interval of packets.\<close>

lemma count_received_simps [simp]:
  "v_life_rf_received (count_received p s) = v_life_rf_received s + 1"
  "v_life_igated (count_received p s) = v_life_igated s"
  "v_life_dropped (count_received p s) = v_life_dropped s"
  "v_dedup_cache (count_received p s) = v_dedup_cache s"
  "v_packets_igated (count_received p s) = v_packets_igated s"
  "v_packets_dropped (count_received p s) = v_packets_dropped s"
  "v_sequence (count_received p s) = v_sequence s"
  "sum_drops (count_received p s) = sum_drops s"
  by (simp_all add: count_received_def sum_drops_def)

lemma count_drop_simps [simp]:
  "v_life_rf_received (count_drop s) = v_life_rf_received s"
  "v_life_igated (count_drop s) = v_life_igated s"
  "v_life_dropped (count_drop s) = v_life_dropped s + 1"
  "v_dedup_cache (count_drop s) = v_dedup_cache s"
  "v_packets_igated (count_drop s) = v_packets_igated s"
  "v_packets_dropped (count_drop s) = v_packets_dropped s + 1"
  "v_sequence (count_drop s) = v_sequence s"
  "sum_drops (count_drop s) = sum_drops s"
  by (simp_all add: count_drop_def sum_drops_def)

lemma count_reason_simps [simp]:
  "v_life_rf_received (count_reason r s) = v_life_rf_received s"
  "v_life_igated (count_reason r s) = v_life_igated s"
  "v_life_dropped (count_reason r s) = v_life_dropped s"
  "v_dedup_cache (count_reason r s) = v_dedup_cache s"
  "v_packets_igated (count_reason r s) = v_packets_igated s"
  "v_packets_dropped (count_reason r s) = v_packets_dropped s"
  "v_sequence (count_reason r s) = v_sequence s"
  "sum_drops (count_reason r s) = sum_drops s + 1"
  by (cases r; simp add: sum_drops_def)+

text \<open>The ways a packet goes.\<close>

datatype packet_fate = Not_Gated | Dropped | Igated | Lost

definition packet_fate :: "aprsis_setup \<Rightarrow> instant \<Rightarrow> datetime \<Rightarrow> write_result \<Rightarrow> rtp_packet \<Rightarrow> aprsis_state
    \<Rightarrow> packet_fate" where
  "packet_fate u now clock w p s =
     (if \<not> (u_igating u \<and> u_rw u) then Not_Gated
      else if droppacket now p \<noteq> None \<or> cache_hit (timestamp clock) (dedup_key p) (v_dedup_cache s)
        \<or> embedded_crlf (for_rxigate_bytes p (u_callsign u)) then Dropped
      else if write_done w then Igated else Lost)"

lemma handle_packet_fate:
  assumes "handle_packet u now clock w p s = (s', as, f)"
  shows "(packet_fate u now clock w p s = Not_Gated \<longrightarrow> s' = count_received p s \<and> as = [] \<and> f = Go)
    \<and> (packet_fate u now clock w p s = Dropped \<longrightarrow> as = [] \<and> f = Go
        \<and> v_life_dropped s' = v_life_dropped s + 1 \<and> v_packets_dropped s' = v_packets_dropped s + 1
        \<and> sum_drops s' = sum_drops s + 1
        \<and> v_life_igated s' = v_life_igated s \<and> v_packets_igated s' = v_packets_igated s
        \<and> v_dedup_cache s' = v_dedup_cache s)
    \<and> (packet_fate u now clock w p s = Igated \<longrightarrow> f = Go
        \<and> as = [A_Write (for_rxigate_bytes p (u_callsign u) @ crlf) w]
        \<and> s' = record_igated (dedup_key p) (timestamp clock) (count_received p s))
    \<and> (packet_fate u now clock w p s = Lost \<longrightarrow> f = Break
        \<and> as = [A_Write (for_rxigate_bytes p (u_callsign u) @ crlf) w] \<and> s' = count_received p s)
    \<and> v_life_rf_received s' = v_life_rf_received s + 1"
proof (cases "droppacket now p")
  case None
  with assms show ?thesis
    by (auto simp: handle_packet_def packet_fate_def igate_packet_def record_igated_def Let_def sum_drops_def
        count_drop_def count_received_def split: if_splits)
next
  case (Some r)
  with assms show ?thesis
    by (auto simp: handle_packet_def packet_fate_def Let_def split: if_splits)
qed

text \<open>The other arms touch neither the packet counters of the lifetime nor the drops.\<close>

lemma note_beacon_simps [simp]:
  "v_life_rf_received (note_beacon loc s) = v_life_rf_received s"
  "v_life_igated (note_beacon loc s) = v_life_igated s"
  "v_life_dropped (note_beacon loc s) = v_life_dropped s"
  "v_dedup_cache (note_beacon loc s) = v_dedup_cache s"
  "v_packets_igated (note_beacon loc s) = v_packets_igated s"
  "v_packets_dropped (note_beacon loc s) = v_packets_dropped s"
  "v_sequence (note_beacon loc s) = v_sequence s"
  "v_igated_series (note_beacon loc s) = v_igated_series s"
  "v_backoff_secs (note_beacon loc s) = v_backoff_secs s"
  "v_rf_received (note_beacon loc s) = v_rf_received s"
  "v_dropped (note_beacon loc s) = v_dropped s"
  "v_heard_direct (note_beacon loc s) = v_heard_direct s"
  "sum_drops (note_beacon loc s) = sum_drops s"
  by (auto simp: note_beacon_def sum_drops_def split: option.splits)

definition life_counters :: "aprsis_state \<Rightarrow> u64 \<times> u64 \<times> u64 \<times> u64" where
  "life_counters s = (v_life_rf_received s, v_life_igated s, v_life_dropped s, sum_drops s)"

lemma send_report_counters:
  "send_report u ws s = (s', as, f) \<Longrightarrow> life_counters s' = life_counters s
     \<and> v_dedup_cache s' = v_dedup_cache s \<and> v_packets_igated s' = v_packets_igated s
     \<and> v_packets_dropped s' = v_packets_dropped s \<and> v_backoff_secs s' = v_backoff_secs s"
  by (auto simp: send_report_def life_counters_def sum_drops_def Let_def split: sum.splits prod.splits if_splits)

lemma handle_beacon_counters:
  "handle_beacon u now utc gps w ws s = (s', as, f) \<Longrightarrow> life_counters s' = life_counters s
     \<and> v_dedup_cache s' = v_dedup_cache s \<and> v_packets_igated s' = v_packets_igated s
     \<and> v_packets_dropped s' = v_packets_dropped s \<and> v_backoff_secs s' = v_backoff_secs s"
  using send_report_counters
  by (fastforce simp: handle_beacon_def life_counters_def Let_def split: if_splits option.splits prod.splits)

lemma handle_move_counters:
  "handle_move u now utc gps w s = (s', as, f) \<Longrightarrow> life_counters s' = life_counters s
     \<and> v_dedup_cache s' = v_dedup_cache s \<and> v_packets_igated s' = v_packets_igated s
     \<and> v_packets_dropped s' = v_packets_dropped s \<and> v_backoff_secs s' = v_backoff_secs s \<and> v_sequence s' = v_sequence s"
  by (auto simp: handle_move_def life_counters_def Let_def split: if_splits option.splits prod.splits)

lemma handle_stats_counters:
  "handle_stats t now s = (s', as, f) \<Longrightarrow> life_counters s' = life_counters s
     \<and> v_dedup_cache s' = cache_purge (timestamp t) (v_dedup_cache s) \<and> v_packets_igated s' = 0
     \<and> v_packets_dropped s' = 0 \<and> v_backoff_secs s' = v_backoff_secs s \<and> v_sequence s' = v_sequence s \<and> f = Go"
  by (auto simp: handle_stats_def push_stats_def life_counters_def sum_drops_def Let_def)

end
