(* ===== verification/Report_Decoding.thy ===== *)
theory Report_Decoding
  imports Aprs_Loop
begin

text \<open>
  The telemetry report from the other end: what a receiver that reads the report's lines as text
  and evaluates the equations gets for the counters and percentages of the APRS-IS task
  (\<open>to_aprs\<close> in \<open>src/igate.rs\<close> with the report of \<open>src/aprs_is.rs\<close>).
\<close>

section \<open>The lines of a report\<close>

definition coefficient_texts :: "analog_item \<Rightarrow> string list" where
  "coefficient_texts a = map (fp_display B64) [q_a (ai_equation a), q_b (ai_equation a), q_c (ai_equation a)]"

lemma telemetry_loop_equations:
  assumes "1 \<le> i" and "i \<le> 6"
  shows "fst (snd (snd (telemetry_loop i xs (t, e, p, u))))
      = e @ concat (map (\<lambda>(k, a). item_sep k @ join_with '','' (coefficient_texts a)) (zip [i..<6] xs))"
  using assms
proof (induction xs arbitrary: i t e p u)
  case (Cons a xs)
  show ?case
  proof (cases "5 < i")
    case True
    with Cons.prems show ?thesis by simp
  next
    case False
    then have "[i..<6] = i # [Suc i..<6]" by (simp add: upt_rec)
    with False Cons.IH [of "Suc i"] show ?thesis by (simp add: Let_def coefficient_texts_def)
  qed
qed simp

text \<open>A report of five items: the sequence number with five values, and fifteen coefficients.\<close>

lemma five_item_lines:
  assumes "tl_items t = [a, b, c, d, e]"
  shows "\<exists>parm unt bits. to_aprs t cs = Inr
     [''T#'' @ show_dec (uint (tl_sequence t)) @ concat (map value_field [a, b, c, d, e]) @ '',00000000,'' @ tl_name t,
      '':'' @ pad_right 9 cs @ '':EQNS.'' @ join_with '','' (concat (map coefficient_texts [a, b, c, d, e])),
      parm, unt, bits]"
proof -
  let ?T = "''T#'' @ show_dec (uint (tl_sequence t))" and ?h = "'':'' @ pad_right 9 cs"
  obtain i tel q p u where r: "telemetry_loop 1 (tl_items t) (?T, ?h @ '':EQNS'', ?h @ '':PARM'', ?h @ '':UNIT'') = (i, tel, q, p, u)"
    by (metis prod_cases5)
  have v: "i = 6" "tel = ?T @ concat (map value_field [a, b, c, d, e])"
    using telemetry_loop_values [of 1 "tl_items t" ?T "?h @ '':EQNS''" "?h @ '':PARM''" "?h @ '':UNIT''", unfolded r]
    by (simp_all add: assms)
  have "q = (?h @ '':EQNS'') @ concat (map (\<lambda>(k, a). item_sep k @ join_with '','' (coefficient_texts a)) (zip [1..<6] [a, b, c, d, e]))"
    using telemetry_loop_equations [of 1 "tl_items t" ?T "?h @ '':EQNS''" "?h @ '':PARM''" "?h @ '':UNIT''", unfolded r]
    by (simp add: assms del: upt_Suc zip_Cons)
  also have "\<dots> = ?h @ '':EQNS.'' @ join_with '','' (concat (map coefficient_texts [a, b, c, d, e]))"
    by (simp only: concat_seps) (simp add: coefficient_texts_def)
  finally have e: "q = ?h @ '':EQNS.'' @ join_with '','' (concat (map coefficient_texts [a, b, c, d, e]))" .
  show ?thesis using r v e assms by (simp add: to_aprs_def Let_def del: telemetry_loop.simps)
qed

section \<open>What a receiver decodes\<close>

text \<open>A receiver reads the value and the three coefficients of an item and evaluates the equation.\<close>

definition decode_value :: "string \<Rightarrow> string list \<Rightarrow> rat option" where
  "decode_value x cs = (case (parse_digits 0 x, map (read_float B64) cs) of
     (Some n, [Some a, Some b, Some c]) \<Rightarrow> Some (fval a * of_int n ^ 2 + fval b * of_int n + fval c)
   | _ \<Rightarrow> None)"

definition readable :: "aprs_quadratic \<Rightarrow> bool" where
  "readable q = (uint (q_x q) \<le> 255 \<and> (\<forall>c\<in>{q_a q, q_b q, q_c q}. wf_fp B64 c \<and> is_fin c))"

lemma decode_item:
  assumes "readable (ai_equation a)"
  shows "length (show_pad0 3 (uint (q_x (ai_equation a)))) = 3"
    and "decode_value (show_pad0 3 (uint (q_x (ai_equation a)))) (coefficient_texts a) = Some (quadratic_value (ai_equation a))"
proof -
  show "length (show_pad0 3 (uint (q_x (ai_equation a)))) = 3"
    using length_show_pad0 [of "uint (q_x (ai_equation a))" 2] assms by (simp add: readable_def numeral_3_eq_3)
qed (use assms display_reads_back in \<open>simp add: decode_value_def readable_def coefficient_texts_def parse_digits_pad0 quadratic_value_def\<close>)

lemma readable_fpi: "0 \<le> n \<Longrightarrow> n \<le> 2 ^ 52 \<Longrightarrow> wf_fp B64 (fpi n)"
  using on_grid_B64_int [of n] int_below_emax [of n] by simp

lemma readable_count:
  assumes "0 \<le> n" and "n < 2 ^ 32"
  shows "readable (quadratic_new (fpi n))"
proof (cases "n \<le> 255")
  case True
  then have "quadratic_new (fpi n) = \<lparr> q_a = Fin 0, q_b = Fin 1, q_c = Fin 0, q_x = word_of_int n \<rparr>"
    using quadratic_new_small quadratic_small_count assms(1) by metis
  then show ?thesis using readable_fpi [of 0] readable_fpi [of 1] True assms(1) by (simp add: readable_def uint_word_of_int)
next
  case False
  then have q: "quadratic_new (fpi n) = \<lparr> q_a = fpi (n div 16384), q_b = fpi (n mod 16384 div 128), q_c = fpi (n mod 128), q_x = 128 \<rparr>"
    using quadratic_new_large quadratic_large_count assms by simp
  define r where "r = n mod 16384"
  have r: "0 \<le> r" "r < 16384" by (simp_all add: r_def)
  have b: "0 \<le> n div 16384" "n div 16384 \<le> 2 ^ 52" "0 \<le> r div 128" "r div 128 \<le> 2 ^ 52" "0 \<le> n mod 128" "n mod 128 \<le> 2 ^ 52"
    using assms r pos_mod_bound [of 128 n] by auto
  show ?thesis unfolding q readable_def
    using readable_fpi [OF b(1,2)] readable_fpi [OF b(3,4)] readable_fpi [OF b(5,6)] by (simp add: r_def)
qed

lemma readable_percent:
  assumes "is_fin v" and "0 \<le> fval v" and "fval v \<le> 255"
  shows "readable (quadratic_new v)"
proof -
  have small: "quadratic_new v = quadratic_small v" and pos: "fp_le (Fin 0) v"
    using assms by (cases v; simp add: quadratic_new_def fp_le_def)+
  let ?r = "fp_sub B64 v (fp_floor v)"
  define n where "n = \<lfloor>fval v\<rfloor>"
  have n: "of_int n \<le> fval v" "fval v < of_int n + 1" unfolding n_def by linarith+
  have f: "is_fin (fp_floor v)" "fval (fp_floor v) = of_int n" using fp_floor_fin [OF assms(1)] by (simp_all add: n_def)
  obtain s where d: "?r = rnd B64 s (fval v - of_int n)"
    using fp_sub_fin [OF assms(1) f(1), of B64] f(2) by auto
  have "is_fin ?r" "0 \<le> fval ?r" "fval ?r \<le> 1"
    using rnd_int_between [of 0 "fval v - of_int n" 1 s] n unfolding d by auto
  then have "is_fin (six_places ?r)" using six_places_err by blast
  moreover have "wf_fp B64 (six_places ?r)" unfolding six_places_def by (rule wf_fp_div)
  moreover have "uint (fp_to_u32 (fp_floor v)) \<le> 255"
  proof -
    have nb: "0 \<le> n" "n \<le> 255" using n assms(2,3) by linarith+
    then have "uint (fp_to_u32 (fp_floor v)) = n"
      by (simp add: fp_to_u32_def fp_to_int_fin [OF f(1)] f(2) uint_word_of_int)
    then show ?thesis using nb by simp
  qed
  ultimately show ?thesis
    using readable_fpi [of 0] readable_fpi [of 1] pos by (simp add: small quadratic_small_def readable_def Let_def)
qed

lemma fp_of_int_u32: "fp_of_int B64 (uint (w :: u32)) = fpi (uint w)"
proof -
  have "uint w < 2 ^ 32" using uint_bounded [of w] by simp
  then show ?thesis unfolding fp_of_int_def by (intro rnd_fpi) simp_all
qed

lemma percent_bounds:
  fixes p w :: int
  assumes "0 \<le> p" and "p \<le> w" and "0 < w"
  shows "of_int 0 \<le> (of_int (100 * p) / of_int w :: rat)" and "(of_int (100 * p) / of_int w :: rat) \<le> of_int 100"
  using assms by (simp_all add: divide_le_eq)

lemma percent_value:
  assumes "part \<le> whole"
  shows "is_fin (percent_of part whole) \<and> 0 \<le> fval (percent_of part whole) \<and> fval (percent_of part whole) \<le> 100
    \<and> \<bar>fval (percent_of part whole) - 100 * of_int (uint part) / of_int (uint whole)\<bar> \<le> 1 / 10 ^ 12"
proof (cases "0 < whole")
  case False
  then have "whole = 0" using word_neq_0_conv by blast
  then show ?thesis by (simp add: percent_of_def)
next
  case True
  let ?p = "uint part" and ?w = "uint whole"
  have pw: "0 \<le> ?p" "?p \<le> ?w" "0 < ?w" "?w < 2 ^ 32"
    using assms True uint_bounded [of whole] by (simp_all add: word_le_def word_less_def)
  have m: "fp_mul B64 (Fin 100) (fpi ?p) = fpi (100 * ?p)" using fp_mul_fpi [of 100 ?p] pw by simp
  have "?w \<noteq> 0" using pw(3) by linarith
  then have nz: "fval (fpi ?w) \<noteq> 0" by (simp only: fval.simps of_int_eq_0_iff not_False_eq_True)
  obtain s where d: "fp_div B64 (fpi (100 * ?p)) (fpi ?w) = rnd B64 s (of_int (100 * ?p) / of_int ?w)"
    using fp_div_fin [OF _ _ nz, of "fpi (100 * ?p)" B64] by auto
  let ?x = "of_int (100 * ?p) / of_int ?w :: rat"
  note x = percent_bounds [OF pw(1-3)]
  have b: "is_fin (rnd B64 s ?x)" "fval (rnd B64 s ?x) = rnd_val B64 ?x" "0 \<le> fval (rnd B64 s ?x)" "fval (rnd B64 s ?x) \<le> 100"
    using rnd_int_between [OF x, of s] by auto
  have "\<bar>?x\<bar> < two_pow 7" using x by (simp add: two_pow_def)
  from rnd_val_err [OF this, of B64] have e: "\<bar>rnd_val B64 ?x - ?x\<bar> \<le> two_pow (- 47)" by simp
  have "percent_of part whole = (if fp_lt (rnd B64 s ?x) (Fin 0) then Fin 0 else rnd B64 s ?x)"
    using True by (simp only: percent_of_def fp_of_int_u32 m d Let_def if_True)
  moreover have "\<not> fp_lt (rnd B64 s ?x) (Fin 0)" using b(1,3) by (cases "rnd B64 s ?x") (simp_all add: fp_lt_def)
  ultimately have p: "percent_of part whole = rnd B64 s ?x" by simp
  have "two_pow (- 47) \<le> 1 / 10 ^ 12" by (simp add: two_pow_def)
  then have "\<bar>fval (rnd B64 s ?x) - ?x\<bar> \<le> 1 / 10 ^ 12" using e b(2) by linarith
  then show ?thesis using b unfolding p by simp
qed

text \<open>
  C9. A receiver recovers the statistics from the report's text: reading the five
  values of the first line and the fifteen coefficients of the second, as decimals, and evaluating
  the equations gives the three packet counters exactly and the two percentages to within a
  millionth. Nothing is lost in the printing of the floats, whatever the counters.
\<close>

theorem report_decodes:
  assumes "v_dropped s \<le> v_rf_received s" and "v_heard_direct s \<le> v_rf_received s"
  shows "\<exists>xs cfs drop direct parm unt bits. to_aprs (report_of u s) cs = Inr
     [''T#'' @ show_dec (uint (v_sequence s)) @ concat (map (\<lambda>x. '','' @ x) xs) @ '',00000000,Telemetry Report'',
      '':'' @ pad_right 9 cs @ '':EQNS.'' @ join_with '','' (concat cfs), parm, unt, bits]
    \<and> (\<forall>x\<in>set xs. length x = 3)
    \<and> map2 decode_value xs cfs = [Some (of_int (uint (v_rf_received s))), Some (of_int (uint (v_received_sat s))),
         Some drop, Some direct, Some (of_int (uint (v_received_other s)))]
    \<and> \<bar>drop - 100 * of_int (uint (v_dropped s)) / of_int (uint (v_rf_received s))\<bar> < 1 / 10 ^ 6
    \<and> \<bar>direct - 100 * of_int (uint (v_heard_direct s)) / of_int (uint (v_rf_received s))\<bar> < 1 / 10 ^ 6"
proof -
  obtain a b c d e where i: "report_items u s = [a, b, c, d, e]" by (simp add: report_items_def Let_def)
  have q: "ai_equation a = quadratic_new (fpi (uint (v_rf_received s)))" "ai_equation b = quadratic_new (fpi (uint (v_received_sat s)))"
    "ai_equation c = quadratic_new (percent_of (v_dropped s) (v_rf_received s))"
    "ai_equation d = quadratic_new (percent_of (v_heard_direct s) (v_rf_received s))"
    "ai_equation e = quadratic_new (fpi (uint (v_received_other s)))"
    using i by (auto simp: report_items_def report_item_def fp_of_int_u32 Let_def)
  have w: "0 \<le> uint x" "uint x < 2 ^ 32" for x :: u32 using uint_bounded [of x] by simp_all
  note counts = readable_count [OF w] quadratic_count_value [OF w]
  have pc: "readable (quadratic_new (percent_of p (v_rf_received s)))
      \<and> \<bar>quadratic_value (quadratic_new (percent_of p (v_rf_received s))) - 100 * of_int (uint p) / of_int (uint (v_rf_received s))\<bar> < 1 / 10 ^ 6"
    if "p \<le> v_rf_received s" for p
  proof -
    note v = percent_value [OF that]
    have "fval (percent_of p (v_rf_received s)) \<le> 255" using v by linarith
    with v have r: "readable (quadratic_new (percent_of p (v_rf_received s)))"
        "\<bar>quadratic_value (quadratic_new (percent_of p (v_rf_received s))) - fval (percent_of p (v_rf_received s))\<bar> \<le> 7 / 10000000"
      by (intro readable_percent quadratic_small_err; blast)+
    moreover have "(7 :: rat) / 10000000 + 1 / 10 ^ 12 < 1 / 10 ^ 6" by simp
    ultimately show ?thesis using v by linarith
  qed
  note pd = pc [OF assms(1)] and ph = pc [OF assms(2)]
  let ?xs = "map (\<lambda>a. show_pad0 3 (uint (q_x (ai_equation a)))) [a, b, c, d, e]"
  let ?cfs = "map coefficient_texts [a, b, c, d, e]"
  have r: "readable (ai_equation y)" if "y \<in> set [a, b, c, d, e]" for y using that counts(1) pd ph by (auto simp: q)
  have "map2 decode_value ?xs ?cfs = map (\<lambda>y. Some (quadratic_value (ai_equation y))) [a, b, c, d, e]"
    using decode_item(2) r by simp
  also have "\<dots> = [Some (of_int (uint (v_rf_received s))), Some (of_int (uint (v_received_sat s))),
      Some (quadratic_value (ai_equation c)), Some (quadratic_value (ai_equation d)), Some (of_int (uint (v_received_other s)))]"
    using counts(2) by (simp add: q)
  finally have decoded: "map2 decode_value ?xs ?cfs = \<dots>" .
  have len: "\<forall>x\<in>set ?xs. length x = 3" using decode_item(1) r by simp
  have "tl_items (report_of u s) = [a, b, c, d, e]" by (simp add: report_of_def i)
  from five_item_lines [OF this, of cs] obtain parm unt bits where lines: "to_aprs (report_of u s) cs = Inr
     [''T#'' @ show_dec (uint (tl_sequence (report_of u s))) @ concat (map value_field [a, b, c, d, e]) @ '',00000000,'' @ tl_name (report_of u s),
      '':'' @ pad_right 9 cs @ '':EQNS.'' @ join_with '','' (concat ?cfs), parm, unt, bits]" by blast
  have "concat (map value_field [a, b, c, d, e]) = concat (map (\<lambda>x. '','' @ x) ?xs)" by (simp add: value_field_def)
  with lines have printed: "to_aprs (report_of u s) cs = Inr
     [''T#'' @ show_dec (uint (v_sequence s)) @ concat (map (\<lambda>x. '','' @ x) ?xs) @ '',00000000,Telemetry Report'',
      '':'' @ pad_right 9 cs @ '':EQNS.'' @ join_with '','' (concat ?cfs), parm, unt, bits]"
    by (simp add: report_of_def)
  show ?thesis
    by (rule exI [of _ ?xs], rule exI [of _ ?cfs], rule exI [of _ "quadratic_value (ai_equation c)"],
        rule exI [of _ "quadratic_value (ai_equation d)"], rule exI [of _ parm], rule exI [of _ unt], rule exI [of _ bits],
        intro conjI, rule printed, rule len, rule decoded, unfold q(3,4)) (use pd ph in blast)+
qed

text \<open>Applied to an interval of 300 packets, 100 dropped and 200 heard directly.\<close>

theorem report_decodes_witness:
  "\<exists>xs cfs drop direct. map2 decode_value xs cfs = [Some 300, Some 0, Some drop, Some direct, Some 70]
     \<and> \<bar>drop - 100 / 3\<bar> < 1 / 10 ^ 6 \<and> \<bar>direct - 200 / 3\<bar> < 1 / 10 ^ 6"
proof -
  let ?s = "(initial_state 7 default_aprsis_lifetime)\<lparr>v_rf_received := 300, v_dropped := 100, v_heard_direct := 200, v_received_other := 70\<rparr>"
  have n: "v_rf_received ?s = 300" "v_dropped ?s = 100" "v_heard_direct ?s = 200" "v_received_sat ?s = 0" "v_received_other ?s = 70"
    by (simp_all add: initial_state_def)
  have "v_dropped ?s \<le> v_rf_received ?s" "v_heard_direct ?s \<le> v_rf_received ?s" by (simp_all add: n)
  from report_decodes [OF this, of undefined "''N0CALL''", unfolded n] obtain xs cfs drop direct where
    "map2 decode_value xs cfs = [Some (of_int (uint (300 :: u32))), Some (of_int (uint (0 :: u32))), Some drop, Some direct,
      Some (of_int (uint (70 :: u32)))]"
    "\<bar>drop - 100 * of_int (uint (100 :: u32)) / of_int (uint (300 :: u32))\<bar> < 1 / 10 ^ 6"
    "\<bar>direct - 100 * of_int (uint (200 :: u32)) / of_int (uint (300 :: u32))\<bar> < 1 / 10 ^ 6"
    by (elim exE conjE) (rule that)
  then show ?thesis by (intro exI [of _ xs] exI [of _ cfs] exI [of _ drop] exI [of _ direct]) simp
qed

end
