(* ===== verification/Aprs_Is_Task.thy ===== *)
theory Aprs_Is_Task
  imports Aprs_Loop
begin

text \<open>
  The APRS-IS task as a whole (\<open>aprsis_task\<close> in \<open>src/aprs_is.rs\<close>): the outer connection loop as
  a state machine over phases, its runs as an inductive relation that records every event with
  the actions it causes, and the properties of runs.

  A run starts where the outer loop starts. Its events are the ends of the calls the task waits
  for: name resolution, the connection, the login, the sleep between attempts, the arms of the
  inner loop, and the cancellation, which any of them can lose to.
\<close>

section \<open>The outer loop\<close>

text \<open>
  At the top of the outer loop; asleep until the next attempt; connected, with the login under
  way; in the inner loop; after the final flush. The flag of a login timeout tells whether the
  login string had been written.
\<close>

datatype phase =
    Ph_Connect
  | Ph_Wait
  | Ph_Login
  | Ph_Online
  | Ph_Done

datatype task_event =
    T_Cancelled
  | T_ResolveFailed
  | T_NoAddress
  | T_ConnectFailed
  | T_ConnectTimeout
  | T_Connected
  | T_Waited
  | T_Login login_io
  | T_LoginTimeout bool
  | T_Inner inner_event

type_synonym task_result = "phase \<times> aprsis_state \<times> aprsis_action list"

text \<open>The flush at the end of the task.\<close>

definition final_flush :: "aprsis_state \<Rightarrow> aprsis_action list" where
  "final_flush s = [A_SaveLifetime (lifetime_record s), A_SaveSeq (v_sequence s)]"

text \<open>A failed attempt: sleep for the backoff, which then doubles up to its cap.\<close>

definition attempt_failed :: "aprsis_state \<Rightarrow> task_result" where
  "attempt_failed s = (Ph_Wait, s, [])"

definition waited :: "aprsis_state \<Rightarrow> task_result" where
  "waited s = (Ph_Connect, s\<lparr>v_backoff_secs := next_backoff (v_backoff_secs s)\<rparr>, [])"

definition connected :: "aprsis_state \<Rightarrow> task_result" where
  "connected s = (let s1 = s\<lparr>v_backoff_secs := initial_backoff\<rparr> in
     (Ph_Login,
      (if v_first_connect s1 then s1\<lparr>v_first_connect := False\<rparr>
       else s1\<lparr>v_total_reconnects := v_total_reconnects s1 + 1,
              v_reconnects_interval := v_reconnects_interval s1 + 1\<rparr>), []))"

definition login_ended :: "aprsis_setup \<Rightarrow> bool \<Rightarrow> bool \<Rightarrow> aprsis_state \<Rightarrow> task_result" where
  "login_ended u written login_ok s =
     (let as = (if written then [A_Login (u_login u)] else [])
      in if login_ok then (Ph_Online, s, as) else (Ph_Wait, s, as))"

text \<open>
  Cancellation: at the top of the loop, in a sleep and during the login it leaves the outer loop;
  in the inner loop it shuts the socket down and leaves through the test at the top. It drops the
  future of a login, whose line may or may not have been written by then; the run records no
  \<open>A_Login\<close> for it, only the saves that follow.
\<close>

fun outer_step :: "(string \<Rightarrow> string) \<Rightarrow> aprsis_setup \<Rightarrow> task_event \<Rightarrow> phase \<Rightarrow> aprsis_state \<Rightarrow> task_result option" where
  "outer_step lc u T_Cancelled Ph_Done s = None"
| "outer_step lc u T_Cancelled Ph_Online s = Some (Ph_Done, s, A_Shutdown # final_flush s)"
| "outer_step lc u T_Cancelled ph s = Some (Ph_Done, s, final_flush s)"
| "outer_step lc u T_ResolveFailed Ph_Connect s = Some (attempt_failed s)"
| "outer_step lc u T_NoAddress Ph_Connect s = Some (attempt_failed s)"
| "outer_step lc u T_ConnectFailed Ph_Connect s = Some (attempt_failed s)"
| "outer_step lc u T_ConnectTimeout Ph_Connect s = Some (attempt_failed s)"
| "outer_step lc u T_Connected Ph_Connect s = Some (connected s)"
| "outer_step lc u T_Waited Ph_Wait s = Some (waited s)"
| "outer_step lc u (T_Login io) Ph_Login s =
     Some (login_ended u (login_written io) (login_to_aprsis lc u io = Inr True) s)"
| "outer_step lc u (T_LoginTimeout written) Ph_Login s = Some (login_ended u written False s)"
| "outer_step lc u (T_Inner e) Ph_Online s = (case inner_step u e s of
     Some (s', as, f) \<Rightarrow> Some (if f = Go then Ph_Online else Ph_Connect, s', as)
   | None \<Rightarrow> None)"
| "outer_step lc u _ _ s = None"

section \<open>Runs\<close>

type_synonym trace = "(task_event \<times> aprsis_action list) list"

inductive task_run :: "(string \<Rightarrow> string) \<Rightarrow> aprsis_setup \<Rightarrow> aprsis_state \<Rightarrow> trace \<Rightarrow> phase \<Rightarrow> aprsis_state \<Rightarrow> bool"
  for lc u s0 where
  start: "task_run lc u s0 [] Ph_Connect s0"
| step: "task_run lc u s0 tr ph s \<Longrightarrow> outer_step lc u ev ph s = Some (ph', s', as) \<Longrightarrow>
    task_run lc u s0 (tr @ [(ev, as)]) ph' s'"

inductive_cases task_run_NilE: "task_run lc u s0 [] ph s"

text \<open>The same, computed: from a list of events.\<close>

fun exec_events :: "(string \<Rightarrow> string) \<Rightarrow> aprsis_setup \<Rightarrow> task_event list \<Rightarrow> phase \<times> aprsis_state \<times> trace
    \<Rightarrow> (phase \<times> aprsis_state \<times> trace) option" where
  "exec_events lc u [] c = Some c"
| "exec_events lc u (e # es) (ph, s, tr) = (case outer_step lc u e ph s of
     Some (ph', s', as) \<Rightarrow> exec_events lc u es (ph', s', tr @ [(e, as)]) | None \<Rightarrow> None)"

lemma exec_task_run:
  "exec_events lc u es (ph, s, tr) = Some (ph', s', tr') \<Longrightarrow> task_run lc u s0 tr ph s \<Longrightarrow> task_run lc u s0 tr' ph' s'"
proof (induction es arbitrary: ph s tr)
  case (Cons e es)
  then show ?case by (auto split: option.splits intro: task_run.step)
qed simp

lemma exec_run: "exec_events lc u es (Ph_Connect, s0, []) = Some (ph, s, tr) \<Longrightarrow> task_run lc u s0 tr ph s"
  using exec_task_run task_run.start by metis

text \<open>A step of a run as one of the arms of the inner loop, or one that leaves the packet counters alone.\<close>

lemma outer_step_cases:
  assumes "outer_step lc u ev ph s = Some (ph', s', as)"
  obtains e f where "ev = T_Inner e" "ph = Ph_Online" "inner_step u e s = Some (s', as, f)"
      "ph' = (if f = Go then Ph_Online else Ph_Connect)"
  | "\<forall>e. ev \<noteq> T_Inner e" "life_counters s' = life_counters s" "v_dedup_cache s' = v_dedup_cache s"
      "v_packets_igated s' = v_packets_igated s" "v_packets_dropped s' = v_packets_dropped s"
      "v_sequence s' = v_sequence s" "\<forall>bs w. A_Write bs w \<notin> set as" "\<forall>t. A_Publish t \<notin> set as"
proof (cases "\<exists>e. ev = T_Inner e")
  case True
  then obtain e where e: "ev = T_Inner e" by blast
  then have ph: "ph = Ph_Online" using assms by (cases ph) simp_all
  with e assms that(1) show ?thesis by (auto split: option.splits prod.splits)
next
  case False
  have "life_counters s' = life_counters s \<and> v_dedup_cache s' = v_dedup_cache s
      \<and> v_packets_igated s' = v_packets_igated s \<and> v_packets_dropped s' = v_packets_dropped s
      \<and> v_sequence s' = v_sequence s \<and> (\<forall>bs w. A_Write bs w \<notin> set as) \<and> (\<forall>t. A_Publish t \<notin> set as)"
    using assms False
    by (cases ev; cases ph) (auto simp: attempt_failed_def waited_def connected_def login_ended_def final_flush_def
        life_counters_def sum_drops_def Let_def split: if_splits)
  with False that(2) show ?thesis by blast
qed

section \<open>What a trace shows\<close>

definition is_packet_event :: "task_event \<Rightarrow> bool" where
  "is_packet_event ev = (case ev of T_Inner (Ev_Packet now clock w p) \<Rightarrow> True | _ \<Rightarrow> False)"

text \<open>The packets igated, in order: the duplicate key and the second of the wall clock.\<close>

definition igated_entry :: "task_event \<times> aprsis_action list \<Rightarrow> (string \<times> int) list" where
  "igated_entry x = (case x of
     (T_Inner (Ev_Packet now clock w p), A_Write bs v # as) \<Rightarrow>
        if write_done v then [(dedup_key p, timestamp clock)] else []
   | _ \<Rightarrow> [])"

definition igated_list :: "trace \<Rightarrow> (string \<times> int) list" where
  "igated_list tr = concat (map igated_entry tr)"

text \<open>The packets whose write failed.\<close>

definition lost_count :: "trace \<Rightarrow> nat" where
  "lost_count tr = length (filter (\<lambda>(ev, as). is_packet_event ev \<and> (\<exists>bs w. as = [A_Write bs w] \<and> \<not> write_done w)) tr)"

definition packet_count :: "trace \<Rightarrow> nat" where
  "packet_count tr = length (filter (\<lambda>(ev, as). is_packet_event ev) tr)"

lemma igated_list_snoc [simp]: "igated_list (tr @ [x]) = igated_list tr @ igated_entry x"
  by (simp add: igated_list_def)

lemma packet_count_snoc [simp]:
  "packet_count (tr @ [x]) = packet_count tr + (if is_packet_event (fst x) then 1 else 0)"
  by (simp add: packet_count_def case_prod_unfold)

lemma lost_count_snoc [simp]: "lost_count (tr @ [x]) = lost_count tr
    + (if is_packet_event (fst x) \<and> (\<exists>bs w. snd x = [A_Write bs w] \<and> \<not> write_done w) then 1 else 0)"
  by (simp add: lost_count_def case_prod_unfold)

text \<open>An arm that is not the packet arm leaves the lifetime counters alone.\<close>

lemma inner_step_other:
  assumes "inner_step u e s = Some (s', as, f)" and "\<not> is_packet_event (T_Inner e)"
  shows "life_counters s' = life_counters s"
  using assms handle_beacon_counters handle_move_counters handle_stats_counters
  by (cases e) (auto simp: is_packet_event_def handle_read_def handle_lagged_def life_counters_def sum_drops_def
      split: read_result.splits if_splits)

text \<open>One step of a run, as seen by the counters.\<close>

lemma step_counters:
  assumes "outer_step lc u ev ph s = Some (ph', s', as)"
  defines "n \<equiv> length (igated_entry (ev, as))"
    and "l \<equiv> (if is_packet_event ev \<and> (\<exists>bs w. as = [A_Write bs w] \<and> \<not> write_done w) then 1 else 0 :: nat)"
    and "r \<equiv> (if is_packet_event ev then 1 else 0 :: nat)"
  shows "v_life_rf_received s' = v_life_rf_received s + of_nat r
    \<and> v_life_igated s' = v_life_igated s + of_nat n
    \<and> v_life_dropped s' - v_life_dropped s = sum_drops s' - sum_drops s
    \<and> (u_igating u \<and> u_rw u \<longrightarrow> v_life_dropped s' = v_life_dropped s + (of_nat r - of_nat n - of_nat l))"
  using assms(1)
proof (cases rule: outer_step_cases)
  case (1 e f)
  show ?thesis
  proof (cases "is_packet_event ev")
    case True
    then obtain now clock w p where e: "e = Ev_Packet now clock w p"
      using 1(1) by (auto simp: is_packet_event_def split: inner_event.splits)
    with 1(3) have h: "handle_packet u now clock w p s = (s', as, f)" by simp
    note fate = handle_packet_fate [OF h]
    have w: "packet_fate u now clock w p s = Igated \<Longrightarrow> write_done w"
      "packet_fate u now clock w p s = Lost \<Longrightarrow> \<not> write_done w"
      "packet_fate u now clock w p s = Not_Gated \<Longrightarrow> \<not> (u_igating u \<and> u_rw u)"
      by (auto simp: packet_fate_def split: if_splits)
    show ?thesis
      using fate w unfolding n_def l_def r_def 1(1) e
      by (cases "packet_fate u now clock w p s")
        (auto simp: igated_entry_def is_packet_event_def record_igated_def sum_drops_def count_received_def)
  next
    case False
    with inner_step_other [OF 1(3)] 1(1) have "life_counters s' = life_counters s" by simp
    then show ?thesis using False 1(1) unfolding n_def l_def r_def
      by (auto simp: life_counters_def igated_entry_def is_packet_event_def split: inner_event.splits)
  qed
next
  case 2
  have "\<not> is_packet_event ev" using 2(1) by (auto simp: is_packet_event_def split: task_event.splits)
  then show ?thesis using 2 unfolding n_def l_def r_def
    by (auto simp: life_counters_def igated_entry_def is_packet_event_def split: task_event.splits)
qed

lemma run_counters:
  assumes "task_run lc u s0 tr ph s"
  shows "v_life_rf_received s = v_life_rf_received s0 + of_nat (packet_count tr)
    \<and> v_life_igated s = v_life_igated s0 + of_nat (length (igated_list tr))
    \<and> v_life_dropped s - v_life_dropped s0 = sum_drops s - sum_drops s0
    \<and> (u_igating u \<and> u_rw u \<longrightarrow> v_life_dropped s = v_life_dropped s0
        + (of_nat (packet_count tr) - of_nat (length (igated_list tr)) - of_nat (lost_count tr)))"
  using assms
proof induction
  case start
  then show ?case by (simp add: packet_count_def lost_count_def igated_list_def)
next
  case (step tr ph s ev ph' s' as)
  note c = step_counters [OF step.hyps(2)]
  have "v_life_dropped s' - v_life_dropped s0 = (v_life_dropped s' - v_life_dropped s) + (v_life_dropped s - v_life_dropped s0)"
    "sum_drops s' - sum_drops s0 = (sum_drops s' - sum_drops s) + (sum_drops s - sum_drops s0)"
    by simp_all
  with c step.IH have "v_life_dropped s' - v_life_dropped s0 = sum_drops s' - sum_drops s0" by metis
  moreover have "v_life_rf_received s' = v_life_rf_received s0 + of_nat (packet_count (tr @ [(ev, as)]))"
    "v_life_igated s' = v_life_igated s0 + of_nat (length (igated_list (tr @ [(ev, as)])))"
    using c step.IH by simp_all
  moreover have "v_life_dropped s' = v_life_dropped s0 + (of_nat (packet_count (tr @ [(ev, as)]))
      - of_nat (length (igated_list (tr @ [(ev, as)]))) - of_nat (lost_count (tr @ [(ev, as)])))"
    if "u_igating u \<and> u_rw u"
    using c step.IH that by (simp add: algebra_simps)
  ultimately show ?case by blast
qed

section \<open>Duplicates\<close>

text \<open>The readings of the wall clock in a run, in seconds.\<close>

definition clock_read :: "task_event \<Rightarrow> int list" where
  "clock_read ev = (case ev of
     T_Inner (Ev_Stats t now) \<Rightarrow> [timestamp t]
   | T_Inner (Ev_Packet now clock w p) \<Rightarrow> [timestamp clock]
   | _ \<Rightarrow> [])"

definition clock_reads :: "trace \<Rightarrow> int list" where
  "clock_reads tr = concat (map (\<lambda>(ev, as). clock_read ev) tr)"

lemma clock_reads_snoc [simp]: "clock_reads (tr @ [x]) = clock_reads tr @ clock_read (fst x)"
  by (simp add: clock_reads_def case_prod_unfold)

text \<open>Each step is one event of the duplicate cache, or none.\<close>

lemma packet_cache:
  assumes "handle_packet u now clock w p s = (s', as, f)"
  shows "(\<exists>e. dedup.event_time e = timestamp clock \<and> v_dedup_cache s' = dedup.advance e (v_dedup_cache s)
      \<and> igated_entry (T_Inner (Ev_Packet now clock w p), as) = dedup.accepts e (v_dedup_cache s))
    \<or> v_dedup_cache s' = v_dedup_cache s \<and> igated_entry (T_Inner (Ev_Packet now clock w p), as) = []"
proof (cases "packet_fate u now clock w p s")
  case Igated
  let ?e = "Offer (dedup_key p) (timestamp clock) True"
  have "\<not> cache_hit (timestamp clock) (dedup_key p) (v_dedup_cache s)" "write_done w"
    using Igated by (auto simp: packet_fate_def split: if_splits)
  then have "dedup.event_time ?e = timestamp clock \<and> v_dedup_cache s' = dedup.advance ?e (v_dedup_cache s)
      \<and> igated_entry (T_Inner (Ev_Packet now clock w p), as) = dedup.accepts ?e (v_dedup_cache s)"
    using handle_packet_fate [OF assms] Igated
    by (simp add: dedup.event_time_def dedup.advance_def dedup.accepts_def igated_entry_def record_igated_def)
  then show ?thesis by blast
next
  case Lost
  then have "\<not> write_done w" by (auto simp: packet_fate_def split: if_splits)
  then show ?thesis using handle_packet_fate [OF assms] Lost by (simp add: igated_entry_def)
qed (use handle_packet_fate [OF assms] in \<open>simp_all add: igated_entry_def\<close>)

lemma step_cache:
  assumes "outer_step lc u ev ph s = Some (ph', s', as)"
  shows "(\<exists>e. clock_read ev = [dedup.event_time e] \<and> v_dedup_cache s' = dedup.advance e (v_dedup_cache s)
      \<and> igated_entry (ev, as) = dedup.accepts e (v_dedup_cache s))
    \<or> v_dedup_cache s' = v_dedup_cache s \<and> igated_entry (ev, as) = []"
  using assms
proof (cases rule: outer_step_cases)
  case (1 e f)
  show ?thesis
  proof (cases e)
    case (Ev_Stats t now)
    have "clock_read ev = [dedup.event_time (Tick (timestamp t))]
        \<and> v_dedup_cache s' = dedup.advance (Tick (timestamp t)) (v_dedup_cache s)
        \<and> igated_entry (ev, as) = dedup.accepts (Tick (timestamp t)) (v_dedup_cache s)"
      using 1 handle_stats_counters [of t now s s' as f]
      by (simp add: Ev_Stats clock_read_def igated_entry_def dedup.event_time_def dedup.advance_def
          dedup.accepts_def)
    then show ?thesis by blast
  next
    case (Ev_Packet now clock w p)
    with 1 have "handle_packet u now clock w p s = (s', as, f)" by simp
    note c = packet_cache [OF this]
    have "clock_read ev = [timestamp clock]" by (simp add: 1(1) Ev_Packet clock_read_def)
    with c show ?thesis unfolding 1(1) Ev_Packet by (metis (no_types))
  next
    case (Ev_Beacon now utc gps w ws)
    with 1 handle_beacon_counters [of u now utc gps w ws s s' as f] show ?thesis
      by (simp add: igated_entry_def)
  next
    case (Ev_Move now utc gps w)
    with 1 handle_move_counters [of u now utc gps w s s' as f] show ?thesis
      by (simp add: igated_entry_def split: if_splits)
  qed (use 1 in \<open>auto simp: igated_entry_def handle_read_def handle_lagged_def split: read_result.splits\<close>)
next
  case 2
  then show ?thesis by (auto simp: igated_entry_def split: task_event.splits)
qed

lemma run_cache:
  assumes "task_run lc u s0 tr ph s" and "sorted (clock_reads tr)" and "\<forall>x\<in>set (clock_reads tr). x \<le> c"
  shows "dedup.cache_inv (v_dedup_cache s) c (igated_list tr)"
  using assms
proof (induction arbitrary: c)
  case start
  then show ?case by (simp add: igated_list_def dedup.cache_inv_Nil)
next
  case (step tr ph s ev ph' s' as)
  have sorted: "sorted (clock_reads tr)" "\<forall>x\<in>set (clock_read ev). \<forall>y\<in>set (clock_reads tr). y \<le> x"
    using step.prems(1) by (auto simp: sorted_append)
  from step_cache [OF step.hyps(2)] show ?case
  proof
    assume "\<exists>e. clock_read ev = [dedup.event_time e] \<and> v_dedup_cache s' = dedup.advance e (v_dedup_cache s)
      \<and> igated_entry (ev, as) = dedup.accepts e (v_dedup_cache s)"
    then obtain e where e: "clock_read ev = [dedup.event_time e]"
        "v_dedup_cache s' = dedup.advance e (v_dedup_cache s)"
        "igated_entry (ev, as) = dedup.accepts e (v_dedup_cache s)" by blast
    have "dedup.cache_inv (v_dedup_cache s) (dedup.event_time e) (igated_list tr)"
      using step.IH sorted by (simp add: e(1))
    from dedup.cache_inv_step [OF this order_refl] have
      "dedup.cache_inv (v_dedup_cache s') (dedup.event_time e) (igated_list (tr @ [(ev, as)]))"
      by (simp add: e)
    moreover have "dedup.event_time e \<le> c" using step.prems(2) by (simp add: e(1))
    ultimately show ?thesis by (rule dedup.cache_inv_mono)
  next
    assume "v_dedup_cache s' = v_dedup_cache s \<and> igated_entry (ev, as) = []"
    then show ?thesis using step.IH [OF sorted(1), of c] step.prems(2) by simp
  qed
qed

text \<open>
  C17. While the wall clock does not go back, the task never sends the
  same source and information field twice within 30 seconds: of any two packets sent, in any
  connections of a run, that agree in both, the second is sent 30 seconds or more after the
  first, whatever else happens in between (purges, reconnects, failed writes). The cache keeps
  whole seconds, so two packets 30 of its seconds apart can be sent just over 29 seconds apart.
\<close>

theorem no_duplicate_within_window:
  assumes "task_run lc u s0 tr ph s" and "sorted (clock_reads tr)"
  shows "sorted_wrt (\<lambda>(k, t) (j, t'). k = j \<longrightarrow> t + 30 \<le> t') (igated_list tr)"
proof -
  have "\<exists>c. \<forall>x\<in>set (clock_reads tr). x \<le> c" using finite_set Max_ge by blast
  then obtain c where "\<forall>x\<in>set (clock_reads tr). x \<le> c" ..
  from run_cache [OF assms this] show ?thesis
    by (simp only: dedup.cache_inv_def) (simp add: dedup_ttl_secs_def)
qed

section \<open>What is written\<close>

text \<open>
  The check at the write boundary is enough by itself: the line it lets through is one line,
  because the header is followed by a colon and so lies before the tail it trims.
\<close>

lemma boundary_single_line:
  assumes "\<not> embedded_crlf (for_rxigate_bytes p cs)"
  shows "wire_lines (for_rxigate_bytes p cs @ crlf) = [rxigate_header p cs @ trim_end_crlf (p_info_bytes p)]"
proof -
  let ?h = "rxigate_header p cs" and ?i = "p_info_bytes p"
  have h: "?h \<noteq> []" "\<not> is_crlf (last ?h)" by (auto simp: rxigate_header_def is_crlf_def)
  have t: "trim_end_crlf (?h @ ?i) = ?h @ trim_end_crlf ?i"
  proof -
    have "dropWhile is_crlf (rev ?i @ rev ?h) = dropWhile is_crlf (rev ?i) @ rev ?h"
    proof (cases "\<forall>c\<in>set ?i. is_crlf c")
      case True
      then have "dropWhile is_crlf (rev ?i) = []" by simp
      moreover have "dropWhile is_crlf (rev ?h) = rev ?h" using h by (cases ?h rule: rev_cases) auto
      ultimately show ?thesis using True by (subst dropWhile_append2) auto
    next
      case False
      then show ?thesis by (subst dropWhile_append) auto
    qed
    then show ?thesis by (simp add: trim_end_crlf_def)
  qed
  have clean: "\<forall>c\<in>set (?h @ trim_end_crlf ?i). \<not> is_crlf c"
    using assms t by (simp add: embedded_crlf_def for_rxigate_bytes_def list_ex_iff)
  moreover from clean have "\<not> embedded_crlf ?i" by (auto simp: embedded_crlf_def list_ex_iff)
  ultimately show ?thesis using h(1) unfolding for_rxigate_bytes_def append_assoc
    by (intro wire_lines_line) auto
qed

text \<open>The packet arm writes nothing, or one line for a packet that passed every test.\<close>

lemma packet_write:
  assumes "handle_packet u now clock w p s = (s', as, f)" and "A_Write bs v \<in> set as"
  shows "as = [A_Write bs v] \<and> v = w \<and> bs = for_rxigate_bytes p (u_callsign u) @ crlf
    \<and> wire_lines bs = [rxigate_header p (u_callsign u) @ trim_end_crlf (p_info_bytes p)]
    \<and> u_igating u \<and> u_rw u \<and> droppacket now p = None
    \<and> \<not> cache_hit (timestamp clock) (dedup_key p) (v_dedup_cache s)"
proof -
  note fate = handle_packet_fate [OF assms(1)]
  have g: "packet_fate u now clock w p s \<in> {Igated, Lost}"
    using fate assms(2) by (cases "packet_fate u now clock w p s") auto
  then have "\<not> embedded_crlf (for_rxigate_bytes p (u_callsign u))" "u_igating u \<and> u_rw u"
      "droppacket now p = None" "\<not> cache_hit (timestamp clock) (dedup_key p) (v_dedup_cache s)"
    by (auto simp: packet_fate_def split: if_splits)
  moreover have "as = [A_Write (for_rxigate_bytes p (u_callsign u) @ crlf) w]" using fate g by auto
  ultimately show ?thesis using assms(2) boundary_single_line by simp
qed

text \<open>No arm writes without a valid passcode.\<close>

lemma beacon_actions_rw:
  assumes "inner_step u e s = Some (s', as, f)" and "A_Write bs v \<in> set as"
  shows "u_rw u"
proof (cases e)
  case (Ev_Packet now clock w p)
  with assms have "handle_packet u now clock w p s = (s', as, f)" by simp
  from packet_write [OF this assms(2)] show ?thesis by blast
next
  case (Ev_Beacon now utc gps w ws)
  with assms show ?thesis by (auto simp: handle_beacon_def split: if_splits)
next
  case (Ev_Move now utc gps w)
  with assms show ?thesis by (auto simp: move_enabled_def split: if_splits)
qed (use assms in \<open>auto simp: handle_stats_def handle_read_def handle_lagged_def Let_def split: read_result.splits\<close>)

section \<open>The session\<close>

text \<open>
  The events of the current connection since its login, provided it went well; \<open>None\<close> when there
  is no such connection.
\<close>

definition session_step :: "(string \<Rightarrow> string) \<Rightarrow> aprsis_setup \<Rightarrow> (login_io \<times> task_event list) option \<Rightarrow> task_event
    \<Rightarrow> (login_io \<times> task_event list) option" where
  "session_step lc u c ev = (case ev of
     T_Login io \<Rightarrow> if login_to_aprsis lc u io = Inr True then Some (io, []) else None
   | T_Inner e \<Rightarrow> map_option (\<lambda>(io, es). (io, es @ [ev])) c
   | _ \<Rightarrow> None)"

definition session :: "(string \<Rightarrow> string) \<Rightarrow> aprsis_setup \<Rightarrow> trace \<Rightarrow> (login_io \<times> task_event list) option" where
  "session lc u tr = fold (\<lambda>x c. session_step lc u c (fst x)) tr None"

lemma session_snoc [simp]: "session lc u (tr @ [x]) = session_step lc u (session lc u tr) (fst x)"
  by (simp add: session_def)

lemma session_trace:
  "session lc u tr = Some (io, es) \<Longrightarrow> \<exists>tr0 as mid. tr = tr0 @ (T_Login io, as) # mid \<and> map fst mid = es
     \<and> (\<forall>ev\<in>set es. \<exists>e. ev = T_Inner e) \<and> login_to_aprsis lc u io = Inr True"
proof (induction tr arbitrary: io es rule: rev_induct)
  case (snoc x tr)
  obtain ev as where x: "x = (ev, as)" by (cases x)
  show ?case
  proof (cases "\<exists>e. ev = T_Inner e")
    case True
    with snoc.prems x obtain es0 where "session lc u tr = Some (io, es0)" "es = es0 @ [ev]"
      by (auto simp: session_step_def)
    with snoc.IH [of io es0] True show ?thesis by (fastforce simp: x)
  next
    case False
    with snoc.prems x have "ev = T_Login io" "es = []" "login_to_aprsis lc u io = Inr True"
      by (auto simp: session_step_def split: task_event.splits if_splits)
    then show ?thesis by (auto simp: x)
  qed
qed (simp add: session_def)

lemma online_session:
  assumes "task_run lc u s0 tr ph s" and "ph = Ph_Online"
  shows "\<exists>io es. session lc u tr = Some (io, es)"
  using assms
proof induction
  case (step tr ph s ev ph' s' as)
  from step.hyps(2) show ?case
  proof (cases rule: outer_step_cases)
    case (1 e f)
    with step.IH show ?thesis by (auto simp: session_step_def)
  next
    case 2
    with step.hyps(2) step.prems have "\<exists>io. ev = T_Login io \<and> login_to_aprsis lc u io = Inr True"
      by (cases ev; cases ph) (auto simp: attempt_failed_def waited_def connected_def login_ended_def Let_def split: if_splits)
    then show ?thesis by (auto simp: session_step_def)
  qed
qed simp

text \<open>Where an event stands in a run: before it, the run of the trace so far.\<close>

lemma run_prefix:
  assumes "task_run lc u s0 tr ph s" and "tr = tr1 @ (ev, as) # tr2"
  shows "\<exists>ph1 s1 ph2 s2. task_run lc u s0 tr1 ph1 s1 \<and> outer_step lc u ev ph1 s1 = Some (ph2, s2, as)"
  using assms
proof (induction arbitrary: tr2)
  case (step tr ph s ev' ph' s' as')
  show ?case
  proof (cases tr2 rule: rev_cases)
    case Nil
    with step.prems step.hyps show ?thesis by auto
  next
    case (snoc ys y)
    with step.prems have "tr = tr1 @ (ev, as) # ys" by simp
    then show ?thesis by (rule step.IH)
  qed
qed simp

lemma write_needs_login:
  assumes "task_run lc u s0 tr ph s" and "tr = tr1 @ (ev, as) # tr2" and "A_Write bs v \<in> set as"
  shows "u_rw u \<and> (\<exists>tr0 io bs0 mid ver r. tr1 = tr0 @ (T_Login io, bs0) # mid \<and> (\<forall>x\<in>set mid. \<exists>e. fst x = T_Inner e)
    \<and> li_version io = L_Line ver \<and> li_write io = None \<and> li_flush io = None \<and> li_response io = L_Line r
    \<and> str_contains ''verified'' (to_lowercase lc r) \<and> \<not> str_contains ''unverified'' (to_lowercase lc r))"
proof -
  obtain ph1 s1 ph2 s2 where r: "task_run lc u s0 tr1 ph1 s1" and o: "outer_step lc u ev ph1 s1 = Some (ph2, s2, as)"
    using run_prefix [OF assms(1,2)] by blast
  from o obtain e f where e: "ev = T_Inner e" "ph1 = Ph_Online" "inner_step u e s1 = Some (s2, as, f)"
    by (cases rule: outer_step_cases) (use assms(3) in blast)+
  have rw: "u_rw u" using beacon_actions_rw [OF e(3) assms(3)] .
  obtain io es where "session lc u tr1 = Some (io, es)" using online_session [OF r e(2)] by blast
  from session_trace [OF this] obtain tr0 bs0 mid where
    t: "tr1 = tr0 @ (T_Login io, bs0) # mid" "map fst mid = es" "\<forall>ev\<in>set es. \<exists>e. ev = T_Inner e"
      "login_to_aprsis lc u io = Inr True" by blast
  have "\<forall>x\<in>set mid. \<exists>e. fst x = T_Inner e" using t(3) by (simp flip: t(2))
  moreover have "\<exists>ver r. li_version io = L_Line ver \<and> li_write io = None \<and> li_flush io = None \<and> li_response io = L_Line r
    \<and> str_contains ''verified'' (to_lowercase lc r) \<and> \<not> str_contains ''unverified'' (to_lowercase lc r)"
    using t(4) rw by (auto simp: login_ok_iff login_verdict_iff)
  ultimately show ?thesis using rw t(1) by blast
qed

section \<open>Backoff\<close>

text \<open>Attempts since the last connection.\<close>

definition attempts_step :: "task_event \<Rightarrow> nat \<Rightarrow> nat" where
  "attempts_step ev n = (case ev of T_Connected \<Rightarrow> 0 | T_Waited \<Rightarrow> n + 1 | _ \<Rightarrow> n)"

definition attempts :: "trace \<Rightarrow> nat" where
  "attempts tr = fold (\<lambda>x. attempts_step (fst x)) tr 0"

lemma attempts_snoc [simp]: "attempts (tr @ [x]) = attempts_step (fst x) (attempts tr)"
  by (simp add: attempts_def)

lemma inner_backoff: "inner_step u e s = Some (s', as, f) \<Longrightarrow> v_backoff_secs s' = v_backoff_secs s"
proof (cases e)
  case (Ev_Packet now clock w p)
  assume "inner_step u e s = Some (s', as, f)"
  then have "handle_packet u now clock w p s = (s', as, f)" by (simp add: Ev_Packet)
  moreover have "v_backoff_secs (count_reason r t) = v_backoff_secs t" for r t by (cases r) simp_all
  ultimately show ?thesis
    by (auto simp: handle_packet_def igate_packet_def count_received_def count_drop_def record_igated_def Let_def
        split: option.splits if_splits)
qed (use handle_beacon_counters handle_move_counters handle_stats_counters in
    \<open>auto simp: handle_read_def handle_lagged_def split: read_result.splits if_splits\<close>)

lemma outer_backoff:
  "outer_step lc u ev ph s = Some (ph', s', as) \<Longrightarrow> v_backoff_secs s' = (case ev of
     T_Connected \<Rightarrow> initial_backoff | T_Waited \<Rightarrow> next_backoff (v_backoff_secs s) | _ \<Rightarrow> v_backoff_secs s)"
proof (cases ev)
  case (T_Inner e)
  assume "outer_step lc u ev ph s = Some (ph', s', as)"
  then show ?thesis using inner_backoff [of u e s]
    by (cases ph) (auto simp: T_Inner split: option.splits prod.splits)
qed (cases ph; force simp: attempt_failed_def waited_def connected_def login_ended_def Let_def split: if_splits)+

lemma run_backoff:
  assumes "task_run lc u s0 tr ph s" and "v_backoff_secs s0 = initial_backoff"
  shows "v_backoff_secs s = (next_backoff ^^ attempts tr) initial_backoff"
  using assms(1)
proof induction
  case start
  then show ?case by (simp add: attempts_def assms(2))
next
  case (step tr ph s ev ph' s' as)
  from outer_backoff [OF step.hyps(2)] step.IH show ?case
    by (cases ev) (simp_all add: attempts_step_def)
qed

section \<open>Beacons and reports\<close>

text \<open>A position taken from gpsd is that of a fix not older than 30 seconds.\<close>

lemma gpsd_location_fresh:
  "gpsd_beacon_location now gps alt = Some loc \<longleftrightarrow> (\<exists>g. gps = Some (Some g) \<and> is_fresh now g
     \<and> loc = \<lparr> loc_lat = fix_lat g, loc_lon = fix_lon g,
         loc_alt = (case fix_alt_ft g of Some a \<Rightarrow> Some a | None \<Rightarrow> alt), loc_source = Src_Gpsd \<rparr>)"
  by (cases gps; cases "the gps") (auto simp: gpsd_beacon_location_def)

lemma beacon_write:
  "send_position_beacon u utc w loc = (h, as) \<Longrightarrow> as = [] \<and> h \<or> (\<exists>body.
     positpacket utc loc (u_callsign u) (u_station_name u) (u_symbol u) (u_overlay u) (u_dao u) = Inr body
     \<and> as = [A_Write (body @ crlf) w] \<and> h = write_done w)"
  by (auto simp: send_position_beacon_def split: sum.splits)

text \<open>The movement arm.\<close>

lemma move_actions:
  assumes "inner_step u (Ev_Move now utc gps w) s = Some (s', as, f)" and "as \<noteq> []"
  shows "\<exists>g loc body. gps = Some (Some g) \<and> is_fresh now g \<and> loc_lat loc = fix_lat g \<and> loc_lon loc = fix_lon g
    \<and> has_moved (u_move_threshold u) (v_last_beacon_pos s) loc \<and> move_enabled u
    \<and> positpacket utc loc (u_callsign u) (u_station_name u) (u_symbol u) (u_overlay u) (u_dao u) = Inr body
    \<and> as = [A_Write (body @ crlf) w]
    \<and> (if write_done w then s' = note_beacon loc s \<and> f = Go else s' = s \<and> f = Break)"
proof -
  from assms have e: "move_enabled u" "handle_move u now utc gps w s = (s', as, f)" by (auto split: if_splits)
  then obtain loc where loc: "gpsd_beacon_location now gps (loc_alt (u_location u)) = Some loc"
      "has_moved (u_move_threshold u) (v_last_beacon_pos s) loc"
    using assms(2) by (auto simp: handle_move_def split: option.splits if_splits)
  obtain h bs where b: "send_position_beacon u utc w loc = (h, bs)" by fastforce
  from e(2) loc b have r: "as = bs" "if h then s' = note_beacon loc s \<and> f = Go else s' = s \<and> f = Break"
    by (auto simp: handle_move_def split: if_splits)
  from beacon_write [OF b] assms(2) r(1) obtain body where
    "positpacket utc loc (u_callsign u) (u_station_name u) (u_symbol u) (u_overlay u) (u_dao u) = Inr body"
    "as = [A_Write (body @ crlf) w]" "h = write_done w" by blast
  moreover obtain g where "gps = Some (Some g)" "is_fresh now g" "loc_lat loc = fix_lat g" "loc_lon loc = fix_lon g"
    using loc(1) gpsd_location_fresh [of now gps "loc_alt (u_location u)" loc] by auto
  ultimately show ?thesis using r(2) e(1) loc(2)
    by (intro exI [of _ g] exI [of _ loc] exI [of _ body]) auto
qed

text \<open>The report always has its five lines.\<close>

lemma report_lines:
  "\<exists>t e p n b. to_aprs (report_of u s) cs = Inr [t, e, p, n, b]"
  by (simp add: to_aprs_def report_of_def report_items_def Let_def split: prod.split)

lemma report_note_beacon [simp]: "report_of u (note_beacon loc s) = report_of u s"
  by (auto simp: note_beacon_def report_of_def report_items_def split: option.split)

definition interval_counts :: "aprsis_state \<Rightarrow> u32 \<times> u32 \<times> u32 \<times> u32 \<times> u32" where
  "interval_counts s = (v_rf_received s, v_dropped s, v_heard_direct s, v_received_other s, v_received_sat s)"

lemma interval_note_beacon [simp]: "interval_counts (note_beacon loc s) = interval_counts s"
  by (auto simp: note_beacon_def interval_counts_def split: option.split)

text \<open>The writes a telemetry tick sets out to do: the beacon, if there is one, and the five lines of the report.\<close>

definition planned_beacon :: "aprsis_setup \<Rightarrow> instant \<Rightarrow> datetime \<Rightarrow> gps_fix option option \<Rightarrow> write_result
    \<Rightarrow> aprsis_action list" where
  "planned_beacon u now utc gps w = (case beacon_location u now gps of
     None \<Rightarrow> []
   | Some loc \<Rightarrow>
      (case positpacket utc loc (u_callsign u) (u_station_name u) (u_symbol u) (u_overlay u) (u_dao u) of
         Inl e \<Rightarrow> []
       | Inr text \<Rightarrow> [A_Write (text @ crlf) w]))"

definition planned_report :: "aprsis_setup \<Rightarrow> (nat \<Rightarrow> write_result) \<Rightarrow> string list \<Rightarrow> aprsis_action list" where
  "planned_report u ws ls = map (\<lambda>i. A_Write (report_line u (ls ! i)) (ws i)) [0..<length ls]"

fun succeeds :: "aprsis_action \<Rightarrow> bool" where
  "succeeds (A_Write bs v) = write_done v"
| "succeeds _ = True"

text \<open>What is done of a plan: everything up to and including the first write that fails.\<close>

definition up_to_failure :: "aprsis_action list \<Rightarrow> aprsis_action list" where
  "up_to_failure as = takeWhile succeeds as @ take 1 (dropWhile succeeds as)"

lemma up_to_failure_Nil [simp]: "up_to_failure [] = []"
  by (simp add: up_to_failure_def)

lemma up_to_failure_Cons [simp]:
  "up_to_failure (a # as) = (if succeeds a then a # up_to_failure as else [a])"
  by (simp add: up_to_failure_def)

lemma up_to_failure_all: "list_all succeeds as \<Longrightarrow> up_to_failure as = as"
  by (induction as) simp_all

lemma write_lines_plan:
  "write_lines ws i ls = (up_to_failure (map (\<lambda>j. A_Write (ls ! j) (ws (i + j))) [0..<length ls]),
     list_all succeeds (map (\<lambda>j. A_Write (ls ! j) (ws (i + j))) [0..<length ls]))"
proof (induction ls arbitrary: i)
  case (Cons l ls)
  have "map (\<lambda>j. A_Write ((l # ls) ! j) (ws (i + j))) [0..<length (l # ls)]
      = A_Write l (ws i) # map (\<lambda>j. A_Write (ls ! j) (ws (i + 1 + j))) [0..<length ls]"
    by (simp add: upt_conv_Cons map_Suc_upt [symmetric] comp_def del: upt_Suc)
  then show ?case by (simp only: write_lines.simps Cons.IH) simp
qed simp

lemma send_report_plan:
  assumes "to_aprs (report_of u s) (u_callsign u) = Inr ls"
  shows "send_report u ws s =
     (if list_all succeeds (planned_report u ws ls)
      then (s\<lparr>v_sequence := v_sequence s + 1, v_rf_received := 0, v_dropped := 0, v_heard_direct := 0,
          v_received_other := 0, v_received_sat := 0\<rparr>,
          planned_report u ws ls @ [A_SaveSeq (v_sequence s + 1)], Go)
      else (s, up_to_failure (planned_report u ws ls), Break))"
proof -
  have "map (\<lambda>j. A_Write (map (report_line u) ls ! j) (ws (0 + j))) [0..<length (map (report_line u) ls)]
      = planned_report u ws ls"
    by (simp add: planned_report_def)
  then show ?thesis
    using assms by (simp add: send_report_def write_lines_plan up_to_failure_all Let_def)
qed

definition noted :: "location option \<Rightarrow> aprsis_state \<Rightarrow> aprsis_state" where
  "noted l s = (case l of Some loc \<Rightarrow> note_beacon loc s | None \<Rightarrow> s)"

lemma noted_simps [simp]: "v_sequence (noted l s) = v_sequence s" "interval_counts (noted l s) = interval_counts s"
  by (simp_all add: noted_def interval_counts_def note_beacon_def split: option.split)

section \<open>Properties of the arms and of runs\<close>

text \<open>
  C18. Whatever packet reaches the task, the packet arm writes
  nothing or exactly one protocol line: header, then payload up to its trailing terminators. A
  line is only written for a packet the gate passes, when igating is enabled with a valid
  passcode, and that is not a duplicate. No assumption on the packet's fields is needed: what
  the gate's own test of the header fields lets through, the check before the write stops.
\<close>

theorem packet_write_is_one_gated_line:
  assumes "inner_step u (Ev_Packet now clock w p) s = Some (s', as, f)" and "A_Write bs v \<in> set as"
  shows "as = [A_Write bs v]
    \<and> wire_lines bs = [rxigate_header p (u_callsign u) @ trim_end_crlf (p_info_bytes p)]
    \<and> u_igating u \<and> u_rw u \<and> droppacket now p = None
    \<and> \<not> cache_hit (timestamp clock) (dedup_key p) (v_dedup_cache s)"
proof -
  have "handle_packet u now clock w p s = (s', as, f)" using assms(1) by simp
  from packet_write [OF this assms(2)] show ?thesis by blast
qed

text \<open>
  C19. Nothing but the login is written to a connection before the
  server has verified it: whenever a line is written in a run, the passcode is valid, and the
  last login before it, with only events of the inner loop in between, was answered by a line
  that says verified and not unverified.
\<close>

theorem write_after_verified_login:
  assumes "task_run lc u s0 tr ph s" and "tr = tr1 @ (ev, as) # tr2" and "A_Write bs v \<in> set as"
  shows "u_rw u \<and> (\<exists>tr0 io bs0 mid ver r. tr1 = tr0 @ (T_Login io, bs0) # mid
    \<and> (\<forall>x\<in>set mid. \<exists>e. fst x = T_Inner e)
    \<and> li_version io = L_Line ver \<and> li_write io = None \<and> li_flush io = None \<and> li_response io = L_Line r
    \<and> str_contains ''verified'' (to_lowercase lc r) \<and> \<not> str_contains ''unverified'' (to_lowercase lc r))"
  by (rule write_needs_login [OF assms])

text \<open>
  C20. The lifetime counters of a run add up: every packet taken from the
  channel is counted as received; when igating, received packets are igated, dropped or lost in
  a failed write, each counted once; and every drop is counted under exactly one reason, so the
  sum of the reasons stays the number of drops.
\<close>

theorem packet_accounting:
  assumes "task_run lc u s0 tr ph s"
  shows "v_life_rf_received s - v_life_rf_received s0 = of_nat (packet_count tr)
    \<and> v_life_igated s - v_life_igated s0 = of_nat (length (igated_list tr))
    \<and> (u_igating u \<and> u_rw u \<longrightarrow> v_life_rf_received s - v_life_rf_received s0
        = (v_life_igated s - v_life_igated s0) + (v_life_dropped s - v_life_dropped s0) + of_nat (lost_count tr))
    \<and> v_life_dropped s - v_life_dropped s0 = sum_drops s - sum_drops s0"
  using run_counters [OF assms] by simp

text \<open>
  C21. The wait before the next attempt is five seconds doubled once for each
  wait since the last connection, and never more than 300 seconds.
\<close>

theorem reconnect_backoff:
  assumes "task_run lc u s0 tr ph s" and "v_backoff_secs s0 = 5"
  shows "unat (v_backoff_secs s) = min (5 * 2 ^ attempts tr) 300"
  using run_backoff [OF assms(1)] assms(2) backoff_iter by (simp add: initial_backoff_def)

text \<open>
  C22. The movement arm sends a beacon only for a fix received less than 30
  seconds before, whose position differs from the last one beaconed by more than the threshold in
  one coordinate (or is the first); what it sends is the beacon of that fix's position; and the
  position becomes the last one beaconed exactly when the write succeeds.
\<close>

theorem moving_beacon_fresh:
  assumes "inner_step u (Ev_Move now utc gps w) s = Some (s', as, f)" and "as \<noteq> []"
  shows "\<exists>g loc body. gps = Some (Some g) \<and> now < fix_received_at g + secs 30
    \<and> loc_lat loc = fix_lat g \<and> loc_lon loc = fix_lon g
    \<and> has_moved (u_move_threshold u) (v_last_beacon_pos s) loc
    \<and> positpacket utc loc (u_callsign u) (u_station_name u) (u_symbol u) (u_overlay u) (u_dao u) = Inr body
    \<and> as = [A_Write (body @ crlf) w]
    \<and> (if write_done w then s' = note_beacon loc s \<and> f = Go else s' = s \<and> f = Break)"
  using move_actions [OF assms] is_fresh_window by blast

text \<open>
  C23. A telemetry tick of a task that beacons sets out to write the position beacon,
  when there is a position and it makes a beacon, and the five lines of the report, and does so up
  to and including the first write that fails. If none fails, and only then, the loop goes on: the
  sequence number goes up by one and is saved, and the counts of the interval start again from
  zero. Otherwise the session ends: sequence number and counts are as before, nothing is saved, and
  the next report covers them; all that can have changed is the position last beaconed, and that
  only when the beacon itself did not fail.
\<close>

theorem telemetry_cycle:
  assumes "u_beaconing u \<and> u_rw u" and "handle_beacon u now utc gps w ws s = (s', as, f)"
  shows "\<exists>ls. to_aprs (report_of u s) (u_callsign u) = Inr ls \<and> length ls = 5
    \<and> (let beacon = planned_beacon u now utc gps w; plan = beacon @ planned_report u ws ls;
          s1 = noted (beacon_location u now gps) s
       in if list_all succeeds plan
          then f = Go \<and> as = plan @ [A_SaveSeq (v_sequence s + 1)]
            \<and> s' = s1\<lparr>v_sequence := v_sequence s + 1, v_rf_received := 0, v_dropped := 0,
                v_heard_direct := 0, v_received_other := 0, v_received_sat := 0\<rparr>
          else f = Break \<and> as = up_to_failure plan
            \<and> s' = (if list_all succeeds beacon then s1 else s))"
proof -
  obtain ls where ls: "to_aprs (report_of u s) (u_callsign u) = Inr ls" "length ls = 5"
    using report_lines [of u s "u_callsign u"] by auto
  show ?thesis
  proof (cases "beacon_location u now gps")
    case None
    with assms have "send_report u ws s = (s', as, f)" by (simp add: handle_beacon_def)
    then show ?thesis
      using None ls send_report_plan [OF ls(1), of ws]
      by (auto simp: planned_beacon_def noted_def Let_def)
  next
    case (Some loc)
    have r: "to_aprs (report_of u (note_beacon loc s)) (u_callsign u) = Inr ls" using ls by (simp add: report_note_beacon)
    have q: "v_sequence (note_beacon loc s) = v_sequence s" by (simp add: note_beacon_def split: option.split)
    show ?thesis
      using assms Some ls q send_report_plan [OF r, of ws]
      by (auto simp: handle_beacon_def send_position_beacon_def planned_beacon_def noted_def Let_def
          split: sum.splits if_splits)
  qed
qed

section \<open>From a validated configuration\<close>

text \<open>What validation promises of a position that is to be beaconed.\<close>

lemma validated_position:
  assumes "validate exists c = []" and "ais_enabled (cfg_aprsis c) = Some True"
    and "ais_beaconing (cfg_aprsis c) = Some True" and "loc_source (cfg_location c) = Src_Config"
  shows "\<exists>lat lon alt. cfg_location c = \<lparr> loc_lat = Some lat, loc_lon = Some lon, loc_alt = Some alt, loc_source = Src_Config \<rparr>
    \<and> coord 90 lat \<and> coord 180 lon"
proof -
  have p: "positions_ok c" using assms(1) by (simp add: validate_Nil)
  then obtain lat lon alt where l: "loc_lat (cfg_location c) = Some lat" "loc_lon (cfg_location c) = Some lon"
      "loc_alt (cfg_location c) = Some alt"
    using assms(2-4) by (auto simp: positions_ok_def Let_def)
  have b: "lit64 (- 90) = Fin (- 90)" "lit64 90 = Fin 90" "lit64 (- 180) = Fin (- 180)" "lit64 180 = Fin 180"
    by (simp_all add: fp_eval)
  have "contains_range (- 90) 90 lat" "contains_range (- 180) 180 lon"
    using p l by (auto simp: positions_ok_def Let_def)
  then have "coord 90 lat" "coord 180 lon"
    using contains_range_fin [of "- 90" 90 lat] contains_range_fin [of "- 180" 180 lon]
    by (simp_all add: b coord_def abs_le_iff)
  moreover have "cfg_location c = \<lparr> loc_lat = Some lat, loc_lon = Some lon, loc_alt = Some alt, loc_source = Src_Config \<rparr>"
    using l assms(4) by (intro location.equality) simp_all
  ultimately show ?thesis by blast
qed

text \<open>The beacon of a complete position in range: refused, or read back.\<close>

lemma static_beacon:
  assumes "u_location u = \<lparr> loc_lat = Some lat, loc_lon = Some lon, loc_alt = Some alt, loc_source = Src_Config \<rparr>"
    and "coord 90 lat" and "coord 180 lon"
  shows "if fp_le alt (Fin 0) \<or> fp_eq lat (Fin 0) \<or> fp_eq lon (Fin 0)
       then send_position_beacon u utc w (u_location u) = (True, [])
       else (\<exists>la lo ext y x. send_position_beacon u utc w (u_location u) = (write_done w,
            [A_Write (u_callsign u @ ''>APZJD1,TCPIP*:/'' @ hms utc @ ''h''
              @ la @ overlay_string (u_overlay u) (u_symbol u) @ lo @ symbol_string (u_symbol u)
              @ ''/A='' @ show_pad0_fixed 6 0 alt @ u_station_name u @ ext @ crlf) w])
          \<and> read_position la lo ext = Some (Some y, Some x)
          \<and> \<bar>y - fval lat\<bar> < resolution (u_dao u) \<and> \<bar>x - fval lon\<bar> < resolution (u_dao u))"
proof (cases "fp_le alt (Fin 0) \<or> fp_eq lat (Fin 0) \<or> fp_eq lon (Fin 0)")
  case True
  then show ?thesis using assms(1) by (auto simp: send_position_beacon_def positpacket_def)
next
  case False
  then obtain la lo ext y x where
    "positpacket utc (u_location u) (u_callsign u) (u_station_name u) (u_symbol u) (u_overlay u) (u_dao u)
      = Inr (u_callsign u @ ''>APZJD1,TCPIP*:/'' @ hms utc @ ''h'' @ la @ overlay_string (u_overlay u) (u_symbol u) @ lo
        @ symbol_string (u_symbol u) @ ''/A='' @ show_pad0_fixed 6 0 alt @ u_station_name u @ ext)"
    "read_position la lo ext = Some (Some y, Some x)"
    "\<bar>y - fval lat\<bar> < resolution (u_dao u)" "\<bar>x - fval lon\<bar> < resolution (u_dao u)"
    using beacon_position_read [of "u_location u" lat lon alt utc "u_callsign u" "u_station_name u" "u_symbol u" "u_overlay u" "u_dao u"] assms
    by auto
  then show ?thesis using False by (simp add: send_position_beacon_def, blast)
qed

text \<open>
  C10. What validation promises the task: a validated configuration with
  APRS-IS enabled starts it, with a host and a callsign, unless one of its two periods is zero, in
  which case it panics. If it is to beacon a configured position, that position is complete and is
  the one every telemetry tick takes, and the beacon made of it is one from which a receiver reads
  the position back within the resolution of the mode; a position that validation accepts and the
  beacon does not is one with a coordinate of exactly zero or an altitude not above zero, and then
  nothing is ever written for it.
\<close>

theorem validated_config_beacons:
  assumes "validate exists c = []" and "ais_enabled (cfg_aprsis c) = Some True"
  shows "if ais_threshold (cfg_aprsis c) = Some 0 \<or> gpsd_min_beacon_secs_eff (gpsd_config_of c) = 0
    then panicked (aprsis_setup_of uc c)
    else (\<exists>u. aprsis_setup_of uc c = Returns (Inr u) \<and> u_host u \<noteq> [] \<and> u_callsign u \<noteq> []
      \<and> (u_beaconing u \<and> u_position_source u = Src_Config \<longrightarrow>
          (\<exists>lat lon alt. u_location u = \<lparr> loc_lat = Some lat, loc_lon = Some lon, loc_alt = Some alt, loc_source = Src_Config \<rparr>
            \<and> beacon_location u now gps = Some (u_location u)
            \<and> (if fp_le alt (Fin 0) \<or> fp_eq lat (Fin 0) \<or> fp_eq lon (Fin 0)
               then send_position_beacon u utc w (u_location u) = (True, [])
               else (\<exists>la lo ext y x. send_position_beacon u utc w (u_location u) = (write_done w,
                    [A_Write (u_callsign u @ ''>APZJD1,TCPIP*:/'' @ hms utc @ ''h''
                      @ la @ overlay_string (u_overlay u) (u_symbol u) @ lo @ symbol_string (u_symbol u)
                      @ ''/A='' @ show_pad0_fixed 6 0 alt @ u_station_name u @ ext @ crlf) w])
                  \<and> read_position la lo ext = Some (Some y, Some x)
                  \<and> \<bar>y - fval lat\<bar> < resolution (u_dao u) \<and> \<bar>x - fval lon\<bar> < resolution (u_dao u))))))"
proof (cases "ais_threshold (cfg_aprsis c) = Some 0 \<or> gpsd_min_beacon_secs_eff (gpsd_config_of c) = 0")
  case True
  then show ?thesis using validated_setup [OF assms, of uc] by simp
next
  case False
  from assms obtain cs h p where s: "sta_callsign (cfg_station c) = Some cs" "cs \<noteq> []"
      "ais_host (cfg_aprsis c) = Some h" "h \<noteq> []" "ais_port (cfg_aprsis c) = Some p"
    by (auto simp: validate_Nil required_ok_def Let_def)
  obtain u where u: "aprsis_setup_of uc c = Returns (Inr u)" "u_host u = h" "u_callsign u = cs"
      "u_beaconing u = or_default False (ais_beaconing (cfg_aprsis c))" "u_location u = cfg_location c"
      "u_position_source u = loc_source (cfg_location c)"
    using False by (cases "ais_threshold (cfg_aprsis c)") (simp_all add: aprsis_setup_of_def make_interval_def s)
  show ?thesis
  proof (cases "u_beaconing u \<and> u_position_source u = Src_Config")
    case b: True
    then have "ais_beaconing (cfg_aprsis c) = Some True"
      using u(4) by (cases "ais_beaconing (cfg_aprsis c)") simp_all
    from validated_position [OF assms this] b u(5,6) obtain lat lon alt where
      "u_location u = \<lparr> loc_lat = Some lat, loc_lon = Some lon, loc_alt = Some alt, loc_source = Src_Config \<rparr>"
      "coord 90 lat" "coord 180 lon" by auto
    with static_beacon [OF this, of utc w] b have "\<exists>lat lon alt. u_location u = \<lparr> loc_lat = Some lat, loc_lon = Some lon, loc_alt = Some alt, loc_source = Src_Config \<rparr>
        \<and> beacon_location u now gps = Some (u_location u)
        \<and> (if fp_le alt (Fin 0) \<or> fp_eq lat (Fin 0) \<or> fp_eq lon (Fin 0)
               then send_position_beacon u utc w (u_location u) = (True, [])
               else (\<exists>la lo ext y x. send_position_beacon u utc w (u_location u) = (write_done w,
                    [A_Write (u_callsign u @ ''>APZJD1,TCPIP*:/'' @ hms utc @ ''h''
                      @ la @ overlay_string (u_overlay u) (u_symbol u) @ lo @ symbol_string (u_symbol u)
                      @ ''/A='' @ show_pad0_fixed 6 0 alt @ u_station_name u @ ext @ crlf) w])
                  \<and> read_position la lo ext = Some (Some y, Some x)
                  \<and> \<bar>y - fval lat\<bar> < resolution (u_dao u) \<and> \<bar>x - fval lon\<bar> < resolution (u_dao u)))"
      by (intro exI [of _ lat] exI [of _ lon] exI [of _ alt]) (simp add: beacon_location_def)
    then show ?thesis using False u s by simp
  next
    case False
    then show ?thesis using \<open>\<not> (ais_threshold (cfg_aprsis c) = Some 0 \<or> gpsd_min_beacon_secs_eff (gpsd_config_of c) = 0)\<close> u s
      by auto
  qed
qed

section \<open>Shutdown and restart\<close>

text \<open>The store's part of the actions, with the results the task only logs.\<close>

fun perform :: "'d native_db \<Rightarrow> aprsis_action \<Rightarrow> 'd \<Rightarrow> 'd \<times> unit result list" where
  "perform nd (A_SaveLifetime r) d = (let (d', x) = save_aprsis_lifetime nd d r in (d', [x]))"
| "perform nd (A_SaveSeq n) d = (let (d', x) = save_telemetry_seq nd d n in (d', [x]))"
| "perform nd _ d = (d, [])"

fun perform_all :: "'d native_db \<Rightarrow> aprsis_action list \<Rightarrow> 'd \<Rightarrow> 'd \<times> unit result list" where
  "perform_all nd [] d = (d, [])"
| "perform_all nd (a # as) d =
     (let (d1, x) = perform nd a d; (d2, y) = perform_all nd as d1 in (d2, x @ y))"

lemma perform_all_append:
  "perform_all nd (as @ bs) d = (let (d1, x) = perform_all nd as d; (d2, y) = perform_all nd bs d1 in (d2, x @ y))"
  by (induction as arbitrary: d) (simp_all add: case_prod_unfold Let_def)

context native_db_laws
begin

lemma perform_all_ok: "ok d \<Longrightarrow> ok (fst (perform_all nd as d))"
proof (induction as arbitrary: d)
  case (Cons a as)
  have "ok (fst (run_txn nd d ops))" for ops using run_txn_ok [OF Cons.prems] by (metis prod.collapse)
  then have "ok (fst (perform nd a d))" using Cons.prems
    by (cases a) (simp_all add: save_aprsis_lifetime_def save_telemetry_seq_def case_prod_unfold Let_def)
  then show ?case using Cons.IH by (simp add: case_prod_unfold Let_def)
qed simp

lemma flush_restart:
  assumes "ok d" and "perform_all nd (final_flush s) d = (d', [Inr u1, Inr u2])"
    and "load_telemetry_seq nd d' = Inr n" and "load_aprsis_lifetime nd d' = Inr al"
  shows "aprsis_init nd file_exists read_file d' = (initial_state (v_sequence s) (lifetime_record s), d')"
proof -
  obtain d1 where d1: "save_aprsis_lifetime nd d (lifetime_record s) = (d1, Inr u1)"
      "save_telemetry_seq nd d1 (v_sequence s) = (d', Inr u2)"
    using assms(2) by (auto simp: final_flush_def Let_def split: prod.splits)
  have ok1: "ok d1" using run_txn_ok [OF assms(1)] d1(1) by (auto simp: save_aprsis_lifetime_def)
  let ?a = "R_AprsisLifetime ((lifetime_record s)\<lparr>al_id := singleton\<rparr>)"
  have seq: "n = Some (v_sequence s)" using telemetry_seq_saved [OF ok1 d1(2) assms(3)] .
  have "rows d1 (row_key ?a) = Some ?a"
    using run_txn_Inr [OF assms(1)] d1(1) by (auto simp: save_aprsis_lifetime_def)
  moreover have "ok d'" using run_txn_ok [OF ok1] d1(2) by (auto simp: save_telemetry_seq_def)
  moreover have "rows d' (row_key ?a) = rows d1 (row_key ?a)"
    using get_other [OF ok1, of "R_Seq \<lparr> ts_id = singleton, ts_seq = v_sequence s \<rparr>" d' "Inr u2" "row_key ?a"] d1(2)
    by (simp add: save_telemetry_seq_def)
  ultimately have "al = (lifetime_record s)\<lparr>al_id := singleton\<rparr>"
    using assms(4) get_row_Inr [of d'] by (fastforce simp: load_aprsis_lifetime_def bind_result_Inr)
  then have "al = lifetime_record s" by (simp add: lifetime_record_def singleton_def)
  then show ?thesis using assms(3,4) seq by (simp add: aprsis_init_def restore_sequence_def)
qed

lemma flush_resumes:
  assumes "ok d" and "perform_all nd (as @ final_flush s) d = (d', rs @ [Inr u1, Inr u2])"
    and "load_telemetry_seq nd d' = Inr n" and "load_aprsis_lifetime nd d' = Inr al"
  shows "aprsis_init nd file_exists read_file d' = (initial_state (v_sequence s) (lifetime_record s), d')"
proof -
  obtain d1 x y where p: "perform_all nd as d = (d1, x)" "perform_all nd (final_flush s) d1 = (d', y)" "x @ y = rs @ [Inr u1, Inr u2]"
    using assms(2) by (auto simp: perform_all_append Let_def split: prod.splits)
  have "length y = 2" using p(2) by (auto simp: final_flush_def Let_def split: prod.splits)
  then have y: "y = [Inr u1, Inr u2]" using p(3) by (cases y rule: rev_cases) (auto simp: length_Suc_conv append_eq_append_conv2)
  have "ok d1" using perform_all_ok [OF assms(1), of as] p(1) by simp
  from flush_restart [OF this p(2) [unfolded y] assms(3,4)] show ?thesis .
qed

end

lemma done_flush:
  assumes "task_run lc u s0 tr ph s" and "ph = Ph_Done"
  shows "\<exists>tr1 as. tr = tr1 @ [(T_Cancelled, as @ final_flush s)]"
  using assms
proof induction
  case (step tr ph s ev ph' s' as)
  then have "ev = T_Cancelled \<and> s' = s \<and> (as = final_flush s \<or> as = A_Shutdown # final_flush s)"
    by (cases ev; cases ph) (auto simp: attempt_failed_def waited_def connected_def login_ended_def Let_def
        split: option.splits prod.splits if_splits)
  then show ?case by (metis append_Cons append_Nil)
qed simp

text \<open>
  C24. A run that ends by cancellation leaves in the store what the next start
  resumes from: if its last two saves succeed and the next start can read them, the task starts
  again with the same sequence number and the same lifetime counters, each of the seven drop
  reasons included, whatever the saves before did.
\<close>

theorem graceful_restart:
  assumes "native_db_laws nd rows ok" and "ok d" and "task_run lc u s0 tr Ph_Done s"
    and "perform_all nd (concat (map snd tr)) d = (d', rs @ [Inr (), Inr ()])"
    and "load_telemetry_seq nd d' = Inr n" and "load_aprsis_lifetime nd d' = Inr al"
  shows "\<exists>s2. aprsis_init nd file_exists read_file d' = (s2, d') \<and> v_sequence s2 = v_sequence s
    \<and> v_life_rf_received s2 = v_life_rf_received s \<and> v_life_igated s2 = v_life_igated s
    \<and> v_life_dropped s2 = v_life_dropped s
    \<and> v_drops_stale s2 = v_drops_stale s \<and> v_drops_rfonly s2 = v_drops_rfonly s
    \<and> v_drops_query s2 = v_drops_query s \<and> v_drops_thirdparty s2 = v_drops_thirdparty s
    \<and> v_drops_sat s2 = v_drops_sat s \<and> v_drops_duplicate s2 = v_drops_duplicate s
    \<and> v_drops_malformed s2 = v_drops_malformed s
    \<and> v_total_reconnects s2 = v_total_reconnects s \<and> v_lagged_drops s2 = v_lagged_drops s"
proof -
  obtain tr1 as where t: "tr = tr1 @ [(T_Cancelled, as @ final_flush s)]" using done_flush [OF assms(3)] by blast
  have "perform_all nd ((concat (map snd tr1) @ as) @ final_flush s) d = (d', rs @ [Inr (), Inr ()])"
    using assms(4) by (simp add: t)
  from native_db_laws.flush_resumes [OF assms(1,2) this assms(5,6)]
  have "aprsis_init nd file_exists read_file d' = (initial_state (v_sequence s) (lifetime_record s), d')" .
  moreover have "ucast (ucast (v_total_reconnects s) :: u64) = v_total_reconnects s" by (rule bit_word_eqI) (simp add: bit_simps)
  ultimately show ?thesis
    by (simp add: initial_state_def lifetime_record_def)
qed

section \<open>A sample run\<close>

definition sample_setup :: aprsis_setup where
  "sample_setup = \<lparr> u_host = ''noam.aprs2.net'', u_port = 14580, u_login = ''user N0CALL pass 13023'' @ crlf,
     u_callsign = ''N0CALL'', u_beaconing = True, u_igating = True, u_station_name = ''igate'',
     u_symbol = None, u_overlay = None, u_dao = Dao_Off,
     u_location = \<lparr> loc_lat = Some (Fin 39), loc_lon = Some (Fin (- 104)), loc_alt = Some (Fin 5280),
       loc_source = Src_Gpsd \<rparr>,
     u_position_source = Src_Gpsd, u_move_threshold = lit64 (1 / 10000), u_min_beacon_secs = 30,
     u_rw = True, u_telemetry_threshold = 600 \<rparr>"

definition sample_login :: login_io where
  "sample_login = \<lparr> li_version = L_Line ''# aprsc'', li_write = None, li_flush = None,
     li_response = L_Line ''# N0CALL verified'' \<rparr>"

definition sample_start :: aprsis_state where
  "sample_start = initial_state 7 default_aprsis_lifetime"

definition at_second :: "int \<Rightarrow> task_event" where
  "at_second t = T_Inner (Ev_Packet 0 (t * 1000000000) W_Ok sample_packet)"

text \<open>The same packet at the seconds 100, 110 and 140, then the end.\<close>

definition sample_events :: "task_event list" where
  "sample_events = [T_ResolveFailed, T_Waited, T_Connected, T_Login sample_login, at_second 100, at_second 110,
     at_second 140, T_Cancelled]"

definition sample_line :: bytes where
  "sample_line = for_rxigate_bytes sample_packet ''N0CALL'' @ crlf"

definition sample_written :: "task_event \<times> aprsis_action list" where
  "sample_written = (at_second 140, [A_Write sample_line W_Ok])"

lemma sample_login_ok: "login_to_aprsis (\<lambda>ch. ch) sample_setup sample_login = Inr True"
  by (simp add: login_ok_iff login_verdict_iff sample_login_def sample_setup_def to_lowercase_ascii is_ascii_def
      ascii_lower_def)

lemma sample_boundary: "\<not> embedded_crlf (for_rxigate_bytes sample_packet ''N0CALL'')"
  by (simp add: for_rxigate_bytes_def rxigate_header_def sample_packet_def embedded_crlf_Cons is_crlf_def)

lemma sample_fate:
  "handle_packet sample_setup 0 clock W_Ok sample_packet s =
     (if cache_hit (timestamp clock) (dedup_key sample_packet) (v_dedup_cache s)
      then (count_drop (count_received sample_packet s)\<lparr>v_drops_duplicate := v_drops_duplicate (count_received sample_packet s) + 1\<rparr>, [], Go)
      else (record_igated (dedup_key sample_packet) (timestamp clock) (count_received sample_packet s), [A_Write sample_line W_Ok], Go))"
  using sample_packet_gated [of 0] sample_boundary
  by (simp add: handle_packet_def igate_packet_def sample_setup_def sample_line_def Let_def)

lemmas sample_time = timestamp_def nanos_per_sec_def

lemma sample_cache:
  "v_dedup_cache (record_igated k t s) = cache_insert k t (v_dedup_cache s)"
  "v_dedup_cache (s\<lparr>v_drops_duplicate := n\<rparr>) = v_dedup_cache s"
  "v_dedup_cache (s\<lparr>v_backoff_secs := b\<rparr>) = v_dedup_cache s"
  "v_dedup_cache (s\<lparr>v_first_connect := c\<rparr>) = v_dedup_cache s"
  "v_dedup_cache sample_start = Map.empty" "v_first_connect sample_start"
  by (simp_all add: record_igated_def sample_start_def initial_state_def)

definition sample_end :: "phase \<times> aprsis_state \<times> trace" where
  "sample_end = the (exec_events (\<lambda>ch. ch) sample_setup sample_events (Ph_Connect, sample_start, []))"

lemma sample_exec:
  "\<exists>s. sample_end = (Ph_Done, s, [(T_ResolveFailed, []), (T_Waited, []), (T_Connected, []),
      (T_Login sample_login, [A_Login (u_login sample_setup)]), (at_second 100, [A_Write sample_line W_Ok]),
      (at_second 110, []), sample_written, (T_Cancelled, A_Shutdown # final_flush s)])
    \<and> task_run (\<lambda>ch. ch) sample_setup sample_start (snd (snd sample_end)) Ph_Done s"
proof -
  have w: "login_written sample_login" by (simp add: login_written_def sample_login_def)
  have "\<exists>s tr. exec_events (\<lambda>ch. ch) sample_setup sample_events (Ph_Connect, sample_start, []) = Some (Ph_Done, s, tr)
    \<and> tr = [(T_ResolveFailed, []), (T_Waited, []), (T_Connected, []),
      (T_Login sample_login, [A_Login (u_login sample_setup)]), (at_second 100, [A_Write sample_line W_Ok]),
      (at_second 110, []), sample_written, (T_Cancelled, A_Shutdown # final_flush s)]"
    by (simp add: sample_events_def at_second_def attempt_failed_def waited_def connected_def login_ended_def
        sample_login_ok w sample_fate sample_time sample_cache cache_hit_def cache_insert_def dedup_ttl_secs_def
        sample_written_def Let_def)
  then obtain s tr where e: "exec_events (\<lambda>ch. ch) sample_setup sample_events (Ph_Connect, sample_start, []) = Some (Ph_Done, s, tr)"
    "tr = [(T_ResolveFailed, []), (T_Waited, []), (T_Connected, []),
      (T_Login sample_login, [A_Login (u_login sample_setup)]), (at_second 100, [A_Write sample_line W_Ok]),
      (at_second 110, []), sample_written, (T_Cancelled, A_Shutdown # final_flush s)]" by blast
  then have se: "sample_end = (Ph_Done, s, tr)" by (simp add: sample_end_def)
  show ?thesis using exec_run [OF e(1)] by (intro exI [of _ s]) (simp add: se e(2))
qed

abbreviation sample_trace :: trace where
  "sample_trace \<equiv> snd (snd sample_end)"

abbreviation sample_final :: aprsis_state where
  "sample_final \<equiv> fst (snd sample_end)"

lemma sample_run: "task_run (\<lambda>ch. ch) sample_setup sample_start sample_trace Ph_Done sample_final"
  using sample_exec by (metis fst_conv snd_conv)

lemma sample_trace: "sample_trace = [(T_ResolveFailed, []), (T_Waited, []), (T_Connected, []),
    (T_Login sample_login, [A_Login (u_login sample_setup)]), (at_second 100, [A_Write sample_line W_Ok]),
    (at_second 110, []), sample_written, (T_Cancelled, A_Shutdown # final_flush sample_final)]"
  using sample_exec by (metis fst_conv snd_conv)

lemma sample_igated: "igated_list sample_trace = [(dedup_key sample_packet, 100), (dedup_key sample_packet, 140)]"
  by (simp add: sample_trace igated_list_def igated_entry_def at_second_def sample_written_def sample_time)

lemma sample_clock: "sorted (clock_reads sample_trace)"
  by (simp add: sample_trace clock_reads_def clock_read_def at_second_def sample_written_def sample_time)

section \<open>Witnesses\<close>

theorem no_duplicate_within_window_witness:
  "\<exists>k. igated_list sample_trace = [(k, 100), (k, 140)] \<and> (100::int) + 30 \<le> 140"
  using no_duplicate_within_window [OF sample_run sample_clock] by (simp add: sample_igated)

theorem packet_write_is_one_gated_line_witness:
  "wire_lines sample_line = [''KD9ABC-9>APRS,W1ABC,qAO,N0CALL:!4903.50N/07201.75W-'']"
proof -
  have "inner_step sample_setup (Ev_Packet 0 0 W_Ok sample_packet) sample_start
      = Some (record_igated (dedup_key sample_packet) 0 (count_received sample_packet sample_start), [A_Write sample_line W_Ok], Go)"
    by (simp add: sample_fate cache_hit_def sample_cache timestamp_def)
  from packet_write_is_one_gated_line [OF this, of sample_line W_Ok] show ?thesis
    by (simp add: sample_setup_def sample_packet_def rxigate_header_def trim_end_crlf_def is_crlf_def)
qed

theorem write_after_verified_login_witness:
  "\<exists>tr1 tr2 io. sample_trace = tr1 @ sample_written # tr2 \<and> (T_Login io, [A_Login (u_login sample_setup)]) \<in> set tr1
     \<and> u_rw sample_setup"
proof -
  have t: "sample_trace = take 6 sample_trace @ (at_second 140, [A_Write sample_line W_Ok]) # drop 7 sample_trace"
    by (simp add: sample_trace sample_written_def)
  have "u_rw sample_setup" using write_after_verified_login [OF sample_run t, of sample_line W_Ok] by simp
  moreover have "(T_Login sample_login, [A_Login (u_login sample_setup)]) \<in> set (take 6 sample_trace)"
    by (simp add: sample_trace)
  ultimately show ?thesis using t by (metis sample_written_def)
qed

lemma word_3_2:
  fixes x :: u64
  assumes "3 = 2 + x"
  shows "x = 1"
proof -
  have "x = (2 + x) - 2" by simp
  also have "\<dots> = 3 - 2" using assms by metis
  finally show ?thesis by simp
qed

theorem packet_accounting_witness:
  "v_life_rf_received sample_final = 3 \<and> v_life_igated sample_final = 2 \<and> v_life_dropped sample_final = 1
     \<and> sum_drops sample_final = 1"
proof -
  have n: "packet_count sample_trace = 3" "lost_count sample_trace = 0"
    by (simp_all add: sample_trace packet_count_def lost_count_def is_packet_event_def at_second_def sample_written_def)
  have z: "v_life_rf_received sample_start = 0" "v_life_igated sample_start = 0" "v_life_dropped sample_start = 0"
      "sum_drops sample_start = 0" "u_igating sample_setup" "u_rw sample_setup"
    by (simp_all add: sample_start_def initial_state_def default_aprsis_lifetime_def sum_drops_def sample_setup_def)
  from packet_accounting [OF sample_run] have
    "v_life_rf_received sample_final = 3" "v_life_igated sample_final = 2"
    "3 = 2 + sum_drops sample_final" "v_life_dropped sample_final = sum_drops sample_final"
    by (auto simp: n z sample_igated)
  with word_3_2 show ?thesis by metis
qed

theorem reconnect_backoff_witness: "unat (v_backoff_secs sample_final) = 5"
proof -
  have "attempts sample_trace = 0" by (simp add: sample_trace attempts_def attempts_step_def at_second_def sample_written_def)
  moreover have "v_backoff_secs sample_start = 5" by (simp add: sample_start_def initial_state_def initial_backoff_def)
  ultimately show ?thesis using reconnect_backoff [OF sample_run] by simp
qed

definition sample_fix :: gps_fix where
  "sample_fix = \<lparr> fix_lat = Some (Fin 39), fix_lon = Some (Fin (- 104)), fix_alt_ft = Some (Fin 5280), fix_mode = 3,
     fix_sats_used = 8, fix_sats_visible = 11, fix_hdop = None, fix_time = None, fix_received_at = 0 \<rparr>"

theorem moving_beacon_fresh_witness:
  "\<exists>s' as body. inner_step sample_setup (Ev_Move 0 0 (Some (Some sample_fix)) W_Ok) sample_start = Some (s', as, Go)
     \<and> as = [A_Write (body @ crlf) W_Ok] \<and> v_last_beacon_pos s' = Some (Fin 39, Fin (- 104))"
proof -
  let ?e = "Ev_Move 0 0 (Some (Some sample_fix)) W_Ok"
  have fresh: "is_fresh 0 sample_fix" by (simp add: is_fresh_def sample_fix_def elapsed_def gps_freshness_def secs_def)
  have m: "move_enabled sample_setup" by (simp add: move_enabled_def sample_setup_def)
  have p: "v_last_beacon_pos sample_start = None" by (simp add: sample_start_def initial_state_def)
  obtain s' as f where st: "inner_step sample_setup ?e sample_start = Some (s', as, f)" "as \<noteq> []"
    using fresh m p
    by (auto simp: handle_move_def gpsd_beacon_location_def has_moved_def send_position_beacon_def positpacket_def
        sample_fix_def fp_le_def fp_eq_def Let_def)
  from moving_beacon_fresh [OF this] obtain g loc body where r: "Some (Some sample_fix) = Some (Some g)"
      "loc_lat loc = fix_lat g" "loc_lon loc = fix_lon g" "as = [A_Write (body @ crlf) W_Ok]"
      "s' = note_beacon loc sample_start" "f = Go" by auto
  then have "v_last_beacon_pos s' = Some (Fin 39, Fin (- 104))" by (auto simp: note_beacon_def sample_fix_def)
  with r st show ?thesis by blast
qed

theorem telemetry_cycle_witness:
  "\<exists>s' as. handle_beacon sample_setup 0 0 None W_Ok (\<lambda>_. W_Ok) sample_start = (s', as, Go)
     \<and> v_sequence s' = 8 \<and> interval_counts s' = (0, 0, 0, 0, 0) \<and> last as = A_SaveSeq 8"
proof -
  have e: "u_beaconing sample_setup \<and> u_rw sample_setup" by (simp add: sample_setup_def)
  have n: "v_sequence sample_start = 7" by (simp add: sample_start_def initial_state_def)
  obtain s' as f where st: "handle_beacon sample_setup 0 0 None W_Ok (\<lambda>_. W_Ok) sample_start = (s', as, f)"
    by (metis prod_cases3)
  have b: "planned_beacon sample_setup 0 0 None W_Ok = []"
    by (simp add: planned_beacon_def beacon_location_def sample_setup_def gpsd_beacon_location_def)
  have ok: "list_all succeeds (planned_report sample_setup (\<lambda>_. W_Ok) ls)" for ls
    by (simp add: planned_report_def list_all_iff)
  from telemetry_cycle [OF e st] have "f = Go \<and> v_sequence s' = 8 \<and> interval_counts s' = (0, 0, 0, 0, 0) \<and> last as = A_SaveSeq 8"
    by (auto simp: b ok n interval_counts_def Let_def)
  then show ?thesis using st by blast
qed

theorem validated_config_beacons_witness:
  "\<exists>u la lo ext y x. aprsis_setup_of (\<lambda>ch. ch) sample_config = Returns (Inr u)
     \<and> snd (send_position_beacon u 0 W_Ok (u_location u)) = [A_Write (''N0CALL>APZJD1,TCPIP*:/'' @ hms 0 @ ''h''
         @ la @ ''/'' @ lo @ ''0/A='' @ show_pad0_fixed 6 0 (Fin 5280) @ u_station_name u @ ext @ crlf) W_Ok]
     \<and> read_position la lo ext = Some (Some y, Some x) \<and> \<bar>x + 104\<bar> < resolution (u_dao u)"
proof -
  have e: "ais_enabled (cfg_aprsis sample_config) = Some True" by (simp add: sample_config_def)
  obtain u where u: "aprsis_setup_of (\<lambda>ch. ch) sample_config = Returns (Inr u)"
      "u_beaconing u" "u_position_source u = Src_Config" "u_callsign u = ''N0CALL''" "u_symbol u = None" "u_overlay u = None"
      "u_location u = cfg_location sample_config"
    by (simp add: aprsis_setup_of_def make_interval_def sample_config_def gpsd_config_of_def gpsd_min_beacon_secs_eff_def default_gpsd_def Let_def)
  have z: "ais_threshold (cfg_aprsis sample_config) \<noteq> Some 0" "gpsd_min_beacon_secs_eff (gpsd_config_of sample_config) \<noteq> 0"
    by (simp_all add: sample_config_def gpsd_config_of_def gpsd_min_beacon_secs_eff_def default_gpsd_def)
  then have f: "\<not> (ais_threshold (cfg_aprsis sample_config) = Some 0 \<or> gpsd_min_beacon_secs_eff (gpsd_config_of sample_config) = 0)"
    by blast
  have l: "cfg_location sample_config = \<lparr> loc_lat = Some (Fin 39), loc_lon = Some (Fin (- 104)), loc_alt = Some (Fin 5280), loc_source = Src_Config \<rparr>"
    by (simp add: sample_config_def)
  have p: "\<not> fp_le (Fin 5280) (Fin 0)" "\<not> fp_eq (Fin 39) (Fin 0)" "\<not> fp_eq (Fin (- 104)) (Fin 0)"
    by (simp_all add: fp_le_def fp_eq_def)
  have "\<exists>lat lon alt. u_location u = \<lparr> loc_lat = Some lat, loc_lon = Some lon, loc_alt = Some alt, loc_source = Src_Config \<rparr>
      \<and> (if fp_le alt (Fin 0) \<or> fp_eq lat (Fin 0) \<or> fp_eq lon (Fin 0)
         then send_position_beacon u 0 W_Ok (u_location u) = (True, [])
         else (\<exists>la lo ext y x. send_position_beacon u 0 W_Ok (u_location u) = (write_done W_Ok, [A_Write (u_callsign u @ ''>APZJD1,TCPIP*:/'' @ hms 0 @ ''h''
        @ la @ overlay_string (u_overlay u) (u_symbol u) @ lo @ symbol_string (u_symbol u) @ ''/A='' @ show_pad0_fixed 6 0 alt @ u_station_name u @ ext @ crlf) W_Ok])
            \<and> read_position la lo ext = Some (Some y, Some x)
            \<and> \<bar>y - fval lat\<bar> < resolution (u_dao u) \<and> \<bar>x - fval lon\<bar> < resolution (u_dao u)))"
    using validated_config_beacons [OF sample_config_valid e, of "\<lambda>ch. ch" 0 None 0 W_Ok, unfolded if_not_P [OF f] u(1)]
    by (simp only: outcome.inject sum.inject) (use u(2,3) in blast)
  then obtain lat lon alt where k: "u_location u = \<lparr> loc_lat = Some lat, loc_lon = Some lon, loc_alt = Some alt, loc_source = Src_Config \<rparr>"
      "if fp_le alt (Fin 0) \<or> fp_eq lat (Fin 0) \<or> fp_eq lon (Fin 0)
         then send_position_beacon u 0 W_Ok (u_location u) = (True, [])
         else (\<exists>la lo ext y x. send_position_beacon u 0 W_Ok (u_location u) = (write_done W_Ok, [A_Write (u_callsign u @ ''>APZJD1,TCPIP*:/'' @ hms 0 @ ''h''
        @ la @ overlay_string (u_overlay u) (u_symbol u) @ lo @ symbol_string (u_symbol u) @ ''/A='' @ show_pad0_fixed 6 0 alt @ u_station_name u @ ext @ crlf) W_Ok])
            \<and> read_position la lo ext = Some (Some y, Some x)
            \<and> \<bar>y - fval lat\<bar> < resolution (u_dao u) \<and> \<bar>x - fval lon\<bar> < resolution (u_dao u))" by blast
  have v: "lat = Fin 39" "lon = Fin (- 104)" "alt = Fin 5280" using k(1) u(7) l by simp_all
  have "\<exists>la lo ext y x. snd (send_position_beacon u 0 W_Ok (u_location u)) = [A_Write (u_callsign u @ ''>APZJD1,TCPIP*:/'' @ hms 0 @ ''h''
        @ la @ overlay_string (u_overlay u) (u_symbol u) @ lo @ symbol_string (u_symbol u) @ ''/A='' @ show_pad0_fixed 6 0 (Fin 5280) @ u_station_name u @ ext @ crlf) W_Ok]
      \<and> read_position la lo ext = Some (Some y, Some x) \<and> \<bar>x + 104\<bar> < resolution (u_dao u)"
    using k(2) p unfolding v by (simp del: append.simps append_assoc) (elim exE conjE, intro exI conjI; simp del: append.simps append_assoc)
  then obtain la lo ext y x where "snd (send_position_beacon u 0 W_Ok (u_location u)) = [A_Write (u_callsign u @ ''>APZJD1,TCPIP*:/'' @ hms 0 @ ''h''
        @ la @ overlay_string (u_overlay u) (u_symbol u) @ lo @ symbol_string (u_symbol u) @ ''/A='' @ show_pad0_fixed 6 0 (Fin 5280) @ u_station_name u @ ext @ crlf) W_Ok]"
      "read_position la lo ext = Some (Some y, Some x)" "\<bar>x + 104\<bar> < resolution (u_dao u)" by blast
  then show ?thesis using u(1,4-6)
    by (intro exI [of _ u] exI [of _ la] exI [of _ lo] exI [of _ ext] exI [of _ y] exI [of _ x])
      (simp add: overlay_string_def symbol_string_def)
qed

theorem graceful_restart_witness:
  "\<exists>d. perform_all (mem_db 2) (concat (map snd sample_trace)) [] = (d, [Inr (), Inr ()])
     \<and> v_sequence (fst (aprsis_init (mem_db 2) (\<lambda>_. Inr False) (\<lambda>_. Inr 0) d)) = v_sequence sample_final"
proof -
  obtain d where d: "perform_all (mem_db 2) (concat (map snd sample_trace)) [] = (d, [] @ [Inr (), Inr ()])"
    by (simp add: sample_trace sample_written_def final_flush_def save_aprsis_lifetime_def save_telemetry_seq_def
        mem_eval less_db_key_def)
  obtain n where n: "load_telemetry_seq (mem_db 2) d = Inr n"
    by (simp add: load_telemetry_seq_def mem_eval)
  obtain al where al: "load_aprsis_lifetime (mem_db 2) d = Inr al"
    by (simp add: load_aprsis_lifetime_def mem_eval)
  from graceful_restart [OF mem.native_db_laws_axioms mem_ok_Nil sample_run d n al,
      of "\<lambda>_. Inr False" "\<lambda>_. Inr 0"] d
  show ?thesis by auto
qed

section \<open>Two divergences\<close>

text \<open>
  A login that fails does not lengthen the wait: the connection before it has set the backoff
  back to five seconds, so every attempt that fails at the login is followed by five seconds.
\<close>

lemma failed_logins_wait_five:
  "outer_step lc u T_Connected Ph_Connect s = Some (Ph_Login, s1, as1) \<Longrightarrow>
   outer_step lc u (T_Login io) Ph_Login s1 = Some (Ph_Wait, s2, as2) \<Longrightarrow> v_backoff_secs s2 = 5"
  by (auto simp: connected_def login_ended_def initial_backoff_def Let_def split: if_splits)

text \<open>A beacon that is refused (here: no altitude) is still noted as the last position beaconed.\<close>

lemma refused_beacon_noted:
  assumes "gpsd_beacon_location now gps (loc_alt (u_location u)) = Some loc" and "loc_alt loc = None"
    and "has_moved (u_move_threshold u) (v_last_beacon_pos s) loc" and "loc_lat loc = Some la" and "loc_lon loc = Some lo"
  shows "handle_move u now utc gps w s = (s\<lparr>v_last_beacon_pos := Some (la, lo)\<rparr>, [], Go)"
  using assms by (simp add: handle_move_def send_position_beacon_def positpacket_def note_beacon_def)

end
