(* ===== verification/Rx_Listener.thy ===== *)
theory Rx_Listener
  imports Rx_Packet Igate_Rules Stat_Store Task_Support
begin

unbundle bit_operations_syntax

text \<open>
  The listener (\<open>rtp_listener\<close> in \<open>src/stream.rs\<close>): the task's local variables as a record, one
  definition per arm of its \<open>select!\<close>, and what each arm sends to the data channel and writes to
  the store, as a list of actions in order.

  The two hash maps are sorted association lists and the two hash sets lists without duplicates;
  the order in which Rust iterates over them is arbitrary and comes with the event of a tick
  (\<open>hash_order\<close>). The shared log of satellite packets is a component of the state, None once its
  lock is poisoned. An arm that indexes a vector out of range, or computes a time chrono cannot
  represent, aborts the task. Counters wrap, and shifts take their distance modulo the width, as
  in the release build.
\<close>

section \<open>State\<close>

type_synonym station_map = "(string \<times> station_entry) list"
type_synonym freq_map = "(string \<times> u64 \<times> datetime) list"

record rx_state =
  x_heard_direct :: u32
  x_digipeated :: u32
  x_decode_errors :: u32
  x_total_packets :: u32
  x_life_total :: u64
  x_life_direct :: u64
  x_life_digipeated :: u64
  x_stations :: station_map
  x_freqs :: freq_map
  x_packets_series :: data_series
  x_direct_series :: data_series
  x_digipeated_series :: data_series
  x_errors_series :: data_series
  x_slicer_count :: nat
  x_slicer_gains :: "f32 list"
  x_slicer_zones :: "u8 list"
  x_slicer_db :: "f32 list"
  x_slicer_interval :: "u32 list"
  x_slicer_history :: "slicer_interval list"
  x_slicer_hits :: "u64 list"
  x_restored :: "restored_slicer option"
  x_dirty_stations :: "string list"
  x_dirty_freqs :: "string list"
  x_backoff_secs :: u64
  x_sat_log :: "rtp_packet list option"

text \<open>The writes to the store, each logged and otherwise ignored when it fails.\<close>

datatype store_write =
    W_Lifetime packet_lifetime
  | W_Slicer nat "f32 list" "u64 list" "slicer_interval list"
  | W_DeleteStation string
  | W_DeleteFreq string
  | W_Station station_entry
  | W_Freq string u64 datetime
  | W_DeleteSat "int list"
  | W_Prune int
  | W_InsertSat rtp_packet
  | W_InsertPacket rtp_packet

datatype rx_action = Send data_item | Save store_write

datatype arm_end = Ends flow | Aborts string

type_synonym rx_result = "rx_state \<times> rx_action list \<times> arm_end"

text \<open>
  What the arms read besides their event: the configuration, the decoder, chrono's conversion of
  milliseconds, the base-10 logarithm of \<open>f32\<close> (the platform's \<open>log10f\<close>), and the earliest time
  chrono can represent.
\<close>

record 'p rx_env =
  n_config :: config
  n_decoder :: "'p decoder"
  n_from_ms :: "int \<Rightarrow> datetime option"
  n_log10 :: "f32 \<Rightarrow> f32"
  n_min_time :: datetime

text \<open>The iteration orders of a tick.\<close>

datatype hash_site = In_Stations | In_Freqs | In_Dirty_Stations | In_Dirty_Freqs

type_synonym hash_order = "hash_site \<Rightarrow> string list \<Rightarrow> string list"

datatype 'p rx_event =
    E_Tick datetime datetime datetime hash_order
  | E_Frame datetime instant instant "'p aprs_frame"
  | E_BadDatagram
  | E_SocketError

section \<open>Start\<close>

text \<open>A \<open>HashSet\<close> and a \<open>HashMap\<close> filled one by one.\<close>

definition set_insert :: "string \<Rightarrow> string list \<Rightarrow> string list" where
  "set_insert k ks = (if k \<in> set ks then ks else ks @ [k])"

definition station_map_of :: "station_entry list \<Rightarrow> station_map" where
  "station_map_of es = fold (\<lambda>e. om_insert (se_callsign e) e) es []"

definition freq_map_of :: "(string \<times> u64 \<times> datetime) list \<Rightarrow> freq_map" where
  "freq_map_of fs = fold (\<lambda>(k, v). om_insert k v) fs []"

definition rx_initial :: "packet_lifetime \<Rightarrow> station_entry list \<Rightarrow> (string \<times> u64 \<times> datetime) list
    \<Rightarrow> restored_slicer option \<Rightarrow> rtp_packet list option \<Rightarrow> rx_state" where
  "rx_initial pl es fs rs slog = \<lparr>
     x_heard_direct = 0, x_digipeated = 0, x_decode_errors = 0, x_total_packets = 0,
     x_life_total = pl_total pl, x_life_direct = pl_heard_direct pl, x_life_digipeated = pl_digipeated pl,
     x_stations = station_map_of es, x_freqs = freq_map_of fs,
     x_packets_series = empty_series ''total_packets'',
     x_direct_series = empty_series ''heard_direct'',
     x_digipeated_series = empty_series ''digipeated'',
     x_errors_series = empty_series ''decode_errors'',
     x_slicer_count = 0, x_slicer_gains = [], x_slicer_zones = [], x_slicer_db = [],
     x_slicer_interval = [], x_slicer_history = [], x_slicer_hits = [],
     x_restored = rs, x_dirty_stations = [], x_dirty_freqs = [],
     x_backoff_secs = initial_backoff, x_sat_log = slog \<rparr>"

text \<open>Each part is restored if it can be read; otherwise it starts empty.\<close>

definition restored_or :: "'a \<Rightarrow> 'a result \<Rightarrow> 'a" where
  "restored_or x r = (case r of Inr v \<Rightarrow> v | Inl e \<Rightarrow> x)"

definition rx_start :: "'d native_db \<Rightarrow> (int \<Rightarrow> datetime option) \<Rightarrow> rtp_packet list option \<Rightarrow> 'd \<Rightarrow> rx_state" where
  "rx_start nd from_us slog d = rx_initial
     (restored_or default_packet_lifetime (load_packet_lifetime nd d))
     (restored_or [] (load_stations nd from_us d))
     (restored_or [] (load_freqs nd from_us d))
     (restored_or None (load_slicer nd from_us d)) slog"

section \<open>The tick\<close>

text \<open>The statistics of the packets of the interval.\<close>

definition push_counts :: "datetime \<Rightarrow> rx_state \<Rightarrow> rx_state" where
  "push_counts the_time s = s\<lparr>
     x_packets_series := push_point the_time (x_total_packets s) (x_packets_series s),
     x_direct_series := push_point the_time (x_heard_direct s) (x_direct_series s),
     x_digipeated_series := push_point the_time (x_digipeated s) (x_digipeated_series s),
     x_errors_series := push_point the_time (x_decode_errors s) (x_errors_series s)\<rparr>"

definition micros_f64 :: "datetime \<Rightarrow> f64" where
  "micros_f64 now = fp_div B64 (fp_of_int B64 (timestamp_micros now)) (Fin 1000000)"

definition packet_report :: "datetime \<Rightarrow> datetime \<Rightarrow> rx_state \<Rightarrow> packet_telemetry" where
  "packet_report the_time utc s = \<lparr> pt_name = ''packet_statistics'', pt_timestamp = the_time,
     pt_microsecs = micros_f64 utc, pt_total_packets = x_packets_series s,
     pt_heard_direct = x_direct_series s, pt_digipeated = x_digipeated_series s,
     pt_decode_errors = x_errors_series s, pt_lifetime_total_packets = x_life_total s,
     pt_lifetime_heard_direct = x_life_direct s, pt_lifetime_digipeated = x_life_digipeated s,
     pt_lifetime_decode_errors = 0 \<rparr>"

text \<open>The slicer counts of the interval; the last ten intervals are kept.\<close>

definition push_slicers :: "datetime \<Rightarrow> rx_state \<Rightarrow> rx_state" where
  "push_slicers the_time s = s\<lparr>x_slicer_history := keep_last 10 (x_slicer_history s
     @ [\<lparr> si_timestamp = the_time, si_counts = x_slicer_interval s \<rparr>])\<rparr>"

definition slicer_report :: "datetime \<Rightarrow> datetime \<Rightarrow> rx_state \<Rightarrow> slicer_telemetry" where
  "slicer_report the_time utc s = \<lparr> slt_name = ''slicer_statistics'', slt_timestamp = the_time,
     slt_microsecs = micros_f64 utc, slt_slicer_count = x_slicer_count s,
     slt_slicer_gains = x_slicer_gains s, slt_intervals = x_slicer_history s,
     slt_lifetime_slicer_hits = x_slicer_hits s \<rparr>"

text \<open>Eviction: what is kept, and the keys that go.\<close>

definition hours :: "int \<Rightarrow> int" where
  "hours n = n * 3600 * nanos_per_sec"

definition station_kept :: "datetime \<Rightarrow> station_entry \<Rightarrow> bool" where
  "station_kept now e = (now - se_last_heard e < hours 36)"

definition freq_kept :: "datetime \<Rightarrow> u64 \<times> datetime \<Rightarrow> bool" where
  "freq_kept now f = (now - snd f < hours 24)"

definition sat_expired :: "datetime \<Rightarrow> rtp_packet \<Rightarrow> bool" where
  "sat_expired now p = (now - p_receivetime p > hours 24)"

text \<open>\<open>retain\<close>: the rest of the map, and the keys removed in the order of the iteration.\<close>

definition retain_map :: "('v \<Rightarrow> bool) \<Rightarrow> string list \<Rightarrow> (string \<times> 'v) list \<Rightarrow> (string \<times> 'v) list \<times> string list" where
  "retain_map keep ks m = (filter (\<lambda>(k, v). keep v) m,
     filter (\<lambda>k. case map_of m k of Some v \<Rightarrow> \<not> keep v | None \<Rightarrow> False) ks)"

text \<open>The satellite log is popped from the front until a packet is young enough.\<close>

definition prune_sat_log :: "datetime \<Rightarrow> rtp_packet list option \<Rightarrow> rtp_packet list option \<times> int list" where
  "prune_sat_log now slog = (case slog of
     Some ps \<Rightarrow> (Some (dropWhile (sat_expired now) ps), map sat_packet_key (takeWhile (sat_expired now) ps))
   | None \<Rightarrow> (None, []))"

text \<open>The values in the order of the iteration, then a stable sort by descending count.\<close>

definition station_report :: "hash_order \<Rightarrow> station_map \<Rightarrow> freq_map \<Rightarrow> station_telemetry" where
  "station_report ho sm fm = \<lparr> stt_name = ''station_statistics'',
     stt_stations = sort_key (\<lambda>e. - uint (se_count e))
       (List.map_filter (map_of sm) (ho In_Stations (map fst sm))),
     stt_frequencies = sort_key (\<lambda>f. - uint (fc_count f))
       (List.map_filter (\<lambda>k. map_option (\<lambda>(c, t). \<lparr> fc_frequency = k, fc_count = c \<rparr>) (map_of fm k))
          (ho In_Freqs (map fst fm))) \<rparr>"

definition reset_interval :: "rx_state \<Rightarrow> rx_state" where
  "reset_interval s = s\<lparr>x_heard_direct := 0, x_digipeated := 0, x_decode_errors := 0, x_total_packets := 0,
     x_slicer_interval := map (\<lambda>c. 0) (x_slicer_interval s)\<rparr>"

text \<open>What the tick and the final flush write.\<close>

definition packet_lifetime_of :: "rx_state \<Rightarrow> packet_lifetime" where
  "packet_lifetime_of s = \<lparr> pl_id = 0, pl_total = x_life_total s, pl_heard_direct = x_life_direct s,
     pl_digipeated = x_life_digipeated s, pl_decode_errors = 0 \<rparr>"

definition counter_writes :: "rx_state \<Rightarrow> store_write list" where
  "counter_writes s = W_Lifetime (packet_lifetime_of s)
     # (if 0 < x_slicer_count s
        then [W_Slicer (x_slicer_count s) (x_slicer_gains s) (x_slicer_hits s) (x_slicer_history s)] else [])"

definition dirty_writes :: "hash_order \<Rightarrow> rx_state \<Rightarrow> store_write list" where
  "dirty_writes ho s =
     List.map_filter (\<lambda>k. map_option W_Station (map_of (x_stations s) k)) (ho In_Dirty_Stations (x_dirty_stations s))
     @ List.map_filter (\<lambda>k. map_option (\<lambda>(c, t). W_Freq k c t) (map_of (x_freqs s) k))
         (ho In_Dirty_Freqs (x_dirty_freqs s))"

definition clear_dirty :: "rx_state \<Rightarrow> rx_state" where
  "clear_dirty s = s\<lparr>x_dirty_stations := [], x_dirty_freqs := []\<rparr>"

definition packet_cutoff :: "config \<Rightarrow> datetime \<Rightarrow> datetime" where
  "packet_cutoff c now = now - hours (uint (packet_history_hours c))"

text \<open>
  The arm of the tick. It reads the clocks three times. The last computation, the cutoff of the
  packet history, panics when chrono cannot represent the time.
\<close>

definition handle_tick :: "'p rx_env \<Rightarrow> datetime \<Rightarrow> datetime \<Rightarrow> datetime \<Rightarrow> hash_order \<Rightarrow> rx_state \<Rightarrow> rx_result" where
  "handle_tick n the_time utc now ho s =
     (let s1 = push_slicers the_time (push_counts the_time s);
          (stations, gone_stations) = retain_map (station_kept now) (ho In_Stations (map fst (x_stations s1))) (x_stations s1);
          (slog, sat_keys) = prune_sat_log now (x_sat_log s1);
          (freqs, gone_freqs) = retain_map (freq_kept now) (ho In_Freqs (map fst (x_freqs s1))) (x_freqs s1);
          s2 = s1\<lparr>x_stations := stations, x_freqs := freqs, x_sat_log := slog\<rparr>;
          s3 = reset_interval s2;
          s4 = s3\<lparr>x_dirty_stations := filter (\<lambda>k. k \<notin> set gone_stations) (x_dirty_stations s3),
                  x_dirty_freqs := filter (\<lambda>k. k \<notin> set gone_freqs) (x_dirty_freqs s3)\<rparr>;
          as = [Send (Tlm (PacketStatus (packet_report the_time utc s1))),
                Send (Tlm (SlicerStatus (slicer_report the_time utc s1))),
                Send (Tlm (StationStatus (station_report ho stations freqs)))]
             @ map Save (counter_writes s3 @ map W_DeleteStation gone_stations @ map W_DeleteFreq gone_freqs
                 @ dirty_writes ho s4 @ [W_DeleteSat sat_keys]);
          s5 = clear_dirty s4;
          cutoff = packet_cutoff (n_config n) now
      in if n_min_time n \<le> cutoff
         then (s5, as @ [Save (W_Prune (timestamp_micros cutoff))], Ends Go)
         else (s5, as, Aborts ''`DateTime - TimeDelta` overflowed''))"

section \<open>A frame\<close>

text \<open>The first frame with a ladder of gains sets the size of the slicer bank.\<close>

definition learn_slicers :: "(f32 \<Rightarrow> f32) \<Rightarrow> f32 list option \<Rightarrow> rx_state \<Rightarrow> rx_state" where
  "learn_slicers log10 gains s = (case gains of
     Some g \<Rightarrow> if x_slicer_count s = 0 \<and> g \<noteq> [] then
       (let n = length g;
            s1 = s\<lparr>x_slicer_count := n, x_slicer_gains := g, x_slicer_zones := map slicer_zone g,
                   x_slicer_db := map (\<lambda>x. fp_mul B32 (Fin 20) (log10 x)) g,
                   x_slicer_interval := replicate n 0, x_restored := None\<rparr>
        in case x_restored s of
             Some r \<Rightarrow> if length (rs_lifetime_hits r) = n
               then s1\<lparr>x_slicer_hits := rs_lifetime_hits r, x_slicer_history := rs_history r\<rparr>
               else s1\<lparr>x_slicer_hits := replicate n 0\<rparr>
           | None \<Rightarrow> s1\<lparr>x_slicer_hits := replicate n 0\<rparr>)
       else s
   | None \<Rightarrow> s)"

text \<open>\<open>mask & (1 << i) != 0\<close> on 16 bits.\<close>

definition slicer_bit :: "u16 \<Rightarrow> nat \<Rightarrow> bool" where
  "slicer_bit fired i = (fired AND push_bit (i mod 16) 1 \<noteq> 0)"

text \<open>The mean twist of the slicers that fired.\<close>

definition twist_centroid :: "u16 \<Rightarrow> f32 list \<Rightarrow> f32" where
  "twist_centroid fired dbs =
     (let (sum, n) = fold (\<lambda>(i, db) (sum, n). if slicer_bit fired i then (fp_add B32 sum db, n + 1) else (sum, n))
            (enumerate 0 dbs) (Fin 0, 0 :: u32)
      in if 0 < n then fp_div B32 sum (fp_of_int B32 (uint n)) else Fin 0)"

definition with_twist :: "rx_state \<Rightarrow> rtp_packet \<Rightarrow> rtp_packet" where
  "with_twist s p = (if p_slicer_mask p \<noteq> 0 \<and> 0 < x_slicer_count s
     then p\<lparr>p_twist := Some \<lparr> tw_cols = x_slicer_count s, tw_mask = p_slicer_mask p,
        tw_zones = x_slicer_zones s, tw_centroid_db = twist_centroid (p_slicer_mask p) (x_slicer_db s) \<rparr>\<rparr>
     else p)"

definition count_heard :: "rtp_packet \<Rightarrow> rx_state \<Rightarrow> rx_state" where
  "count_heard p s =
     (let s1 = (if p_heard_direct p
            then s\<lparr>x_heard_direct := x_heard_direct s + 1, x_life_direct := x_life_direct s + 1\<rparr>
            else s\<lparr>x_digipeated := x_digipeated s + 1, x_life_digipeated := x_life_digipeated s + 1\<rparr>)
      in s1\<lparr>x_total_packets := x_total_packets s1 + 1, x_life_total := x_life_total s1 + 1\<rparr>)"

text \<open>The tally of the slicers; None for an index out of range.\<close>

fun tally_slicers :: "u16 \<Rightarrow> nat list \<Rightarrow> u32 list \<times> u64 list \<Rightarrow> (u32 list \<times> u64 list) option" where
  "tally_slicers fired [] c = Some c"
| "tally_slicers fired (i # is) (iv, hits) =
     (if slicer_bit fired i then
        if i < length iv \<and> i < length hits
        then tally_slicers fired is (iv[i := iv ! i + 1], hits[i := hits ! i + 1]) else None
      else tally_slicers fired is (iv, hits))"

text \<open>The frequency of a packet.\<close>

definition freq_key :: "rtp_packet \<Rightarrow> string" where
  "freq_key p = show_fixed 3 (p_frequency p)"

definition hear_freq :: "rtp_packet \<Rightarrow> rx_state \<Rightarrow> rx_state" where
  "hear_freq p s = (let (c, t) = or_default (0, p_receivetime p) (map_of (x_freqs s) (freq_key p))
     in s\<lparr>x_dirty_freqs := set_insert (freq_key p) (x_dirty_freqs s),
          x_freqs := om_insert (freq_key p) (c + 1, p_receivetime p) (x_freqs s)\<rparr>)"

text \<open>The station, or the object or item, a packet is about.\<close>

definition station_key :: "rtp_packet \<Rightarrow> string" where
  "station_key p = or_default (p_source p) (p_object_name p)"

definition transmitted_by :: "rtp_packet \<Rightarrow> string option" where
  "transmitted_by p = map_option (\<lambda>_. p_source p) (p_object_name p)"

definition new_entry :: "rtp_packet \<Rightarrow> station_entry" where
  "new_entry p = \<lparr> se_callsign = station_key p, se_transmitted_by = transmitted_by p,
     se_last_heard = p_receivetime p, se_frequency = p_frequency p, se_latitude = None,
     se_longitude = None, se_altitude_ft = None, se_heard_direct = p_heard_direct p,
     se_position_path = p_digipeater_path p, se_position_hops = p_hops p,
     se_altitude_path = p_digipeater_path p, se_altitude_hops = p_hops p,
     se_symbol_table = None, se_symbol_code = None, se_count = 0, se_count_direct = 0,
     se_count_digipeated = 0 \<rparr>"

definition entry_counts :: "rtp_packet \<Rightarrow> station_entry \<Rightarrow> station_entry" where
  "entry_counts p e =
     (let e1 = e\<lparr>se_last_heard := p_receivetime p, se_frequency := p_frequency p,
                 se_heard_direct := p_heard_direct p,
                 se_transmitted_by := (case transmitted_by p of Some tb \<Rightarrow> Some tb | None \<Rightarrow> se_transmitted_by e),
                 se_count := se_count e + 1\<rparr>
      in if p_heard_direct p then e1\<lparr>se_count_direct := se_count_direct e1 + 1\<rparr>
         else e1\<lparr>se_count_digipeated := se_count_digipeated e1 + 1\<rparr>)"

definition entry_position :: "rtp_packet \<Rightarrow> station_entry \<Rightarrow> station_entry" where
  "entry_position p e = (if p_latitude p \<noteq> None \<and> p_longitude p \<noteq> None
     then e\<lparr>se_latitude := p_latitude p, se_longitude := p_longitude p,
            se_position_path := p_digipeater_path p, se_position_hops := p_hops p\<rparr>
     else e)"

definition entry_altitude :: "rtp_packet \<Rightarrow> station_entry \<Rightarrow> station_entry" where
  "entry_altitude p e = (case p_altitude_ft p of None \<Rightarrow> e | Some alt \<Rightarrow>
     (let e1 = (if (case se_altitude_ft e of None \<Rightarrow> True | Some prev \<Rightarrow> fp_lt prev alt)
            then e\<lparr>se_altitude_path := p_digipeater_path p, se_altitude_hops := p_hops p\<rparr> else e)
      in e1\<lparr>se_altitude_ft := Some (case se_altitude_ft e1 of None \<Rightarrow> alt | Some prev \<Rightarrow> fp_max prev alt)\<rparr>))"

definition entry_symbol :: "rchar option \<Rightarrow> rchar option \<Rightarrow> station_entry \<Rightarrow> station_entry" where
  "entry_symbol st sc e =
     (let e1 = (case st of Some c \<Rightarrow> e\<lparr>se_symbol_table := Some c\<rparr> | None \<Rightarrow> e)
      in case sc of Some c \<Rightarrow> e1\<lparr>se_symbol_code := Some c\<rparr> | None \<Rightarrow> e1)"

definition update_entry :: "mapped_packet \<Rightarrow> rtp_packet \<Rightarrow> station_entry \<Rightarrow> station_entry" where
  "update_entry mp p e = entry_symbol (mp_symbol_table mp) (mp_symbol_code mp)
     (entry_altitude p (entry_position p (entry_counts p e)))"

definition hear_station :: "mapped_packet \<Rightarrow> rtp_packet \<Rightarrow> rx_state \<Rightarrow> rx_state" where
  "hear_station mp p s = (let k = station_key p; e = or_default (new_entry p) (map_of (x_stations s) k)
     in s\<lparr>x_dirty_stations := set_insert k (x_dirty_stations s),
          x_stations := om_insert k (update_entry mp p e) (x_stations s)\<rparr>)"

text \<open>What the listener makes of a frame: the flags and the twist of its packet.\<close>

definition judged_packet :: "'p rx_env \<Rightarrow> instant \<Rightarrow> rx_state \<Rightarrow> rtp_packet \<Rightarrow> rtp_packet" where
  "judged_packet n gate_now s p0 =
     (let p1 = p0\<lparr>p_is_satellite := list_ex (\<lambda>f. fp_eq f (p_frequency p0)) (satellite_frequencies (n_config n))\<rparr>;
          p2 = p1\<lparr>p_igated := (droppacket gate_now p1 = None)\<rparr>
      in with_twist s p2)"

definition log_satellite :: "rtp_packet \<Rightarrow> rx_state \<Rightarrow> rx_state" where
  "log_satellite p s = (if p_is_satellite p then s\<lparr>x_sat_log := map_option (\<lambda>ps. ps @ [p]) (x_sat_log s)\<rparr> else s)"

definition handle_frame :: "'p rx_env \<Rightarrow> datetime \<Rightarrow> instant \<Rightarrow> instant \<Rightarrow> 'p aprs_frame \<Rightarrow> rx_state \<Rightarrow> rx_result" where
  "handle_frame n local_now map_now gate_now fr s =
     (let s1 = learn_slicers (n_log10 n) (fr_slicer_gains fr) s
      in case map_frame (n_decoder n) (n_from_ms n) local_now map_now fr of
           None \<Rightarrow> (s1, [], Ends Go)
         | Some mp \<Rightarrow>
             (let p = judged_packet n gate_now s1 (mp_packet mp);
                  s2 = count_heard p s1
              in case tally_slicers (p_slicer_mask p) [0..<x_slicer_count s2] (x_slicer_interval s2, x_slicer_hits s2) of
                   None \<Rightarrow> (s2, [], Aborts ''index out of bounds'')
                 | Some (iv, hits) \<Rightarrow>
                     (let s3 = s2\<lparr>x_slicer_interval := iv, x_slicer_hits := hits\<rparr>;
                          s4 = log_satellite p (hear_station mp p (hear_freq p s3))
                      in (s4, (if p_is_satellite p then [Save (W_InsertSat p)] else [])
                            @ [Save (W_InsertPacket p), Send (Pkt (RTP p))], Ends Go))))"

section \<open>The arms of the inner loop\<close>

fun rx_step :: "'p rx_env \<Rightarrow> 'p rx_event \<Rightarrow> rx_state \<Rightarrow> rx_result" where
  "rx_step n (E_Tick the_time utc now ho) s = handle_tick n the_time utc now ho s"
| "rx_step n (E_Frame local_now map_now gate_now fr) s = handle_frame n local_now map_now gate_now fr s"
| "rx_step n E_BadDatagram s = (s, [], Ends Go)"
| "rx_step n E_SocketError s = (s, [], Ends Break)"

end
