(* ===== verification/Rx_Facts.thy ===== *)
theory Rx_Facts
  imports Rx_Listener "HOL-Library.Multiset"
begin

unbundle bit_operations_syntax

text \<open>
  The arms of the listener one by one: the invariant of its state, which keeps every vector
  access in range, and what a frame and a tick do to the station and frequency maps, to the
  slicer statistics and to the satellite log.
\<close>

section \<open>The invariant\<close>

definition slicers_ok :: "rx_state \<Rightarrow> bool" where
  "slicers_ok s = (length (x_slicer_gains s) = x_slicer_count s \<and> length (x_slicer_zones s) = x_slicer_count s
     \<and> length (x_slicer_db s) = x_slicer_count s \<and> length (x_slicer_interval s) = x_slicer_count s
     \<and> length (x_slicer_hits s) = x_slicer_count s)"

definition keyed_entries :: "station_map \<Rightarrow> bool" where
  "keyed_entries m = (\<forall>k e. map_of m k = Some e \<longrightarrow> se_callsign e = k)"

definition maps_ok :: "rx_state \<Rightarrow> bool" where
  "maps_ok s = (om_inv (x_stations s) \<and> om_inv (x_freqs s)
     \<and> keyed_entries (x_stations s))"

definition dirty_ok :: "rx_state \<Rightarrow> bool" where
  "dirty_ok s = (distinct (x_dirty_stations s) \<and> distinct (x_dirty_freqs s)
     \<and> set (x_dirty_stations s) \<subseteq> dom (map_of (x_stations s))
     \<and> set (x_dirty_freqs s) \<subseteq> dom (map_of (x_freqs s)))"

definition series_ok :: "rx_state \<Rightarrow> bool" where
  "series_ok s = (\<forall>ds \<in> {x_packets_series s, x_direct_series s, x_digipeated_series s, x_errors_series s}.
     length (series_points ds) \<le> 100)"

definition rx_inv :: "rx_state \<Rightarrow> bool" where
  "rx_inv s = (slicers_ok s \<and> maps_ok s \<and> dirty_ok s \<and> series_ok s)"

lemma set_insert_simps [simp]:
  "set (set_insert k ks) = insert k (set ks)" "distinct (set_insert k ks) = distinct ks"
  by (auto simp: set_insert_def)

lemma empty_series_points [simp]: "series_points (empty_series nm) = []"
  by (simp add: series_points_def empty_series_def)

lemma keyed_entries_insert:
  "om_inv m \<Longrightarrow> keyed_entries m \<Longrightarrow> se_callsign e = k \<Longrightarrow> keyed_entries (om_insert k e m)"
  by (simp add: keyed_entries_def om_lookup_insert)

lemma station_map_of_inv: "om_inv (station_map_of es) \<and> keyed_entries (station_map_of es)"
proof -
  have "om_inv m \<and> keyed_entries m \<Longrightarrow> om_inv (fold (\<lambda>e. om_insert (se_callsign e) e) es m)
      \<and> keyed_entries (fold (\<lambda>e. om_insert (se_callsign e) e) es m)" for m
  proof (induction es arbitrary: m)
    case (Cons e es)
    have "om_inv (om_insert (se_callsign e) e m) \<and> keyed_entries (om_insert (se_callsign e) e m)"
      using Cons.prems by (intro conjI om_inv_insert keyed_entries_insert) (erule conjunct1 conjunct2 | rule refl)+
    from Cons.IH [OF this] show ?case by simp
  qed simp
  moreover have "keyed_entries []" by (simp add: keyed_entries_def)
  ultimately show ?thesis unfolding station_map_of_def using om.inv_empty by blast
qed

lemma freq_map_of_inv: "om_inv (freq_map_of fs)"
  using om.lookup_fold_insert [OF om.inv_empty, of fs] by (simp add: freq_map_of_def)

lemma rx_inv_initial [inv_intros]: "rx_inv (rx_initial pl es fs rs slog)"
  using station_map_of_inv freq_map_of_inv
  by (simp add: rx_inv_def rx_initial_def slicers_ok_def maps_ok_def dirty_ok_def series_ok_def)

lemma rx_inv_start [inv_intros]: "rx_inv (rx_start nd from_us slog d)"
  by (simp add: rx_start_def rx_inv_initial)

section \<open>Frames\<close>

lemma learn_slicers_ok [inv_intros]: "slicers_ok s \<Longrightarrow> slicers_ok (learn_slicers f gs s)"
  by (auto simp: slicers_ok_def learn_slicers_def Let_def split: option.splits)

lemma learn_slicers_same [simp]:
  "x_stations (learn_slicers f gs s) = x_stations s" "x_freqs (learn_slicers f gs s) = x_freqs s"
  "x_dirty_stations (learn_slicers f gs s) = x_dirty_stations s"
  "x_dirty_freqs (learn_slicers f gs s) = x_dirty_freqs s"
  "x_packets_series (learn_slicers f gs s) = x_packets_series s"
  "x_direct_series (learn_slicers f gs s) = x_direct_series s"
  "x_digipeated_series (learn_slicers f gs s) = x_digipeated_series s"
  "x_errors_series (learn_slicers f gs s) = x_errors_series s"
  "x_life_total (learn_slicers f gs s) = x_life_total s" "x_life_direct (learn_slicers f gs s) = x_life_direct s"
  "x_life_digipeated (learn_slicers f gs s) = x_life_digipeated s"
  "x_total_packets (learn_slicers f gs s) = x_total_packets s"
  "x_heard_direct (learn_slicers f gs s) = x_heard_direct s"
  "x_digipeated (learn_slicers f gs s) = x_digipeated s"
  "x_decode_errors (learn_slicers f gs s) = x_decode_errors s"
  "x_sat_log (learn_slicers f gs s) = x_sat_log s"
  "x_backoff_secs (learn_slicers f gs s) = x_backoff_secs s"
  by (auto simp: learn_slicers_def Let_def split: option.splits)

text \<open>The tally touches each slicer of the bank once and never leaves it.\<close>

lemma tally_slicers_all:
  assumes "distinct is" and "\<forall>i\<in>set is. i < length iv" and "length hits = length iv"
  shows "\<exists>iv' hits'. tally_slicers m is (iv, hits) = Some (iv', hits')
    \<and> length iv' = length iv \<and> length hits' = length iv
    \<and> (\<forall>i<length iv. iv' ! i = iv ! i + (if i \<in> set is \<and> slicer_bit m i then 1 else 0)
        \<and> hits' ! i = hits ! i + (if i \<in> set is \<and> slicer_bit m i then 1 else 0))"
  using assms
proof (induction "is" arbitrary: iv hits)
  case (Cons j js)
  let ?iv = "if slicer_bit m j then iv[j := iv ! j + 1] else iv"
  let ?h = "if slicer_bit m j then hits[j := hits ! j + 1] else hits"
  have step: "tally_slicers m (j # js) (iv, hits) = tally_slicers m js (?iv, ?h)"
    using Cons.prems by simp
  have "length ?h = length ?iv" "length ?iv = length iv" "distinct js" "\<forall>i\<in>set js. i < length ?iv" "j \<notin> set js"
    using Cons.prems by simp_all
  with Cons.IH [of ?iv ?h] obtain iv' hits' where t: "tally_slicers m js (?iv, ?h) = Some (iv', hits')"
      "length iv' = length iv" "length hits' = length iv"
      "\<forall>i<length iv. iv' ! i = ?iv ! i + (if i \<in> set js \<and> slicer_bit m i then 1 else 0)
        \<and> hits' ! i = ?h ! i + (if i \<in> set js \<and> slicer_bit m i then 1 else 0)" by metis
  have "iv' ! i = iv ! i + (if i \<in> set (j # js) \<and> slicer_bit m i then 1 else 0)
      \<and> hits' ! i = hits ! i + (if i \<in> set (j # js) \<and> slicer_bit m i then 1 else 0)" if "i < length iv" for i
    using t(4) that \<open>j \<notin> set js\<close> Cons.prems(3) by (cases "i = j") (auto split: if_splits)
  with step t show ?case by metis
qed simp

corollary tally_bank:
  assumes "slicers_ok s"
  obtains iv hits where
    "tally_slicers m [0..<x_slicer_count s] (x_slicer_interval s, x_slicer_hits s) = Some (iv, hits)"
    "length iv = x_slicer_count s" "length hits = x_slicer_count s"
    "\<forall>i<x_slicer_count s. iv ! i = x_slicer_interval s ! i + (if slicer_bit m i then 1 else 0)
       \<and> hits ! i = x_slicer_hits s ! i + (if slicer_bit m i then 1 else 0)"
  using tally_slicers_all [of "[0..<x_slicer_count s]" "x_slicer_interval s" "x_slicer_hits s" m] assms
  by (auto simp: slicers_ok_def)

text \<open>Up to sixteen slicers, a slicer has a bit of its own; from the seventeenth on they share bits.\<close>

lemma slicer_bit_iff: "slicer_bit m i \<longleftrightarrow> bit m (i mod 16)"
proof -
  have "i mod 16 < 16" by simp
  then have "m AND push_bit (i mod 16) 1 = (if bit m (i mod 16) then push_bit (i mod 16) 1 else 0)"
    by (intro bit_word_eqI) (auto simp: bit_simps)
  moreover have "push_bit (i mod 16) (1 :: u16) \<noteq> 0"
  proof
    assume "push_bit (i mod 16) (1 :: u16) = 0"
    then have "bit (push_bit (i mod 16) (1 :: u16)) (i mod 16) = bit (0 :: u16) (i mod 16)" by simp
    then show False using \<open>i mod 16 < 16\<close> by (simp add: bit_simps)
  qed
  ultimately show ?thesis by (simp add: slicer_bit_def)
qed

lemma slicers_share_bits: "slicer_bit m (i + 16) = slicer_bit m i"
  by (simp add: slicer_bit_def)

text \<open>What the parts of a frame leave alone.\<close>

lemma count_heard_same [simp]:
  "x_stations (count_heard p s) = x_stations s" "x_freqs (count_heard p s) = x_freqs s"
  "x_dirty_stations (count_heard p s) = x_dirty_stations s" "x_dirty_freqs (count_heard p s) = x_dirty_freqs s"
  "x_slicer_count (count_heard p s) = x_slicer_count s" "x_slicer_interval (count_heard p s) = x_slicer_interval s"
  "x_slicer_hits (count_heard p s) = x_slicer_hits s" "x_sat_log (count_heard p s) = x_sat_log s"
  "x_backoff_secs (count_heard p s) = x_backoff_secs s"
  "slicers_ok (count_heard p s) = slicers_ok s" "series_ok (count_heard p s) = series_ok s"
  by (simp_all add: count_heard_def Let_def slicers_ok_def series_ok_def)

lemma hear_freq_same [simp]:
  "x_stations (hear_freq p s) = x_stations s" "x_dirty_stations (hear_freq p s) = x_dirty_stations s"
  "x_sat_log (hear_freq p s) = x_sat_log s" "slicers_ok (hear_freq p s) = slicers_ok s"
  "series_ok (hear_freq p s) = series_ok s" "x_slicer_interval (hear_freq p s) = x_slicer_interval s"
  "x_slicer_hits (hear_freq p s) = x_slicer_hits s" "x_slicer_count (hear_freq p s) = x_slicer_count s"
  "x_backoff_secs (hear_freq p s) = x_backoff_secs s"
  by (simp_all add: hear_freq_def case_prod_unfold Let_def slicers_ok_def series_ok_def)

lemma hear_station_same [simp]:
  "x_freqs (hear_station mp p s) = x_freqs s" "x_dirty_freqs (hear_station mp p s) = x_dirty_freqs s"
  "x_sat_log (hear_station mp p s) = x_sat_log s" "slicers_ok (hear_station mp p s) = slicers_ok s"
  "series_ok (hear_station mp p s) = series_ok s" "x_slicer_interval (hear_station mp p s) = x_slicer_interval s"
  "x_slicer_hits (hear_station mp p s) = x_slicer_hits s" "x_slicer_count (hear_station mp p s) = x_slicer_count s"
  "x_backoff_secs (hear_station mp p s) = x_backoff_secs s"
  by (simp_all add: hear_station_def Let_def slicers_ok_def series_ok_def)

lemma log_satellite_same [simp]:
  "x_stations (log_satellite p s) = x_stations s" "x_freqs (log_satellite p s) = x_freqs s"
  "x_dirty_stations (log_satellite p s) = x_dirty_stations s" "x_dirty_freqs (log_satellite p s) = x_dirty_freqs s"
  "slicers_ok (log_satellite p s) = slicers_ok s" "series_ok (log_satellite p s) = series_ok s"
  "x_slicer_interval (log_satellite p s) = x_slicer_interval s" "x_slicer_hits (log_satellite p s) = x_slicer_hits s"
  "x_slicer_count (log_satellite p s) = x_slicer_count s" "x_backoff_secs (log_satellite p s) = x_backoff_secs s"
  by (simp_all add: log_satellite_def slicers_ok_def series_ok_def)

definition life_totals :: "rx_state \<Rightarrow> u64 \<times> u64 \<times> u64" where
  "life_totals s = (x_life_total s, x_life_direct s, x_life_digipeated s)"

lemma life_totals_same [simp]:
  "life_totals (learn_slicers f gs s) = life_totals s" "life_totals (hear_freq p s) = life_totals s"
  "life_totals (hear_station mp p s) = life_totals s" "life_totals (log_satellite p s) = life_totals s"
  "life_totals (s\<lparr>x_slicer_interval := iv, x_slicer_hits := hits\<rparr>) = life_totals s"
  by (simp_all add: life_totals_def hear_freq_def hear_station_def log_satellite_def case_prod_unfold Let_def)

lemma life_totals_count [simp]:
  "life_totals (count_heard p s) = (x_life_total s + 1,
     x_life_direct s + (if p_heard_direct p then 1 else 0), x_life_digipeated s + (if p_heard_direct p then 0 else 1))"
  by (simp add: life_totals_def count_heard_def Let_def)

lemma update_entry_callsign [simp]: "se_callsign (update_entry mp p e) = se_callsign e"
  by (auto simp: update_entry_def entry_symbol_def entry_altitude_def entry_position_def entry_counts_def Let_def
      split: option.splits)

lemma judged_packet_same [simp]:
  "p_slicer_mask (judged_packet n t s p) = p_slicer_mask p" "p_source (judged_packet n t s p) = p_source p"
  "p_object_name (judged_packet n t s p) = p_object_name p" "p_receivetime (judged_packet n t s p) = p_receivetime p"
  "p_heard_direct (judged_packet n t s p) = p_heard_direct p" "p_frequency (judged_packet n t s p) = p_frequency p"
  "p_latitude (judged_packet n t s p) = p_latitude p" "p_longitude (judged_packet n t s p) = p_longitude p"
  "p_altitude_ft (judged_packet n t s p) = p_altitude_ft p"
  "p_digipeater_path (judged_packet n t s p) = p_digipeater_path p" "p_hops (judged_packet n t s p) = p_hops p"
  by (simp_all add: judged_packet_def with_twist_def Let_def)

text \<open>The entry a station has after a packet.\<close>

definition heard_entry :: "mapped_packet \<Rightarrow> rtp_packet \<Rightarrow> station_map \<Rightarrow> station_entry" where
  "heard_entry mp p m = update_entry mp p (or_default (new_entry p) (map_of m (station_key p)))"

lemma heard_entry_callsign: "keyed_entries m \<Longrightarrow> se_callsign (heard_entry mp p m) = station_key p"
  by (cases "map_of m (station_key p)") (auto simp: heard_entry_def new_entry_def keyed_entries_def)

lemma hear_station_map:
  "om_inv (x_stations s) \<Longrightarrow> map_of (x_stations (hear_station mp p s))
     = (map_of (x_stations s))(station_key p \<mapsto> heard_entry mp p (x_stations s))"
  by (rule ext) (simp add: hear_station_def heard_entry_def Let_def om_lookup_insert)

lemma hear_station_ok:
  "om_inv (x_stations s) \<Longrightarrow> keyed_entries (x_stations s) \<Longrightarrow>
     om_inv (x_stations (hear_station mp p s)) \<and> keyed_entries (x_stations (hear_station mp p s))"
  using heard_entry_callsign [of "x_stations s" mp p] om_inv_insert keyed_entries_insert
  by (simp add: hear_station_def heard_entry_def Let_def)

definition heard_freq :: "rtp_packet \<Rightarrow> freq_map \<Rightarrow> u64 \<times> datetime" where
  "heard_freq p m = (fst (or_default (0, p_receivetime p) (map_of m (freq_key p))) + 1, p_receivetime p)"

lemma hear_freq_map:
  "om_inv (x_freqs s) \<Longrightarrow> map_of (x_freqs (hear_freq p s)) = (map_of (x_freqs s))(freq_key p \<mapsto> heard_freq p (x_freqs s))"
  by (rule ext) (simp add: hear_freq_def heard_freq_def case_prod_unfold Let_def om_lookup_insert)

lemma hear_freq_ok: "om_inv (x_freqs s) \<Longrightarrow> om_inv (x_freqs (hear_freq p s))"
  by (simp add: hear_freq_def case_prod_unfold Let_def om_inv_insert)

lemma hear_dirty [simp]:
  "x_dirty_stations (hear_station mp p s) = set_insert (station_key p) (x_dirty_stations s)"
  "x_dirty_freqs (hear_freq p s) = set_insert (freq_key p) (x_dirty_freqs s)"
  by (simp_all add: hear_station_def hear_freq_def case_prod_unfold Let_def)

text \<open>A frame as one case: skipped, or mapped and heard, but never aborted.\<close>

lemma handle_frame_cases:
  assumes "handle_frame n lnow t1 t2 fr s = (s', as, f)" and "slicers_ok s"
  obtains "map_frame (n_decoder n) (n_from_ms n) lnow t1 fr = None"
      "s' = learn_slicers (n_log10 n) (fr_slicer_gains fr) s" "as = []" "f = Ends Go"
  | mp p iv hits s1 where "map_frame (n_decoder n) (n_from_ms n) lnow t1 fr = Some mp"
      "s1 = learn_slicers (n_log10 n) (fr_slicer_gains fr) s" "p = judged_packet n t2 s1 (mp_packet mp)"
      "s' = log_satellite p (hear_station mp p (hear_freq p
         ((count_heard p s1)\<lparr>x_slicer_interval := iv, x_slicer_hits := hits\<rparr>)))"
      "length iv = x_slicer_count s1" "length hits = x_slicer_count s1"
      "\<forall>i<x_slicer_count s1. iv ! i = x_slicer_interval s1 ! i + (if slicer_bit (p_slicer_mask p) i then 1 else 0)
         \<and> hits ! i = x_slicer_hits s1 ! i + (if slicer_bit (p_slicer_mask p) i then 1 else 0)"
      "as = (if p_is_satellite p then [Save (W_InsertSat p)] else []) @ [Save (W_InsertPacket p), Send (Pkt (RTP p))]"
      "f = Ends Go"
proof (cases "map_frame (n_decoder n) (n_from_ms n) lnow t1 fr")
  case None
  then show ?thesis using assms(1) that(1) by (simp add: handle_frame_def Let_def)
next
  case (Some mp)
  let ?s = "learn_slicers (n_log10 n) (fr_slicer_gains fr) s"
  let ?p = "judged_packet n t2 ?s (mp_packet mp)"
  have "slicers_ok (count_heard ?p ?s)" using learn_slicers_ok [OF assms(2)] by simp
  then obtain iv hits where "tally_slicers (p_slicer_mask ?p) [0..<x_slicer_count (count_heard ?p ?s)]
        (x_slicer_interval (count_heard ?p ?s), x_slicer_hits (count_heard ?p ?s)) = Some (iv, hits)"
      "length iv = x_slicer_count (count_heard ?p ?s)" "length hits = x_slicer_count (count_heard ?p ?s)"
      "\<forall>i<x_slicer_count (count_heard ?p ?s). iv ! i = x_slicer_interval (count_heard ?p ?s) ! i
           + (if slicer_bit (p_slicer_mask ?p) i then 1 else 0)
         \<and> hits ! i = x_slicer_hits (count_heard ?p ?s) ! i + (if slicer_bit (p_slicer_mask ?p) i then 1 else 0)"
    by (rule tally_bank)
  note t = this [unfolded count_heard_same]
  have "(s', as, f) = (log_satellite ?p (hear_station mp ?p (hear_freq ?p
         ((count_heard ?p ?s)\<lparr>x_slicer_interval := iv, x_slicer_hits := hits\<rparr>))),
      (if p_is_satellite ?p then [Save (W_InsertSat ?p)] else []) @ [Save (W_InsertPacket ?p), Send (Pkt (RTP ?p))], Ends Go)"
    unfolding assms(1) [symmetric] handle_frame_def Let_def Some option.case count_heard_same t(1) prod.case ..
  then show ?thesis using that(2) [OF Some refl refl _ t(2-4)] by simp
qed

lemma slicers_ok_tally: "slicers_ok s \<Longrightarrow> length iv = x_slicer_count s \<Longrightarrow> length hits = x_slicer_count s \<Longrightarrow>
    slicers_ok (s\<lparr>x_slicer_interval := iv, x_slicer_hits := hits\<rparr>)"
  by (simp add: slicers_ok_def)

lemma series_ok_learn [simp]: "series_ok (learn_slicers f gs s) = series_ok s"
  "series_ok (s\<lparr>x_slicer_interval := iv, x_slicer_hits := hits\<rparr>) = series_ok s"
  by (simp_all add: series_ok_def)

lemma maps_ok_learn [simp]: "maps_ok (learn_slicers f gs s) = maps_ok s" "dirty_ok (learn_slicers f gs s) = dirty_ok s"
  by (simp_all add: maps_ok_def dirty_ok_def)

lemma frame_inv [inv_intros]:
  assumes "handle_frame n lnow t1 t2 fr s = (s', as, f)" and "rx_inv s"
  shows "rx_inv s' \<and> f = Ends Go"
proof -
  have inv: "slicers_ok s" "maps_ok s" "dirty_ok s" "series_ok s" using assms(2) by (simp_all add: rx_inv_def)
  show ?thesis using assms(1) inv(1)
  proof (cases rule: handle_frame_cases)
    case 1
    then show ?thesis using inv by (simp add: rx_inv_def learn_slicers_ok)
  next
    case (2 mp p iv hits s1)
    let ?s2 = "(count_heard p s1)\<lparr>x_slicer_interval := iv, x_slicer_hits := hits\<rparr>"
    have m: "om_inv (x_stations s)" "keyed_entries (x_stations s)" "om_inv (x_freqs s)"
      using inv(2) by (simp_all add: maps_ok_def)
    have "slicers_ok (count_heard p s1)" using learn_slicers_ok [OF inv(1)] 2(2) by simp
    then have "slicers_ok s'" using slicers_ok_tally [of "count_heard p s1" iv hits] 2(2,4-6) by simp
    moreover have "maps_ok s'"
      using hear_station_ok [of "hear_freq p ?s2" mp p] hear_freq_ok [of ?s2 p] m by (simp add: 2(2,4) maps_ok_def)
    moreover have "dirty_ok s'"
      using hear_station_map [of "hear_freq p ?s2" mp p] hear_freq_map [of ?s2 p] m inv(3)
      by (auto simp: 2(2,4) dirty_ok_def)
    moreover have "series_ok s'" using inv(4) by (simp add: 2(2,4))
    ultimately show ?thesis using 2(9) by (simp add: rx_inv_def)
  qed
qed

section \<open>Ticks\<close>

text \<open>What Rust promises of an iteration: each element once.\<close>

definition hash_order_ok :: "hash_order \<Rightarrow> bool" where
  "hash_order_ok ho = (\<forall>site ks. mset (ho site ks) = mset ks)"

lemma hash_order_set: "hash_order_ok ho \<Longrightarrow> set (ho site ks) = set ks"
  by (metis hash_order_ok_def set_mset_mset)

lemma hash_order_distinct: "hash_order_ok ho \<Longrightarrow> distinct (ho site ks) = distinct ks"
  by (metis hash_order_ok_def mset_eq_imp_distinct_iff)

definition gone_stations :: "datetime \<Rightarrow> hash_order \<Rightarrow> rx_state \<Rightarrow> string list" where
  "gone_stations now ho s = snd (retain_map (station_kept now) (ho In_Stations (map fst (x_stations s))) (x_stations s))"

definition gone_freqs :: "datetime \<Rightarrow> hash_order \<Rightarrow> rx_state \<Rightarrow> string list" where
  "gone_freqs now ho s = snd (retain_map (freq_kept now) (ho In_Freqs (map fst (x_freqs s))) (x_freqs s))"

text \<open>The maps after the eviction, and the keys still to be written.\<close>

definition evicted :: "datetime \<Rightarrow> hash_order \<Rightarrow> rx_state \<Rightarrow> rx_state" where
  "evicted now ho s = s\<lparr>x_stations := fst (retain_map (station_kept now) [] (x_stations s)),
     x_freqs := fst (retain_map (freq_kept now) [] (x_freqs s)),
     x_sat_log := fst (prune_sat_log now (x_sat_log s)),
     x_dirty_stations := filter (\<lambda>k. k \<notin> set (gone_stations now ho s)) (x_dirty_stations s),
     x_dirty_freqs := filter (\<lambda>k. k \<notin> set (gone_freqs now ho s)) (x_dirty_freqs s)\<rparr>"

lemma retain_map_fst: "retain_map keep ks m = (fst (retain_map keep [] m), snd (retain_map keep ks m))"
  by (simp add: retain_map_def)

text \<open>The tick in one equation.\<close>

definition tick_saves :: "datetime \<Rightarrow> datetime \<Rightarrow> hash_order \<Rightarrow> rx_state \<Rightarrow> store_write list" where
  "tick_saves the_time now ho s = counter_writes (push_slicers the_time s)
     @ map W_DeleteStation (gone_stations now ho s) @ map W_DeleteFreq (gone_freqs now ho s)
     @ dirty_writes ho (evicted now ho s) @ [W_DeleteSat (snd (prune_sat_log now (x_sat_log s)))]"

definition tick_sends :: "datetime \<Rightarrow> datetime \<Rightarrow> datetime \<Rightarrow> hash_order \<Rightarrow> rx_state \<Rightarrow> data_item list" where
  "tick_sends the_time utc now ho s =
     [Tlm (PacketStatus (packet_report the_time utc (push_counts the_time s))),
      Tlm (SlicerStatus (slicer_report the_time utc (push_slicers the_time s))),
      Tlm (StationStatus (station_report ho (x_stations (evicted now ho s)) (x_freqs (evicted now ho s))))]"

definition ticked :: "datetime \<Rightarrow> datetime \<Rightarrow> hash_order \<Rightarrow> rx_state \<Rightarrow> rx_state" where
  "ticked the_time now ho s =
     clear_dirty (reset_interval (evicted now ho (push_slicers the_time (push_counts the_time s))))"

lemma handle_tick_eq:
  "handle_tick n the_time utc now ho s = (let c = packet_cutoff (n_config n) now;
       as = map Send (tick_sends the_time utc now ho s) @ map Save (tick_saves the_time now ho s)
     in if n_min_time n \<le> c
        then (ticked the_time now ho s, as @ [Save (W_Prune (timestamp_micros c))], Ends Go)
        else (ticked the_time now ho s, as, Aborts ''`DateTime - TimeDelta` overflowed''))"
  unfolding handle_tick_def
  by (subst (1 2) retain_map_fst)
    (simp add: Let_def case_prod_unfold tick_saves_def tick_sends_def ticked_def evicted_def
      gone_stations_def gone_freqs_def clear_dirty_def reset_interval_def push_slicers_def push_counts_def
      packet_report_def slicer_report_def counter_writes_def dirty_writes_def packet_lifetime_of_def)

lemma om_filter_lookup:
  "om_inv m \<Longrightarrow> map_of (filter (\<lambda>(k, v). P v) m) k = (case map_of m k of Some v \<Rightarrow> if P v then Some v else None | None \<Rightarrow> None)"
proof (induction m)
  case (Cons e m)
  have m: "om_inv m" "\<forall>x\<in>set m. fst e < fst x" using Cons.prems by (simp_all add: om_inv_Cons)
  have "map_of m (fst e) = None" "map_of (filter (\<lambda>(k, v). P v) m) (fst e) = None"
    using m(2) by (auto simp: map_of_eq_None_iff)
  then show ?case using Cons.IH [OF m(1)] by (cases e) simp
qed simp

lemma evicted_stations:
  "maps_ok s \<Longrightarrow> om_inv (x_stations (evicted now ho s)) \<and> keyed_entries (x_stations (evicted now ho s))
     \<and> (\<forall>k e. map_of (x_stations (evicted now ho s)) k = Some e
          \<longleftrightarrow> map_of (x_stations s) k = Some e \<and> station_kept now e)"
  by (auto simp: evicted_def retain_map_def maps_ok_def keyed_entries_def om_filter_lookup om_inv_filter
      split: option.splits if_splits)

lemma evicted_freqs:
  "maps_ok s \<Longrightarrow> om_inv (x_freqs (evicted now ho s))
     \<and> (\<forall>k c. map_of (x_freqs (evicted now ho s)) k = Some c \<longleftrightarrow> map_of (x_freqs s) k = Some c \<and> freq_kept now c)"
  by (auto simp: evicted_def retain_map_def maps_ok_def om_filter_lookup om_inv_filter split: option.splits if_splits)

lemma gone_stations_iff:
  "hash_order_ok ho \<Longrightarrow> k \<in> set (gone_stations now ho s)
     \<longleftrightarrow> (\<exists>e. map_of (x_stations s) k = Some e \<and> \<not> station_kept now e)"
  by (auto simp: gone_stations_def retain_map_def hash_order_set dom_map_of_conv_image_fst [symmetric] split: option.splits)

lemma gone_freqs_iff:
  "hash_order_ok ho \<Longrightarrow> k \<in> set (gone_freqs now ho s)
     \<longleftrightarrow> (\<exists>c. map_of (x_freqs s) k = Some c \<and> \<not> freq_kept now c)"
  by (auto simp: gone_freqs_def retain_map_def hash_order_set dom_map_of_conv_image_fst [symmetric] split: option.splits)

lemma gone_distinct:
  "hash_order_ok ho \<Longrightarrow> maps_ok s \<Longrightarrow> distinct (gone_stations now ho s) \<and> distinct (gone_freqs now ho s)"
  by (simp add: gone_stations_def gone_freqs_def retain_map_def hash_order_distinct maps_ok_def om.entries_distinct)

lemma evicted_dirty:
  assumes "dirty_ok s" and "maps_ok s" and "hash_order_ok ho"
  shows "dirty_ok (evicted now ho s)"
proof -
  have d: "set (x_dirty_stations s) \<subseteq> dom (map_of (x_stations s))" "set (x_dirty_freqs s) \<subseteq> dom (map_of (x_freqs s))"
    "distinct (x_dirty_stations s)" "distinct (x_dirty_freqs s)"
    using assms(1) by (simp_all add: dirty_ok_def)
  have e: "x_dirty_stations (evicted now ho s) = filter (\<lambda>k. k \<notin> set (gone_stations now ho s)) (x_dirty_stations s)"
    "x_dirty_freqs (evicted now ho s) = filter (\<lambda>k. k \<notin> set (gone_freqs now ho s)) (x_dirty_freqs s)"
    by (simp_all add: evicted_def)
  have "k \<in> dom (map_of (x_stations (evicted now ho s)))"
    if "k \<in> set (x_dirty_stations s)" "k \<notin> set (gone_stations now ho s)" for k
    using that d(1) gone_stations_iff [OF assms(3), of k now s] evicted_stations [OF assms(2), of now ho] by blast
  moreover have "k \<in> dom (map_of (x_freqs (evicted now ho s)))"
    if "k \<in> set (x_dirty_freqs s)" "k \<notin> set (gone_freqs now ho s)" for k
    using that d(2) gone_freqs_iff [OF assms(3), of k now s] evicted_freqs [OF assms(2), of now ho] by blast
  ultimately show ?thesis using d(3,4) unfolding dirty_ok_def e by auto
qed

lemma push_point_length: "length (series_points ds) \<le> 100 \<Longrightarrow> length (series_points (push_point t v ds)) \<le> 100"
  by (rule series.length_push)

lemma tick_inv [inv_intros]:
  assumes "rx_inv s"
  shows "rx_inv (ticked the_time now ho s)"
proof -
  have "slicers_ok (ticked the_time now ho s)" using assms
    by (simp add: rx_inv_def ticked_def slicers_ok_def clear_dirty_def reset_interval_def evicted_def
        push_slicers_def push_counts_def)
  moreover have "maps_ok (ticked the_time now ho s)"
  proof -
    have "maps_ok (push_slicers the_time (push_counts the_time s))"
      using assms by (simp add: rx_inv_def maps_ok_def push_slicers_def push_counts_def)
    from evicted_stations [OF this] evicted_freqs [OF this] show ?thesis
      by (simp add: ticked_def maps_ok_def clear_dirty_def reset_interval_def)
  qed
  moreover have "dirty_ok (ticked the_time now ho s)" by (simp add: ticked_def dirty_ok_def clear_dirty_def)
  moreover have "series_ok (ticked the_time now ho s)" using assms push_point_length
    by (simp add: rx_inv_def ticked_def series_ok_def clear_dirty_def reset_interval_def evicted_def
        push_slicers_def push_counts_def)
  ultimately show ?thesis by (simp add: rx_inv_def)
qed

lemma rx_step_inv [inv_intros]:
  assumes "rx_step n ev s = (s', as, f)" and "rx_inv s"
  shows "rx_inv s'"
proof (cases ev)
  case (E_Tick t u now ho)
  then show ?thesis using assms tick_inv by (auto simp: handle_tick_eq Let_def split: if_splits)
next
  case (E_Frame lnow t1 t2 fr)
  then show ?thesis using assms frame_inv by (metis rx_step.simps(2))
qed (use assms in auto)

lemma sort_desc: "sorted_wrt (\<lambda>a b. (g b :: u64) \<le> g a) (sort_key (\<lambda>e. - uint (g e)) xs)"
  using sorted_sort_key [of "\<lambda>e. - uint (g e)" xs] by (simp add: sorted_wrt_map word_le_def)

text \<open>The published lists: every entry once, by descending count.\<close>

lemma station_report_sorted:
  assumes "hash_order_ok ho" and "om_inv sm" and "om_inv fm"
  shows "mset (stt_stations (station_report ho sm fm)) = mset (map snd sm)
    \<and> sorted_wrt (\<lambda>a b. se_count b \<le> se_count a) (stt_stations (station_report ho sm fm))
    \<and> mset (stt_frequencies (station_report ho sm fm)) = mset (map (\<lambda>(k, c, t). \<lparr> fc_frequency = k, fc_count = c \<rparr>) fm)
    \<and> sorted_wrt (\<lambda>a b. fc_count b \<le> fc_count a) (stt_frequencies (station_report ho sm fm))"
proof -
  have vals: "mset (List.map_filter (\<lambda>k. map_option (f k) (map_of m k)) (ho site (map fst m)))
      = mset (map (\<lambda>(k, v). f k v) m)" if "om_inv m" for m :: "(string \<times> 'c) list" and f :: "string \<Rightarrow> 'c \<Rightarrow> 'b" and site
  proof -
    have "mset (List.map_filter (\<lambda>k. map_option (f k) (map_of m k)) (ho site (map fst m)))
        = mset (List.map_filter (\<lambda>k. map_option (f k) (map_of m k)) (map fst m))"
    proof -
      have "mset (ho site (map fst m)) = mset (map fst m)" using assms(1) by (simp add: hash_order_ok_def)
      then show ?thesis unfolding List.map_filter_def mset_map mset_filter by (rule arg_cong)
    qed
    moreover have "List.map_filter (\<lambda>k. map_option (f k) (map_of m k)) (map fst ys) = map (\<lambda>(k, v). f k v) ys"
      if "set ys \<subseteq> set m" for ys
      using that
    proof (induction ys)
      case (Cons y ys)
      then have "map_of m (fst y) = Some (snd y)" using om.entries_distinct [OF \<open>om_inv m\<close>] by simp
      with Cons show ?case by (simp add: List.map_filter_simps case_prod_unfold)
    qed (simp add: List.map_filter_simps)
    ultimately show ?thesis by simp
  qed
  have "mset (List.map_filter (map_of sm) (ho In_Stations (map fst sm))) = mset (map snd sm)"
    using vals [OF assms(2), of "\<lambda>k v. v" In_Stations] by (simp add: option.map_ident case_prod_unfold)
  moreover have "mset (List.map_filter (\<lambda>k. map_option (\<lambda>(c, t). \<lparr> fc_frequency = k, fc_count = c \<rparr>) (map_of fm k))
        (ho In_Freqs (map fst fm))) = mset (map (\<lambda>(k, c, t). \<lparr> fc_frequency = k, fc_count = c \<rparr>) fm)"
    using vals [OF assms(3), of "\<lambda>k (c, t). \<lparr> fc_frequency = k, fc_count = c \<rparr>" In_Freqs] by (simp add: case_prod_unfold)
  ultimately show ?thesis by (simp add: station_report_def sort_desc)
qed

end
