(* ===== verification/Rx_Properties.thy ===== *)
theory Rx_Properties
  imports Rx_Facts
begin

unbundle bit_operations_syntax

text \<open>
  The properties of the listener's arms: what a frame publishes, what it does to the station it is
  about and to the slicer statistics, what a tick forgets and reports, and a sample listener on
  which each of them is applied.
\<close>

section \<open>Altitudes\<close>

lemma fp_le_refl: "a \<noteq> NaN \<Longrightarrow> fp_le a a"
  by (simp add: fp_le_def)

lemma fp_le_trans: "fp_le a b \<Longrightarrow> fp_le b c \<Longrightarrow> fp_le a c"
  by (auto simp: fp_le_def)

lemma fp_lt_le: "fp_lt a b \<Longrightarrow> fp_le a b"
  by (auto simp: fp_le_def fp_lt_def)

lemma fp_not_lt_le: "a \<noteq> NaN \<Longrightarrow> b \<noteq> NaN \<Longrightarrow> \<not> fp_lt a b \<Longrightarrow> fp_le b a"
  by (auto simp: fp_le_def fp_lt_def)

definition altitude_reports :: "(mapped_packet \<times> rtp_packet) list \<Rightarrow> (f64 \<times> string list \<times> u32) list" where
  "altitude_reports xs = List.map_filter (\<lambda>(mp, p). map_option (\<lambda>a. (a, p_digipeater_path p, p_hops p)) (p_altitude_ft p)) xs"

lemma altitude_reports_snoc: "altitude_reports (xs @ [(mp, p)]) = altitude_reports xs
    @ (case p_altitude_ft p of Some a \<Rightarrow> [(a, p_digipeater_path p, p_hops p)] | None \<Rightarrow> [])"
  by (simp add: altitude_reports_def List.map_filter_def split: option.split)

lemma update_entry_altitude:
  "se_altitude_ft (update_entry mp p e) = (case p_altitude_ft p of None \<Rightarrow> se_altitude_ft e
     | Some a \<Rightarrow> Some (case se_altitude_ft e of None \<Rightarrow> a | Some b \<Rightarrow> fp_max b a))"
  "(se_altitude_path (update_entry mp p e), se_altitude_hops (update_entry mp p e)) =
     (if p_altitude_ft p \<noteq> None \<and> (se_altitude_ft e = None \<or> fp_lt (the (se_altitude_ft e)) (the (p_altitude_ft p)))
      then (p_digipeater_path p, p_hops p) else (se_altitude_path e, se_altitude_hops e))"
  by (auto simp: update_entry_def entry_symbol_def entry_altitude_def entry_position_def entry_counts_def Let_def
      split: option.splits)

text \<open>
  C25. The altitude a station is shown with is the highest it has reported since
  its entry was made, and the path shown with it is the path of a packet that reported this
  altitude, whatever packets without an altitude came in between, provided the altitudes are
  numbers.
\<close>

theorem altitude_record:
  assumes "se_altitude_ft e = None" and "\<forall>(mp, p)\<in>set xs. p_altitude_ft p \<noteq> Some NaN"
    and "altitude_reports xs \<noteq> []"
  shows "\<exists>(a, path, hops)\<in>set (altitude_reports xs). (let e' = fold (\<lambda>(mp, p). update_entry mp p) xs e in
    se_altitude_ft e' = Some a \<and> se_altitude_path e' = path \<and> se_altitude_hops e' = hops)
    \<and> (\<forall>(b, q, h)\<in>set (altitude_reports xs). fp_le b a)"
  using assms(2,3)
proof (induction xs rule: rev_induct)
  case (snoc x xs)
  obtain mp p where x: "x = (mp, p)" by (cases x)
  let ?e = "fold (\<lambda>(mp, p). update_entry mp p) xs e"
  have fold: "fold (\<lambda>(mp, p). update_entry mp p) (xs @ [x]) e = update_entry mp p ?e" by (simp add: x)
  have nn: "\<forall>(mp, p)\<in>set xs. p_altitude_ft p \<noteq> Some NaN" "p_altitude_ft p \<noteq> Some NaN"
    using snoc.prems(1) by (auto simp: x)
  note reports = altitude_reports_snoc [of xs mp p, folded x]
  show ?case
  proof (cases "p_altitude_ft p")
    case None
    then have "altitude_reports (xs @ [x]) = altitude_reports xs" using reports by simp
    with snoc.IH [OF nn(1)] snoc.prems(2) show ?thesis unfolding fold
      using update_entry_altitude [of mp p ?e] None by (simp add: Let_def)
  next
    case (Some a)
    have a: "a \<noteq> NaN" using nn(2) Some by simp
    have r: "altitude_reports (xs @ [x]) = altitude_reports xs @ [(a, p_digipeater_path p, p_hops p)]"
      using reports Some by simp
    show ?thesis
    proof (cases "altitude_reports xs = []")
      case True
      have "se_altitude_ft ?e = None"
      proof -
        have "\<forall>(mp, p)\<in>set xs. p_altitude_ft p = None"
          using True by (force simp: altitude_reports_def List.map_filter_def filter_empty_conv)
        then show ?thesis using assms(1)
        proof (induction xs arbitrary: e)
          case (Cons y ys)
          then show ?case using update_entry_altitude(1) [of "fst y" "snd y" e] by (cases y) simp
        qed simp
      qed
      then show ?thesis unfolding fold r using update_entry_altitude [of mp p ?e] Some a
        by (simp add: True fp_le_refl)
    next
      case False
      with snoc.IH [OF nn(1)] obtain b q h where b: "(b, q, h) \<in> set (altitude_reports xs)"
          "se_altitude_ft ?e = Some b" "se_altitude_path ?e = q" "se_altitude_hops ?e = h"
          "\<forall>x\<in>set (altitude_reports xs). fp_le (fst x) b" by (fastforce simp: Let_def case_prod_unfold)
      have "b \<noteq> NaN" using b(1,5) by (auto simp: fp_le_def)
      show ?thesis
      proof (cases "fp_lt b a")
        case True
        have "\<forall>x\<in>set (altitude_reports xs). fp_le (fst x) a" using b(5) fp_le_trans fp_lt_le [OF True] by blast
        then show ?thesis unfolding fold r
          using update_entry_altitude [of mp p ?e] Some a b True
          by (simp add: fp_max_def fp_le_refl case_prod_unfold)
      next
        case False
        have "(b, q, h) \<in> set (altitude_reports (xs @ [x]))" using b(1) r by simp
        moreover have "\<forall>(c, q, h)\<in>set (altitude_reports (xs @ [x])). fp_le c b"
          using b(5) fp_not_lt_le [OF \<open>b \<noteq> NaN\<close> a False] by (simp add: r case_prod_unfold)
        moreover have "se_altitude_ft (update_entry mp p ?e) = Some b \<and> se_altitude_path (update_entry mp p ?e) = q
            \<and> se_altitude_hops (update_entry mp p ?e) = h"
          using update_entry_altitude [of mp p ?e] Some a b \<open>b \<noteq> NaN\<close> False by (simp add: fp_max_def)
        ultimately show ?thesis unfolding fold Let_def by blast
      qed
    qed
  qed
qed (simp add: altitude_reports_def)

section \<open>Properties of a frame\<close>

lemma droppacket_judged: "droppacket t (p\<lparr>p_igated := b, p_twist := w\<rparr>) = droppacket t p"
  "droppacket t (p\<lparr>p_igated := b\<rparr>) = droppacket t p" "droppacket t (p\<lparr>p_twist := w\<rparr>) = droppacket t p"
  by (simp_all add: droppacket_def third_party_inner_def cong: if_cong split del: if_split)

lemma judged_packet_eq:
  "judged_packet n t s p = p\<lparr>p_is_satellite := p_is_satellite (judged_packet n t s p),
     p_igated := p_igated (judged_packet n t s p), p_twist := p_twist (judged_packet n t s p)\<rparr>"
  by (simp add: judged_packet_def with_twist_def Let_def)

lemma judged_packet_flags:
  "p_is_satellite (judged_packet n t s p) = list_ex (\<lambda>f. fp_eq f (p_frequency p)) (satellite_frequencies (n_config n))"
  "p_igated (judged_packet n t s p) = (droppacket t (judged_packet n t s p) = None)"
  by (simp_all add: judged_packet_def with_twist_def Let_def droppacket_judged)

lemma entry_symbol_same:
  "se_count (entry_symbol st sc e) = se_count e" "se_count_direct (entry_symbol st sc e) = se_count_direct e"
  "se_count_digipeated (entry_symbol st sc e) = se_count_digipeated e"
  "se_last_heard (entry_symbol st sc e) = se_last_heard e" "se_frequency (entry_symbol st sc e) = se_frequency e"
  "se_latitude (entry_symbol st sc e) = se_latitude e" "se_longitude (entry_symbol st sc e) = se_longitude e"
  by (cases st; cases sc; simp add: entry_symbol_def)+

lemma entry_altitude_same:
  "se_count (entry_altitude p e) = se_count e" "se_count_direct (entry_altitude p e) = se_count_direct e"
  "se_count_digipeated (entry_altitude p e) = se_count_digipeated e"
  "se_last_heard (entry_altitude p e) = se_last_heard e" "se_frequency (entry_altitude p e) = se_frequency e"
  "se_latitude (entry_altitude p e) = se_latitude e" "se_longitude (entry_altitude p e) = se_longitude e"
  by (cases "p_altitude_ft p"; simp add: entry_altitude_def Let_def)+

lemma entry_position_same:
  "se_count (entry_position p e) = se_count e" "se_count_direct (entry_position p e) = se_count_direct e"
  "se_count_digipeated (entry_position p e) = se_count_digipeated e"
  "se_last_heard (entry_position p e) = se_last_heard e" "se_frequency (entry_position p e) = se_frequency e"
  by (simp_all add: entry_position_def)

lemma update_entry_fields:
  "se_count (update_entry mp p e) = se_count e + 1"
  "se_count_direct (update_entry mp p e) = se_count_direct e + (if p_heard_direct p then 1 else 0)"
  "se_count_digipeated (update_entry mp p e) = se_count_digipeated e + (if p_heard_direct p then 0 else 1)"
  "se_last_heard (update_entry mp p e) = p_receivetime p" "se_frequency (update_entry mp p e) = p_frequency p"
  by (simp_all add: update_entry_def entry_symbol_same entry_altitude_same entry_position_same entry_counts_def Let_def)

lemma update_entry_position:
  "(se_latitude (update_entry mp p e), se_longitude (update_entry mp p e)) =
     (if p_latitude p \<noteq> None \<and> p_longitude p \<noteq> None then (p_latitude p, p_longitude p)
      else (se_latitude e, se_longitude e))"
  by (simp add: update_entry_def entry_symbol_same entry_altitude_same entry_position_def entry_counts_def Let_def)

text \<open>
  C26. Every frame that can be mapped is published once, as the packet of the
  frame with its flags set, after it was written to the packet history; the packet is marked as
  igated exactly when the gate passes it with its final flags, and as a satellite packet exactly
  when its frequency is configured as one; only then it also goes to the satellite log and its
  table. The packet adds one to the count of its frequency and no other. A frame without the
  AX.25 header is skipped.
\<close>

theorem frame_published:
  assumes "rx_inv s" and "handle_frame n lnow t1 t2 fr s = (s', as, f)"
  shows "f = Ends Go \<and> (case map_frame (n_decoder n) (n_from_ms n) lnow t1 fr of
      None \<Rightarrow> as = [] \<and> s' = learn_slicers (n_log10 n) (fr_slicer_gains fr) s
    | Some mp \<Rightarrow> \<exists>p. p = (mp_packet mp)\<lparr>p_is_satellite := p_is_satellite p, p_igated := p_igated p, p_twist := p_twist p\<rparr>
        \<and> (p_is_satellite p \<longleftrightarrow> (\<exists>f\<in>set (satellite_frequencies (n_config n)). fp_eq f (p_frequency p)))
        \<and> (p_igated p \<longleftrightarrow> droppacket t2 p = None)
        \<and> as = (if p_is_satellite p then [Save (W_InsertSat p)] else []) @ [Save (W_InsertPacket p), Send (Pkt (RTP p))]
        \<and> x_sat_log s' = (if p_is_satellite p then map_option (\<lambda>ps. ps @ [p]) (x_sat_log s) else x_sat_log s)
        \<and> map_of (x_freqs s') = (map_of (x_freqs s))(freq_key p \<mapsto>
            ((case map_of (x_freqs s) (freq_key p) of Some (c, t) \<Rightarrow> c + 1 | None \<Rightarrow> 1), p_receivetime p)))"
proof -
  have inv: "slicers_ok s" "om_inv (x_freqs s)" using assms(1) by (simp_all add: rx_inv_def maps_ok_def)
  show ?thesis using assms(2) inv(1)
  proof (cases rule: handle_frame_cases)
    case 1
    then show ?thesis by simp
  next
    case (2 mp p iv hits s1)
    have "p = (mp_packet mp)\<lparr>p_is_satellite := p_is_satellite p, p_igated := p_igated p, p_twist := p_twist p\<rparr>"
      unfolding 2(3) by (rule judged_packet_eq)
    moreover have "p_is_satellite p \<longleftrightarrow> (\<exists>f\<in>set (satellite_frequencies (n_config n)). fp_eq f (p_frequency p))"
      by (simp add: 2(3) judged_packet_flags(1) list_ex_iff)
    moreover have "p_igated p \<longleftrightarrow> droppacket t2 p = None" unfolding 2(3) by (rule judged_packet_flags)
    moreover have "x_sat_log s' = (if p_is_satellite p then map_option (\<lambda>ps. ps @ [p]) (x_sat_log s) else x_sat_log s)"
      by (simp add: 2(2,4) log_satellite_def)
    moreover have "map_of (x_freqs s') = (map_of (x_freqs s))(freq_key p \<mapsto>
        ((case map_of (x_freqs s) (freq_key p) of Some (c, t) \<Rightarrow> c + 1 | None \<Rightarrow> 1), p_receivetime p))"
      using hear_freq_map [of "(count_heard p s1)\<lparr>x_slicer_interval := iv, x_slicer_hits := hits\<rparr>" p] inv(2)
      by (simp add: 2(2,4) heard_freq_def split: option.split prod.split)
    ultimately show ?thesis using 2(1,8,9) by auto
  qed
qed

lemma station_after_frame:
  assumes "rx_inv s" and "handle_frame n lnow t1 t2 fr s = (s', as, f)"
    and "map_frame (n_decoder n) (n_from_ms n) lnow t1 fr = Some mp" and "p = mp_packet mp"
  shows "(\<forall>k. k \<noteq> station_key p \<longrightarrow> map_of (x_stations s') k = map_of (x_stations s) k)
    \<and> (let old = or_default (new_entry p) (map_of (x_stations s) (station_key p)) in
       \<exists>e. map_of (x_stations s') (station_key p) = Some e \<and> se_callsign e = station_key p
         \<and> se_count e = se_count old + 1
         \<and> se_count_direct e = se_count_direct old + (if p_heard_direct p then 1 else 0)
         \<and> se_count_digipeated e = se_count_digipeated old + (if p_heard_direct p then 0 else 1)
         \<and> se_last_heard e = p_receivetime p \<and> se_frequency e = p_frequency p
         \<and> (se_latitude e, se_longitude e) = (if p_latitude p \<noteq> None \<and> p_longitude p \<noteq> None
              then (p_latitude p, p_longitude p) else (se_latitude old, se_longitude old)))"
proof -
  have inv: "slicers_ok s" "om_inv (x_stations s)" "keyed_entries (x_stations s)"
    using assms(1) by (simp_all add: rx_inv_def maps_ok_def)
  obtain iv hits s1 q where q: "s1 = learn_slicers (n_log10 n) (fr_slicer_gains fr) s" "q = judged_packet n t2 s1 p"
    "s' = log_satellite q (hear_station mp q (hear_freq q
         ((count_heard q s1)\<lparr>x_slicer_interval := iv, x_slicer_hits := hits\<rparr>)))"
    using assms(2) inv(1) by (cases rule: handle_frame_cases) (use assms(3,4) in auto)
  have k: "station_key q = station_key p" by (simp add: station_key_def q(2))
  have new: "new_entry q = new_entry p" by (simp add: new_entry_def q(2) station_key_def transmitted_by_def)
  let ?e = "heard_entry mp q (x_stations s)"
  have m: "map_of (x_stations s') = (map_of (x_stations s))(station_key p \<mapsto> ?e)"
    using hear_station_map [of "hear_freq q ((count_heard q s1)\<lparr>x_slicer_interval := iv, x_slicer_hits := hits\<rparr>)" mp q]
      inv(2) by (simp add: q(1,3) k)
  let ?o = "or_default (new_entry p) (map_of (x_stations s) (station_key p))"
  have u: "?e = update_entry mp q ?o" by (simp add: heard_entry_def k new)
  have "se_count ?e = se_count ?o + 1
      \<and> se_count_direct ?e = se_count_direct ?o + (if p_heard_direct p then 1 else 0)
      \<and> se_count_digipeated ?e = se_count_digipeated ?o + (if p_heard_direct p then 0 else 1)
      \<and> se_last_heard ?e = p_receivetime p \<and> se_frequency ?e = p_frequency p
      \<and> (se_latitude ?e, se_longitude ?e) = (if p_latitude p \<noteq> None \<and> p_longitude p \<noteq> None
           then (p_latitude p, p_longitude p) else (se_latitude ?o, se_longitude ?o))"
    unfolding u update_entry_fields update_entry_position by (simp add: q(2))
  moreover have "se_callsign ?e = station_key p" using heard_entry_callsign [OF inv(3), of mp q] by (simp add: k)
  ultimately show ?thesis by (simp add: m Let_def)
qed

text \<open>
  C27. A packet changes the entry of one station: the object or item it names, else
  its source. The entry's counts go up by one in total and by one in the column of how it was
  heard; it takes the packet's time and frequency; and its position changes exactly when the
  packet has both coordinates. Every other entry stays as it was.
\<close>

theorem station_update:
  assumes "rx_inv s" and "handle_frame n lnow t1 t2 fr s = (s', as, f)"
    and "map_frame (n_decoder n) (n_from_ms n) lnow t1 fr = Some mp" and "p = mp_packet mp"
  shows "(\<forall>k. k \<noteq> station_key p \<longrightarrow> map_of (x_stations s') k = map_of (x_stations s) k)
    \<and> (let old = or_default (new_entry p) (map_of (x_stations s) (station_key p)) in
       \<exists>e. map_of (x_stations s') (station_key p) = Some e \<and> se_callsign e = station_key p
         \<and> se_count e = se_count old + 1
         \<and> se_count_direct e = se_count_direct old + (if p_heard_direct p then 1 else 0)
         \<and> se_count_digipeated e = se_count_digipeated old + (if p_heard_direct p then 0 else 1)
         \<and> se_last_heard e = p_receivetime p \<and> se_frequency e = p_frequency p
         \<and> (se_latitude e, se_longitude e) = (if p_latitude p \<noteq> None \<and> p_longitude p \<noteq> None
              then (p_latitude p, p_longitude p) else (se_latitude old, se_longitude old)))"
  by (rule station_after_frame) (fact assms)+

text \<open>
  A frame never reads or writes outside the slicer vectors, whatever its mask
  says, and with at most sixteen slicers adds one to the interval and lifetime counts of exactly
  the slicers whose bit is set. The bank's size is taken from the first ladder of gains; counts
  restored from the store are kept if and only if they are of that size.
\<close>

theorem slicer_tally:
  assumes "rx_inv s" and "handle_frame n lnow t1 t2 fr s = (s', as, f)"
    and "s1 = learn_slicers (n_log10 n) (fr_slicer_gains fr) s" and "x_slicer_count s1 \<le> 16"
  shows "rx_inv s' \<and> f = Ends Go \<and> x_slicer_count s' = x_slicer_count s1
    \<and> (\<forall>i<x_slicer_count s1. x_slicer_hits s' ! i = x_slicer_hits s1 ! i
        + (if fr_meta fr \<noteq> None \<and> bit (or_default 0 (fr_slicer_mask fr)) i then 1 else 0)
      \<and> x_slicer_interval s' ! i = x_slicer_interval s1 ! i
        + (if fr_meta fr \<noteq> None \<and> bit (or_default 0 (fr_slicer_mask fr)) i then 1 else 0))
    \<and> (x_slicer_count s \<noteq> 0 \<longrightarrow> s1 = s)
    \<and> (\<forall>g. x_slicer_count s = 0 \<and> fr_slicer_gains fr = Some g \<and> g \<noteq> [] \<longrightarrow> x_slicer_count s1 = length g
        \<and> x_slicer_hits s1 = (case x_restored s of
            Some r \<Rightarrow> if length (rs_lifetime_hits r) = length g then rs_lifetime_hits r else replicate (length g) 0
          | None \<Rightarrow> replicate (length g) 0))"
proof -
  have inv: "slicers_ok s" using assms(1) by (simp add: rx_inv_def)
  have learn: "(x_slicer_count s \<noteq> 0 \<longrightarrow> s1 = s)
    \<and> (\<forall>g. x_slicer_count s = 0 \<and> fr_slicer_gains fr = Some g \<and> g \<noteq> [] \<longrightarrow> x_slicer_count s1 = length g
        \<and> x_slicer_hits s1 = (case x_restored s of
            Some r \<Rightarrow> if length (rs_lifetime_hits r) = length g then rs_lifetime_hits r else replicate (length g) 0
          | None \<Rightarrow> replicate (length g) 0))"
    by (auto simp: assms(3) learn_slicers_def Let_def split: option.splits)
  have "x_slicer_count s' = x_slicer_count s1 \<and> (\<forall>i<x_slicer_count s1. x_slicer_hits s' ! i = x_slicer_hits s1 ! i
        + (if fr_meta fr \<noteq> None \<and> bit (or_default 0 (fr_slicer_mask fr)) i then 1 else 0)
      \<and> x_slicer_interval s' ! i = x_slicer_interval s1 ! i
        + (if fr_meta fr \<noteq> None \<and> bit (or_default 0 (fr_slicer_mask fr)) i then 1 else 0))"
    using assms(2) inv
  proof (cases rule: handle_frame_cases)
    case 1
    then show ?thesis by (simp add: assms(3) map_frame_None)
  next
    case (2 mp p iv hits s2)
    have "fr_meta fr \<noteq> None" "p_slicer_mask p = or_default 0 (fr_slicer_mask fr)"
      using 2(1,3) by (auto simp: map_frame_def Let_def split: option.splits)
    then show ?thesis using 2(5-7) assms(4) by (simp add: 2(2,4) assms(3) slicer_bit_iff)
  qed
  with learn frame_inv [OF assms(2,1)] show ?thesis by blast
qed

section \<open>Properties of a tick\<close>

lemma dropWhile_filter:
  assumes "sorted_wrt (\<lambda>x y. P y \<longrightarrow> P x) xs"
  shows "dropWhile P xs = filter (\<lambda>x. \<not> P x) xs \<and> takeWhile P xs = filter P xs"
  using assms by (induction xs) (auto simp: filter_empty_conv filter_id_conv)

lemma forgotten_iff:
  assumes "\<forall>v. m' k = Some v \<longleftrightarrow> m k = Some v \<and> P v"
  shows "(\<exists>v. m k = Some v \<and> \<not> P v) \<longleftrightarrow> m k \<noteq> None \<and> m' k = None"
proof (cases "m k")
  case (Some v)
  then have "m' k = None \<longleftrightarrow> \<not> P v" using assms by (metis not_None_eq option.inject)
  with Some show ?thesis by simp
qed simp

text \<open>
  C28. A tick forgets exactly the stations not heard for 36 hours and the frequencies
  not heard for 24, leaves every other entry as it is, and asks the store to delete exactly the
  rows of those it forgot. Of a satellite log in the order of its times it keeps exactly the
  packets of the last 24 hours and deletes the rows of the others.
\<close>

theorem tick_eviction:
  assumes "rx_inv s" and "hash_order_ok ho" and "handle_tick n the_time utc now ho s = (s', as, f)"
  shows "(\<forall>k e. map_of (x_stations s') k = Some e \<longleftrightarrow> map_of (x_stations s) k = Some e \<and> now - se_last_heard e < hours 36)
    \<and> (\<forall>k c t. map_of (x_freqs s') k = Some (c, t) \<longleftrightarrow> map_of (x_freqs s) k = Some (c, t) \<and> now - t < hours 24)
    \<and> (\<forall>k. Save (W_DeleteStation k) \<in> set as \<longleftrightarrow> map_of (x_stations s) k \<noteq> None \<and> map_of (x_stations s') k = None)
    \<and> (\<forall>k. Save (W_DeleteFreq k) \<in> set as \<longleftrightarrow> map_of (x_freqs s) k \<noteq> None \<and> map_of (x_freqs s') k = None)
    \<and> (\<forall>ps. x_sat_log s = Some ps \<and> sorted (map p_receivetime ps) \<longrightarrow>
        x_sat_log s' = Some (filter (\<lambda>p. now - p_receivetime p \<le> hours 24) ps)
        \<and> Save (W_DeleteSat (map sat_packet_key (filter (\<lambda>p. hours 24 < now - p_receivetime p) ps))) \<in> set as)"
proof -
  have inv: "maps_ok s" using assms(1) by (simp add: rx_inv_def)
  have s': "x_stations s' = x_stations (evicted now ho s)" "x_freqs s' = x_freqs (evicted now ho s)"
      "x_sat_log s' = fst (prune_sat_log now (x_sat_log s))"
    using assms(3) by (auto simp: handle_tick_eq Let_def ticked_def clear_dirty_def reset_interval_def evicted_def
        push_slicers_def push_counts_def split: if_splits)
  have as: "\<exists>x. as = map Send (tick_sends the_time utc now ho s) @ map Save (tick_saves the_time now ho s) @ x
      \<and> set x \<subseteq> range (Save \<circ> W_Prune)"
    using assms(3) by (auto simp: handle_tick_eq Let_def split: if_splits)
  have st: "\<forall>k e. map_of (x_stations s') k = Some e \<longleftrightarrow> map_of (x_stations s) k = Some e \<and> now - se_last_heard e < hours 36"
    using evicted_stations [OF inv, of now ho] by (simp add: s' station_kept_def)
  have fq: "\<forall>k c t. map_of (x_freqs s') k = Some (c, t) \<longleftrightarrow> map_of (x_freqs s) k = Some (c, t) \<and> now - t < hours 24"
    using evicted_freqs [OF inv, of now ho] by (simp add: s' freq_kept_def)
  have del_st: "Save (W_DeleteStation k) \<in> set as \<longleftrightarrow> k \<in> set (gone_stations now ho s)" for k
    using as by (force simp: tick_saves_def counter_writes_def dirty_writes_def List.map_filter_def split: if_splits)
  have del_fq: "Save (W_DeleteFreq k) \<in> set as \<longleftrightarrow> k \<in> set (gone_freqs now ho s)" for k
    using as by (force simp: tick_saves_def counter_writes_def dirty_writes_def List.map_filter_def split: if_splits)
  have "Save (W_DeleteStation k) \<in> set as \<longleftrightarrow> map_of (x_stations s) k \<noteq> None \<and> map_of (x_stations s') k = None" for k
    unfolding del_st gone_stations_iff [OF assms(2)] by (rule forgotten_iff) (use st in \<open>simp add: station_kept_def\<close>)
  moreover have "Save (W_DeleteFreq k) \<in> set as \<longleftrightarrow> map_of (x_freqs s) k \<noteq> None \<and> map_of (x_freqs s') k = None" for k
    unfolding del_fq gone_freqs_iff [OF assms(2)] by (rule forgotten_iff) (use fq in \<open>auto simp: freq_kept_def\<close>)
  moreover have "x_sat_log s' = Some (filter (\<lambda>p. now - p_receivetime p \<le> hours 24) ps)
      \<and> Save (W_DeleteSat (map sat_packet_key (filter (\<lambda>p. hours 24 < now - p_receivetime p) ps))) \<in> set as"
    if "x_sat_log s = Some ps" "sorted (map p_receivetime ps)" for ps
  proof -
    have "sorted_wrt (\<lambda>x y. sat_expired now y \<longrightarrow> sat_expired now x) ps"
      using that(2) unfolding sorted_wrt_map by (rule sorted_wrt_mono_rel [rotated]) (simp add: sat_expired_def)
    note d = dropWhile_filter [OF this]
    have x: "sat_expired now = (\<lambda>p. hours 24 < now - p_receivetime p)" by (simp add: sat_expired_def fun_eq_iff)
    have "prune_sat_log now (x_sat_log s) = (Some (filter (\<lambda>p. now - p_receivetime p \<le> hours 24) ps),
        map sat_packet_key (filter (\<lambda>p. hours 24 < now - p_receivetime p) ps))"
      using d unfolding x by (simp add: prune_sat_log_def that(1) x not_less)
    then show ?thesis using s'(3) as by (auto simp: tick_saves_def)
  qed
  ultimately show ?thesis using st fq by blast
qed

text \<open>
  A tick publishes the counts of the interval as the last points of the series,
  with the lifetime counts, and starts the interval again from zero; it publishes every station
  and frequency that is left exactly once, by descending count, in whatever order the maps are
  iterated; no series grows beyond 100 points and the slicer history not beyond 10 intervals. It
  aborts exactly when the start of the packet history is a time chrono cannot represent.
\<close>

theorem tick_report:
  assumes "rx_inv s" and "hash_order_ok ho" and "handle_tick n the_time utc now ho s = (s', as, f)"
  shows "\<exists>pt sl st rest. as = Send (Tlm (PacketStatus pt)) # Send (Tlm (SlicerStatus sl)) # Send (Tlm (StationStatus st)) # rest
    \<and> last (series_points (pt_total_packets pt)) = (the_time, x_total_packets s)
    \<and> last (series_points (pt_heard_direct pt)) = (the_time, x_heard_direct s)
    \<and> last (series_points (pt_digipeated pt)) = (the_time, x_digipeated s)
    \<and> length (series_points (pt_total_packets pt)) \<le> 100
    \<and> (pt_lifetime_total_packets pt, pt_lifetime_heard_direct pt, pt_lifetime_digipeated pt) = life_totals s
    \<and> last (slt_intervals sl) = \<lparr> si_timestamp = the_time, si_counts = x_slicer_interval s \<rparr>
    \<and> length (slt_intervals sl) \<le> 10 \<and> slt_lifetime_slicer_hits sl = x_slicer_hits s
    \<and> mset (stt_stations st) = mset (map snd (x_stations s'))
    \<and> sorted_wrt (\<lambda>a b. se_count b \<le> se_count a) (stt_stations st)
    \<and> mset (map fc_frequency (stt_frequencies st)) = mset (map fst (x_freqs s'))
    \<and> sorted_wrt (\<lambda>a b. fc_count b \<le> fc_count a) (stt_frequencies st)
    \<and> (x_total_packets s', x_heard_direct s', x_digipeated s') = (0, 0, 0) \<and> life_totals s' = life_totals s
    \<and> (f = Ends Go \<longleftrightarrow> n_min_time n \<le> packet_cutoff (n_config n) now)"
proof -
  have inv: "maps_ok s" "series_ok s" using assms(1) by (simp_all add: rx_inv_def)
  have lens: "length (series_points (x_packets_series s)) \<le> 100" "length (series_points (x_direct_series s)) \<le> 100"
    "length (series_points (x_digipeated_series s)) \<le> 100" using inv(2) by (simp_all add: series_ok_def)
  let ?pt = "packet_report the_time utc (push_counts the_time s)"
  let ?sl = "slicer_report the_time utc (push_slicers the_time s)"
  let ?st = "station_report ho (x_stations (evicted now ho s)) (x_freqs (evicted now ho s))"
  have s': "s' = ticked the_time now ho s"
    "x_stations s' = x_stations (evicted now ho s)" "x_freqs s' = x_freqs (evicted now ho s)"
    using assms(3) by (auto simp: handle_tick_eq Let_def ticked_def clear_dirty_def reset_interval_def evicted_def
        push_slicers_def push_counts_def split: if_splits)
  have "\<exists>rest. as = Send (Tlm (PacketStatus ?pt)) # Send (Tlm (SlicerStatus ?sl)) # Send (Tlm (StationStatus ?st)) # rest"
    using assms(3) by (auto simp: handle_tick_eq Let_def tick_sends_def split: if_splits)
  moreover have "last (series_points (pt_total_packets ?pt)) = (the_time, x_total_packets s)
    \<and> last (series_points (pt_heard_direct ?pt)) = (the_time, x_heard_direct s)
    \<and> last (series_points (pt_digipeated ?pt)) = (the_time, x_digipeated s)
    \<and> length (series_points (pt_total_packets ?pt)) \<le> 100"
    using lens by (simp add: packet_report_def push_counts_def series.last_push series.length_push)
  moreover have "(pt_lifetime_total_packets ?pt, pt_lifetime_heard_direct ?pt, pt_lifetime_digipeated ?pt) = life_totals s"
    by (simp add: packet_report_def push_counts_def life_totals_def)
  moreover have "last (slt_intervals ?sl) = \<lparr> si_timestamp = the_time, si_counts = x_slicer_interval s \<rparr>
    \<and> length (slt_intervals ?sl) \<le> 10 \<and> slt_lifetime_slicer_hits ?sl = x_slicer_hits s"
    by (simp add: slicer_report_def push_slicers_def last_keep_last)
  moreover have "mset (stt_stations ?st) = mset (map snd (x_stations s'))
    \<and> sorted_wrt (\<lambda>a b. se_count b \<le> se_count a) (stt_stations ?st)
    \<and> mset (map fc_frequency (stt_frequencies ?st)) = mset (map fst (x_freqs s'))
    \<and> sorted_wrt (\<lambda>a b. fc_count b \<le> fc_count a) (stt_frequencies ?st)"
  proof -
    note r = station_report_sorted [OF assms(2), of "x_stations s'" "x_freqs s'", folded s'(2,3)]
    have "om_inv (x_stations s')" "om_inv (x_freqs s')"
      using evicted_stations [OF inv(1), of now ho] evicted_freqs [OF inv(1), of now ho] by (simp_all add: s'(2,3))
    note r = r [OF this, unfolded s'(2,3)]
    have "mset (map fc_frequency (stt_frequencies ?st))
        = image_mset fc_frequency (mset (map (\<lambda>(k, c, t). \<lparr> fc_frequency = k, fc_count = c \<rparr>) (x_freqs (evicted now ho s))))"
      using r by simp
    also have "\<dots> = mset (map fst (x_freqs s'))" by (simp add: s'(3) case_prod_unfold image_mset.compositionality comp_def)
    finally show ?thesis using r by (simp add: s'(2,3))
  qed
  moreover have "(x_total_packets s', x_heard_direct s', x_digipeated s') = (0, 0, 0) \<and> life_totals s' = life_totals s"
    by (simp add: s'(1) ticked_def clear_dirty_def reset_interval_def evicted_def push_slicers_def push_counts_def life_totals_def)
  moreover have "f = Ends Go \<longleftrightarrow> n_min_time n \<le> packet_cutoff (n_config n) now"
    using assms(3) by (auto simp: handle_tick_eq Let_def split: if_splits)
  ultimately show ?thesis by blast
qed

section \<open>A sample listener\<close>

definition sample_decoder :: "unit decoder" where
  "sample_decoder = \<lparr> dc_encode = (\<lambda>_. None), dc_decode = (\<lambda>_. None), dc_data = (\<lambda>_. OtherData) \<rparr>"

definition sample_frame :: "unit aprs_frame" where
  "sample_frame = \<lparr> fr_meta = Some \<lparr> ax_source = ''N0CALL'', ax_destination = ''APRS'', ax_via = [],
       ax_heard_direct = True, ax_heard_from = ''N0CALL'', ax_info_offset = Some 0, ax_info_invalid_bytes = 0,
       ax_dti = Some (CHR ''>'') \<rparr>,
     fr_ax25 = ''>on'', fr_received_at_ms = 1700000000000, fr_ssrc = None, fr_frequency_hz = None,
     fr_snr_db = None, fr_slicer_mask = Some 2, fr_slicer_gains = Some [Fin 1, Fin 2], fr_parsed = None \<rparr>"

definition sample_env :: "unit rx_env" where
  "sample_env = \<lparr> n_config = sample_config, n_decoder = sample_decoder, n_from_ms = (\<lambda>ms. Some (ms * 1000000)),
     n_log10 = (\<lambda>x. Fin 0), n_min_time = - (8 * 10 ^ 21) \<rparr>"

definition sample_listener :: rx_state where
  "sample_listener = rx_initial default_packet_lifetime [] [] None (Some [])"

definition list_order :: hash_order where
  "list_order = (\<lambda>site ks. rev ks)"

lemma list_order_ok: "hash_order_ok list_order"
  by (simp add: hash_order_ok_def list_order_def)

definition sample_mapped :: mapped_packet where
  "sample_mapped = the (map_frame sample_decoder (\<lambda>ms. Some (ms * 1000000)) 0 0 sample_frame)"

lemma sample_mapped: "map_frame (n_decoder sample_env) (n_from_ms sample_env) 0 0 sample_frame = Some sample_mapped"
  "p_source (mp_packet sample_mapped) = ''N0CALL''" "p_object_name (mp_packet sample_mapped) = None"
  "p_heard_direct (mp_packet sample_mapped)" "p_receivetime (mp_packet sample_mapped) = 1700000000000 * 1000000"
  by (simp_all add: sample_mapped_def sample_env_def sample_frame_def map_frame_def Let_def frame_payload_def
      sample_decoder_def)

definition sample_heard :: rx_state where
  "sample_heard = fst (handle_frame sample_env 0 0 0 sample_frame sample_listener)"

lemma sample_listener_inv: "rx_inv sample_listener"
  by (simp add: sample_listener_def rx_inv_initial)

lemma sample_heard_inv: "rx_inv sample_heard"
  using frame_inv [OF _ sample_listener_inv] unfolding sample_heard_def by (metis prod.collapse)

theorem frame_published_witness:
  "\<exists>p. snd (handle_frame sample_env 0 0 0 sample_frame sample_listener)
     = ((if p_is_satellite p then [Save (W_InsertSat p)] else []) @ [Save (W_InsertPacket p), Send (Pkt (RTP p))], Ends Go)
     \<and> p_source p = ''N0CALL''"
proof -
  obtain s' as f where h: "handle_frame sample_env 0 0 0 sample_frame sample_listener = (s', as, f)"
    by (metis prod_cases3)
  obtain p where p: "p = (mp_packet sample_mapped)\<lparr>p_is_satellite := p_is_satellite p, p_igated := p_igated p, p_twist := p_twist p\<rparr>"
    "as = (if p_is_satellite p then [Save (W_InsertSat p)] else []) @ [Save (W_InsertPacket p), Send (Pkt (RTP p))]"
    "f = Ends Go"
    using frame_published [OF sample_listener_inv h] unfolding sample_mapped(1) option.case by blast
  have "p_source p = ''N0CALL''" using arg_cong [OF p(1), of p_source] sample_mapped(2) by simp
  then show ?thesis unfolding h snd_conv p(2,3) by blast
qed

lemma sample_heard_step: "\<exists>as f. handle_frame sample_env 0 0 0 sample_frame sample_listener = (sample_heard, as, f)"
  unfolding sample_heard_def by (metis prod.collapse)

lemma sample_listener_stations: "x_stations sample_listener = []"
  by (simp add: sample_listener_def rx_initial_def station_map_of_def)

lemma sample_station_key: "station_key (mp_packet sample_mapped) = ''N0CALL''"
  by (simp add: station_key_def sample_mapped)

theorem station_update_witness:
  "\<exists>e. map_of (x_stations sample_heard) ''N0CALL'' = Some e \<and> se_count e = 1 \<and> se_count_direct e = 1
     \<and> se_last_heard e = 1700000000000 * 1000000"
proof -
  let ?new = "new_entry (mp_packet sample_mapped)"
  have new: "se_count ?new = 0" "se_count_direct ?new = 0" by (simp_all add: new_entry_def)
  obtain as f where "handle_frame sample_env 0 0 0 sample_frame sample_listener = (sample_heard, as, f)"
    using sample_heard_step by blast
  from station_update [OF sample_listener_inv this sample_mapped(1) refl]
  obtain e where "map_of (x_stations sample_heard) ''N0CALL'' = Some e" "se_count e = se_count ?new + 1"
      "se_count_direct e = se_count_direct ?new + 1" "se_last_heard e = p_receivetime (mp_packet sample_mapped)"
    unfolding sample_station_key sample_listener_stations Let_def using sample_mapped(4) by auto
  then show ?thesis using new sample_mapped(5) by simp
qed

theorem slicer_tally_witness:
  "x_slicer_hits sample_heard ! 1 = 1 \<and> x_slicer_hits sample_heard ! 0 = 0 \<and> x_slicer_count sample_heard = 2"
proof -
  obtain as f where h: "handle_frame sample_env 0 0 0 sample_frame sample_listener = (sample_heard, as, f)"
    using sample_heard_step by blast
  let ?s1 = "learn_slicers (n_log10 sample_env) (fr_slicer_gains sample_frame) sample_listener"
  have s1: "x_slicer_count ?s1 = 2" "x_slicer_hits ?s1 = [0, 0]"
    by (simp_all add: learn_slicers_def sample_frame_def sample_listener_def rx_initial_def Let_def)
  have c: "x_slicer_count ?s1 \<le> 16" using s1 by simp
  have "x_slicer_count sample_heard = x_slicer_count ?s1"
    "\<forall>i<x_slicer_count ?s1. x_slicer_hits sample_heard ! i = x_slicer_hits ?s1 ! i
       + (if fr_meta sample_frame \<noteq> None \<and> bit (or_default 0 (fr_slicer_mask sample_frame)) i then 1 else 0)"
    using slicer_tally [OF sample_listener_inv h refl c] by blast+
  moreover have "\<not> bit (2 :: u16) 0" "bit (2 :: u16) 1" by simp_all
  ultimately show ?thesis using s1 by (simp add: sample_frame_def numeral_2_eq_2)
qed

theorem altitude_record_witness:
  "let p = \<lambda>a q. (mp_packet sample_mapped)\<lparr>p_altitude_ft := a, p_digipeater_path := q\<rparr>;
       e = fold (\<lambda>(mp, p). update_entry mp p)
         [(sample_mapped, p (Some (Fin 100)) [''A'']), (sample_mapped, p None [''B'']), (sample_mapped, p (Some (Fin 50)) [])]
         (new_entry (p None []))
   in se_altitude_ft e = Some (Fin 100) \<and> se_altitude_path e = [''A'']"
proof -
  let ?p = "\<lambda>a q. (mp_packet sample_mapped)\<lparr>p_altitude_ft := a, p_digipeater_path := q\<rparr>"
  let ?xs = "[(sample_mapped, ?p (Some (Fin 100)) [''A'']), (sample_mapped, ?p None [''B'']), (sample_mapped, ?p (Some (Fin 50)) [])]"
  have "altitude_reports ?xs = [(Fin 100, [''A''], p_hops (mp_packet sample_mapped)), (Fin 50, [], p_hops (mp_packet sample_mapped))]"
    by (simp add: altitude_reports_def List.map_filter_simps)
  moreover have "\<not> fp_le (Fin 100) (Fin 50)" by (simp add: fp_le_def)
  ultimately show ?thesis
    using altitude_record [of "new_entry (?p None [])" ?xs] by (auto simp: new_entry_def Let_def)
qed

theorem tick_eviction_witness:
  "x_stations (fst (handle_tick sample_env 0 0 (1700000000000 * 1000000 + hours 36) list_order sample_heard)) = []
   \<and> Save (W_DeleteStation ''N0CALL'')
       \<in> set (fst (snd (handle_tick sample_env 0 0 (1700000000000 * 1000000 + hours 36) list_order sample_heard)))"
proof -
  let ?now = "1700000000000 * 1000000 + hours 36"
  obtain s' as f where h: "handle_tick sample_env 0 0 ?now list_order sample_heard = (s', as, f)" by (metis prod_cases3)
  note e = tick_eviction [OF sample_heard_inv list_order_ok h]
  obtain as' f' where "handle_frame sample_env 0 0 0 sample_frame sample_listener = (sample_heard, as', f')"
    using sample_heard_step by blast
  note u = station_after_frame [OF sample_listener_inv this sample_mapped(1) refl, unfolded sample_station_key
      sample_listener_stations Let_def]
  from u obtain en where en: "map_of (x_stations sample_heard) ''N0CALL'' = Some en"
    "se_last_heard en = p_receivetime (mp_packet sample_mapped)" by blast
  have m: "map_of (x_stations sample_heard) k = (if k = ''N0CALL'' then Some en else None)" for k
    using u en(1) by simp
  have "se_last_heard en = 1700000000000 * 1000000" using en(2) sample_mapped(5) by simp
  then have "map_of (x_stations s') k = None" for k using e m by (cases "map_of (x_stations s') k") (auto split: if_splits)
  then have "x_stations s' = []" by (cases "x_stations s'") (force, metis map_of_Cons_code(2) option.distinct(1) surj_pair)
  moreover have "Save (W_DeleteStation ''N0CALL'') \<in> set as" using e m \<open>x_stations s' = []\<close> by simp
  ultimately show ?thesis unfolding h fst_conv snd_conv ..
qed

theorem tick_report_witness:
  "\<exists>pt sl st rest. fst (snd (handle_tick sample_env 5 6 7 list_order sample_heard))
       = Send (Tlm (PacketStatus pt)) # Send (Tlm (SlicerStatus sl)) # Send (Tlm (StationStatus st)) # rest
     \<and> last (series_points (pt_total_packets pt)) = (5, x_total_packets sample_heard)"
proof -
  obtain s' as f where h: "handle_tick sample_env 5 6 7 list_order sample_heard = (s', as, f)" by (metis prod_cases3)
  from tick_report [OF sample_heard_inv list_order_ok h] show ?thesis by (auto simp: h)
qed

section \<open>Two limits\<close>

text \<open>With more than sixteen slicers, the first and the seventeenth are counted by the same bit.\<close>

lemma seventeenth_slicer_aliases:
  assumes "slicers_ok s" and "x_slicer_count s = 17" and "bit m 0"
  shows "\<exists>iv hits. tally_slicers m [0..<17] (x_slicer_interval s, x_slicer_hits s) = Some (iv, hits)
    \<and> hits ! 16 = x_slicer_hits s ! 16 + 1"
proof -
  have "slicer_bit m 16" using assms(3) by (simp add: slicer_bit_iff)
  obtain iv hits where "tally_slicers m [0..<x_slicer_count s] (x_slicer_interval s, x_slicer_hits s) = Some (iv, hits)"
    "\<forall>i<x_slicer_count s. iv ! i = x_slicer_interval s ! i + (if slicer_bit m i then 1 else 0)
       \<and> hits ! i = x_slicer_hits s ! i + (if slicer_bit m i then 1 else 0)"
    by (rule tally_bank [OF assms(1), of m])
  then show ?thesis using \<open>slicer_bit m 16\<close> by (intro exI [of _ iv] exI [of _ hits]) (simp add: assms(2))
qed

text \<open>
  A packet history of 4,294,967,295 hours, which the validation accepts, reaches back further
  than chrono's calendar: the first tick aborts the task.
\<close>

lemma long_history_aborts:
  assumes "packet_history_hours (n_config n) = 4294967295" and "- (8334 * 10 ^ 18) \<le> n_min_time n" and "now < 4 * 10 ^ 18"
  shows "snd (snd (handle_tick n t utc now ho s)) = Aborts ''`DateTime - TimeDelta` overflowed''"
  using assms by (simp add: handle_tick_eq Let_def packet_cutoff_def hours_def nanos_per_sec_def)

end
