(* ===== verification/Rx_Task.thy ===== *)
theory Rx_Task
  imports Rx_Properties
begin

text \<open>
  The listener as a whole: the outer subscription loop as a state machine over phases, its runs as
  an inductive relation that records every event with the actions it causes, the effect of the
  actions on the store, and the properties of runs: the counters add up, the task never aborts,
  the store mirrors the two maps up to what is marked as changed, and a restart resumes.
\<close>

section \<open>The outer loop\<close>

text \<open>At the top of the loop; asleep until the next attempt; in the inner loop; ended; aborted.\<close>

datatype rx_phase = Rx_Connect | Rx_Wait | Rx_Online | Rx_Done | Rx_Aborted

text \<open>
  The cancellation carries the iteration orders of the final flush. It is noticed at the top of the
  loop, in the sleep and in the inner loop, whose break leads to the top.
\<close>

datatype 'p rx_task_event =
    RT_Cancelled hash_order
  | RT_Subscribed
  | RT_SubscribeFailed
  | RT_Waited
  | RT_Inner "'p rx_event"

type_synonym rx_task_result = "rx_phase \<times> rx_state \<times> rx_action list"

definition rx_final_flush :: "hash_order \<Rightarrow> rx_state \<Rightarrow> rx_task_result" where
  "rx_final_flush ho s = (Rx_Done, clear_dirty s, map Save (counter_writes s @ dirty_writes ho s))"

definition after_arm :: "rx_result \<Rightarrow> rx_task_result" where
  "after_arm r = (case r of (s, as, e) \<Rightarrow>
     ((case e of Ends Go \<Rightarrow> Rx_Online | Ends Break \<Rightarrow> Rx_Connect | Aborts msg \<Rightarrow> Rx_Aborted), s, as))"

fun rx_outer_step :: "'p rx_env \<Rightarrow> 'p rx_task_event \<Rightarrow> rx_phase \<Rightarrow> rx_state \<Rightarrow> rx_task_result option" where
  "rx_outer_step n (RT_Cancelled ho) Rx_Connect s = Some (rx_final_flush ho s)"
| "rx_outer_step n (RT_Cancelled ho) Rx_Wait s = Some (rx_final_flush ho s)"
| "rx_outer_step n (RT_Cancelled ho) Rx_Online s = Some (rx_final_flush ho s)"
| "rx_outer_step n RT_Subscribed Rx_Connect s = Some (Rx_Online, s\<lparr>x_backoff_secs := initial_backoff\<rparr>, [])"
| "rx_outer_step n RT_SubscribeFailed Rx_Connect s = Some (Rx_Wait, s, [])"
| "rx_outer_step n RT_Waited Rx_Wait s =
     Some (Rx_Connect, s\<lparr>x_backoff_secs := next_backoff (x_backoff_secs s)\<rparr>, [])"
| "rx_outer_step n (RT_Inner ev) Rx_Online s = Some (after_arm (rx_step n ev s))"
| "rx_outer_step n _ _ s = None"

type_synonym 'p rx_trace = "('p rx_task_event \<times> rx_action list) list"

inductive rx_run :: "'p rx_env \<Rightarrow> rx_state \<Rightarrow> 'p rx_trace \<Rightarrow> rx_phase \<Rightarrow> rx_state \<Rightarrow> bool"
  for n s0 where
  rx_begin: "rx_run n s0 [] Rx_Connect s0"
| rx_next: "rx_run n s0 tr ph s \<Longrightarrow> rx_outer_step n ev ph s = Some (ph', s', as) \<Longrightarrow>
    rx_run n s0 (tr @ [(ev, as)]) ph' s'"

inductive_cases rx_run_NilE: "rx_run n s0 [] ph s"
inductive_simps rx_run_Nil: "rx_run n s0 [] ph s"

text \<open>A step: an arm of the inner loop, the final flush, or a change of the backoff.\<close>

lemma rx_outer_cases:
  assumes "rx_outer_step n ev ph s = Some (ph', s', as)"
  obtains e f where "ev = RT_Inner e" "ph = Rx_Online" "rx_step n e s = (s', as, f)"
      "ph' = (case f of Ends Go \<Rightarrow> Rx_Online | Ends Break \<Rightarrow> Rx_Connect | Aborts msg \<Rightarrow> Rx_Aborted)"
  | ho where "ev = RT_Cancelled ho" "ph \<noteq> Rx_Done" "ph' = Rx_Done" "s' = clear_dirty s"
      "as = map Save (counter_writes s @ dirty_writes ho s)"
  | b where "s' = s\<lparr>x_backoff_secs := b\<rparr>" "as = []" "ev \<in> {RT_Subscribed, RT_SubscribeFailed, RT_Waited}"
      "ph' \<notin> {Rx_Done, Rx_Aborted}" "b \<in> {initial_backoff, x_backoff_secs s, next_backoff (x_backoff_secs s)}"
proof (cases "(ev, ph)")
  case (Pair ev0 ph0)
  show ?thesis
  proof (cases ev)
    case (RT_Inner e)
    then have ph: "ph = Rx_Online" using assms by (cases ph) simp_all
    obtain s1 as1 f where r: "rx_step n e s = (s1, as1, f)" by (metis prod_cases3)
    show ?thesis using that(1) [OF RT_Inner ph, of f] assms by (simp add: RT_Inner ph r after_arm_def)
  next
    case (RT_Cancelled ho)
    then show ?thesis using that(2) assms by (cases ph) (simp_all add: rx_final_flush_def)
  next
    case RT_Subscribed
    then show ?thesis using that(3) [of initial_backoff] assms by (cases ph) simp_all
  next
    case RT_SubscribeFailed
    then show ?thesis using that(3) [of "x_backoff_secs s"] assms by (cases ph) simp_all
  next
    case RT_Waited
    then show ?thesis using that(3) [of "next_backoff (x_backoff_secs s)"] assms by (cases ph) simp_all
  qed
qed

section \<open>The invariant along a run\<close>

lemma rx_inv_backoff [simp]: "rx_inv (s\<lparr>x_backoff_secs := b\<rparr>) = rx_inv s"
  by (simp add: rx_inv_def slicers_ok_def maps_ok_def dirty_ok_def series_ok_def)

lemma rx_inv_clear [simp]: "rx_inv s \<Longrightarrow> rx_inv (clear_dirty s)"
  by (simp add: rx_inv_def slicers_ok_def maps_ok_def dirty_ok_def series_ok_def clear_dirty_def)

lemma rx_run_inv: "rx_run n s0 tr ph s \<Longrightarrow> rx_inv s0 \<Longrightarrow> rx_inv s"
proof (induction rule: rx_run.induct)
  case (rx_next tr ph s ev ph' s' as)
  from rx_next.hyps(2) show ?case
  proof (cases rule: rx_outer_cases)
    case (1 e f)
    then show ?thesis using rx_step_inv rx_next by blast
  next
    case (2 ho)
    then show ?thesis using rx_next by simp
  next
    case (3 b)
    then show ?thesis using rx_next by simp
  qed
qed

text \<open>No arm changes the backoff.\<close>

lemma rx_step_backoff: "rx_step n e s = (s', as, f) \<Longrightarrow> slicers_ok s \<Longrightarrow> x_backoff_secs s' = x_backoff_secs s"
proof (cases e)
  case (E_Tick t u now ho)
  assume "rx_step n e s = (s', as, f)"
  then show ?thesis by (auto simp: E_Tick handle_tick_eq Let_def ticked_def clear_dirty_def reset_interval_def
      evicted_def push_slicers_def push_counts_def split: if_splits)
next
  case (E_Frame lnow t1 t2 fr)
  assume "rx_step n e s = (s', as, f)" "slicers_ok s"
  then have "handle_frame n lnow t1 t2 fr s = (s', as, f)" by (simp add: E_Frame)
  then show ?thesis using \<open>slicers_ok s\<close> by (cases rule: handle_frame_cases) simp_all
qed simp_all

definition tick_times :: "'p rx_trace \<Rightarrow> datetime list" where
  "tick_times tr = concat (map (\<lambda>(ev, as). case ev of RT_Inner (E_Tick t u now ho) \<Rightarrow> [now] | _ \<Rightarrow> []) tr)"

lemma tick_times_snoc [simp]: "tick_times (tr @ [(ev, as)])
    = tick_times tr @ (case ev of RT_Inner (E_Tick t u now ho) \<Rightarrow> [now] | _ \<Rightarrow> [])"
  by (simp add: tick_times_def)

lemma rx_step_aborts:
  assumes "rx_step n e s = (s', as, Aborts msg)" and "rx_inv s"
  shows "\<exists>t u now ho. e = E_Tick t u now ho \<and> packet_cutoff (n_config n) now < n_min_time n"
proof (cases e)
  case (E_Tick t u now ho)
  then show ?thesis using assms(1) by (simp add: handle_tick_eq Let_def split: if_splits)
next
  case (E_Frame lnow t1 t2 fr)
  then show ?thesis using assms frame_inv by fastforce
qed (use assms in auto)

lemma rx_run_safe:
  assumes "rx_run n s0 tr ph s" and "rx_inv s0" and "backoff.in_bounds (x_backoff_secs s0)"
    and "\<forall>t\<in>set (tick_times tr). n_min_time n \<le> packet_cutoff (n_config n) t"
  shows "ph \<noteq> Rx_Aborted \<and> backoff.in_bounds (x_backoff_secs s)"
  using assms
proof (induction rule: rx_run.induct)
  case (rx_next tr ph s ev ph' s' as)
  have inv: "rx_inv s" using rx_run_inv rx_next by blast
  have IH: "backoff.in_bounds (x_backoff_secs s)"
    and times: "\<forall>t\<in>set (tick_times [(ev, as)]). n_min_time n \<le> packet_cutoff (n_config n) t"
    using rx_next by (auto simp: tick_times_def)
  from rx_next.hyps(2) show ?case
  proof (cases rule: rx_outer_cases)
    case (1 e f)
    have "\<not> (\<exists>msg. f = Aborts msg)"
    proof
      assume "\<exists>msg. f = Aborts msg"
      then obtain t u now ho where e: "e = E_Tick t u now ho" "packet_cutoff (n_config n) now < n_min_time n"
        using rx_step_aborts [OF _ inv] 1(3) by blast
      then have "now \<in> set (tick_times [(ev, as)])" by (simp add: 1(1) tick_times_def)
      then show False using times e(2) by fastforce
    qed
    then have "ph' \<noteq> Rx_Aborted" unfolding 1(4) by (cases f) (auto split: flow.splits)
    moreover have "x_backoff_secs s' = x_backoff_secs s" using rx_step_backoff [OF 1(3)] inv by (simp add: rx_inv_def)
    ultimately show ?thesis using IH by simp
  next
    case (2 ho)
    then show ?thesis using IH by (simp add: clear_dirty_def)
  next
    case (3 b)
    have "backoff.in_bounds b" using 3(5) IH backoff.in_bounds_first backoff.in_bounds_succ by blast
    then show ?thesis using 3(4) by (simp add: 3(1))
  qed
qed simp

text \<open>
  C29. The listener never indexes a vector out of range and never leaves its
  loops except by cancellation, whatever frames, errors and restored data it meets, as long as
  the start of the packet history is a time chrono can represent; its state stays well-formed, and
  the wait between two subscriptions stays between 5 and 300 seconds.
\<close>

theorem listener_never_aborts:
  assumes "rx_run n (rx_start nd from_us slog d) tr ph s"
    and "\<forall>t\<in>set (tick_times tr). n_min_time n \<le> packet_cutoff (n_config n) t"
  shows "ph \<noteq> Rx_Aborted \<and> rx_inv s \<and> 5 \<le> x_backoff_secs s \<and> x_backoff_secs s \<le> 300"
proof -
  have "x_backoff_secs (rx_start nd from_us slog d) = initial_backoff" by (simp add: rx_start_def rx_initial_def)
  with rx_run_safe [OF assms(1) rx_inv_start _ assms(2)] backoff.in_bounds_first
  have "ph \<noteq> Rx_Aborted \<and> backoff.in_bounds (x_backoff_secs s)" by simp
  moreover have "rx_inv s" using rx_run_inv [OF assms(1) rx_inv_start] .
  ultimately show ?thesis
    by (simp add: backoff.in_bounds_def) (simp add: initial_backoff_def max_backoff_secs_def)
qed

section \<open>Counting\<close>

text \<open>The packets of a run: the mapped frames, and how each was heard.\<close>

definition heard_of :: "'p rx_env \<Rightarrow> 'p rx_task_event \<Rightarrow> rtp_packet list" where
  "heard_of n ev = (case ev of
     RT_Inner (E_Frame lnow t1 t2 fr) \<Rightarrow>
       (case map_frame (n_decoder n) (n_from_ms n) lnow t1 fr of Some mp \<Rightarrow> [mp_packet mp] | None \<Rightarrow> [])
   | _ \<Rightarrow> [])"

definition heard_packets :: "'p rx_env \<Rightarrow> 'p rx_trace \<Rightarrow> rtp_packet list" where
  "heard_packets n tr = concat (map (\<lambda>(ev, as). heard_of n ev) tr)"

lemma heard_packets_snoc [simp]: "heard_packets n (tr @ [(ev, as)]) = heard_packets n tr @ heard_of n ev"
  by (simp add: heard_packets_def)

definition direct_of :: "rtp_packet list \<Rightarrow> nat" where
  "direct_of ps = length (filter p_heard_direct ps)"

definition digipeated_of :: "rtp_packet list \<Rightarrow> nat" where
  "digipeated_of ps = length (filter (\<lambda>p. \<not> p_heard_direct p) ps)"

lemma direct_digipeated: "direct_of ps + digipeated_of ps = length ps"
  by (simp add: direct_of_def digipeated_of_def sum_length_filter_compl)

lemma heard_of_append: "direct_of (ps @ qs) = direct_of ps + direct_of qs"
  "digipeated_of (ps @ qs) = digipeated_of ps + digipeated_of qs"
  by (simp_all add: direct_of_def digipeated_of_def)

lemma heard_of_Nil [simp]: "direct_of [] = 0" "digipeated_of [] = 0"
  by (simp_all add: direct_of_def digipeated_of_def)

text \<open>One step, as seen by the lifetime counters and by the columns of each station.\<close>

definition columns_ok :: "rx_state \<Rightarrow> bool" where
  "columns_ok s = (\<forall>k e. map_of (x_stations s) k = Some e \<longrightarrow> se_count e = se_count_direct e + se_count_digipeated e)"

lemma rx_step_counts:
  assumes "rx_step n e s = (s', as, f)" and "rx_inv s"
  shows "life_totals s' = (x_life_total s + of_nat (length (heard_of n (RT_Inner e))),
      x_life_direct s + of_nat (direct_of (heard_of n (RT_Inner e))),
      x_life_digipeated s + of_nat (digipeated_of (heard_of n (RT_Inner e))))
    \<and> (columns_ok s \<longrightarrow> columns_ok s')"
proof (cases e)
  case (E_Tick t u now ho)
  have s': "s' = ticked t now ho s" using assms(1) by (simp add: E_Tick handle_tick_eq Let_def split: if_splits)
  have "life_totals s' = life_totals s" by (simp add: s' ticked_def clear_dirty_def reset_interval_def evicted_def
        push_slicers_def push_counts_def life_totals_def)
  moreover have "map_of (x_stations s') k = Some v \<Longrightarrow> map_of (x_stations s) k = Some v" for k v
  proof -
    assume "map_of (x_stations s') k = Some v"
    moreover have "x_stations s' = x_stations (evicted now ho s)"
      by (simp add: s' ticked_def clear_dirty_def reset_interval_def evicted_def push_slicers_def push_counts_def)
    ultimately show ?thesis using evicted_stations [of s now ho] assms(2) by (simp add: rx_inv_def)
  qed
  ultimately show ?thesis unfolding columns_ok_def by (simp add: E_Tick heard_of_def life_totals_def) blast
next
  case (E_Frame lnow t1 t2 fr)
  have h: "handle_frame n lnow t1 t2 fr s = (s', as, f)" and inv: "slicers_ok s" "om_inv (x_stations s)"
    using assms by (simp_all add: E_Frame rx_inv_def maps_ok_def)
  show ?thesis using h inv(1)
  proof (cases rule: handle_frame_cases)
    case 1
    then show ?thesis by (simp add: E_Frame heard_of_def columns_ok_def) (simp add: life_totals_def)
  next
    case (2 mp p iv hits s1)
    have "life_totals s' = (x_life_total s + 1, x_life_direct s + (if p_heard_direct p then 1 else 0),
        x_life_digipeated s + (if p_heard_direct p then 0 else 1))" by (simp add: 2(2,4))
    moreover have "p_heard_direct p = p_heard_direct (mp_packet mp)" by (simp add: 2(3))
    moreover have "columns_ok s'" if c: "columns_ok s"
    proof -
      let ?o = "or_default (new_entry p) (map_of (x_stations s) (station_key p))"
      have "map_of (x_stations s') = (map_of (x_stations s))(station_key p \<mapsto> update_entry mp p ?o)"
        using hear_station_map [of "hear_freq p ((count_heard p s1)\<lparr>x_slicer_interval := iv, x_slicer_hits := hits\<rparr>)" mp p]
          inv(2) by (simp add: 2(2,4) heard_entry_def)
      moreover have "se_count ?o = se_count_direct ?o + se_count_digipeated ?o"
        using c by (cases "map_of (x_stations s) (station_key p)") (auto simp: columns_ok_def new_entry_def)
      ultimately show ?thesis using c by (auto simp: columns_ok_def update_entry_fields)
    qed
    ultimately show ?thesis by (simp add: E_Frame heard_of_def 2(1) direct_of_def digipeated_of_def)
  qed
qed (use assms in \<open>auto simp: heard_of_def life_totals_def\<close>)

lemma rx_run_counts:
  assumes "rx_run n s0 tr ph s" and "rx_inv s0"
  shows "life_totals s = (x_life_total s0 + of_nat (length (heard_packets n tr)),
      x_life_direct s0 + of_nat (direct_of (heard_packets n tr)),
      x_life_digipeated s0 + of_nat (digipeated_of (heard_packets n tr)))
    \<and> (columns_ok s0 \<longrightarrow> columns_ok s)"
  using assms
proof (induction rule: rx_run.induct)
  case rx_begin
  then show ?case by (simp add: heard_packets_def life_totals_def)
next
  case (rx_next tr ph s ev ph' s' as)
  have inv: "rx_inv s" using rx_run_inv rx_next by blast
  note IH = rx_next.IH [OF rx_next.prems]
  from rx_next.hyps(2) show ?case
  proof (cases rule: rx_outer_cases)
    case (1 e f)
    note c = rx_step_counts [OF 1(3) inv]
    have "heard_packets n (tr @ [(ev, as)]) = heard_packets n tr @ heard_of n (RT_Inner e)" by (simp add: 1(1))
    then show ?thesis using c IH
      by (simp add: life_totals_def heard_of_append add.assoc del: heard_packets_snoc)
  next
    case (2 ho)
    then show ?thesis using IH by (simp add: heard_of_def life_totals_def clear_dirty_def columns_ok_def)
  next
    case (3 b)
    then have "heard_of n ev = []" by (auto simp: heard_of_def)
    then show ?thesis using IH by (simp add: 3(1) life_totals_def columns_ok_def)
  qed
qed

text \<open>
  C30. Over a run the lifetime counters grow by exactly the packets heard: the
  total by all, the other two by those heard directly and those heard through a digipeater. Every
  frame that can be mapped counts, in every connection, and nothing else does. The columns of
  every station add up to its count.
\<close>

theorem listener_accounting:
  assumes "rx_run n s0 tr ph s" and "rx_inv s0" and "columns_ok s0"
  shows "x_life_total s - x_life_total s0 = of_nat (length (heard_packets n tr))
    \<and> x_life_direct s - x_life_direct s0 = of_nat (direct_of (heard_packets n tr))
    \<and> x_life_total s - x_life_total s0 = (x_life_direct s - x_life_direct s0) + (x_life_digipeated s - x_life_digipeated s0)
    \<and> columns_ok s"
proof -
  have "(of_nat (length (heard_packets n tr)) :: u64)
      = of_nat (direct_of (heard_packets n tr)) + of_nat (digipeated_of (heard_packets n tr))"
    by (metis direct_digipeated of_nat_add)
  then show ?thesis using rx_run_counts [OF assms(1,2)] assms(3) by (simp add: life_totals_def)
qed

section \<open>The effect on the store\<close>

fun perform_write :: "'d native_db \<Rightarrow> store_write \<Rightarrow> 'd \<Rightarrow> 'd \<times> unit result" where
  "perform_write nd (W_Lifetime pl) d = save_packet_lifetime nd d pl"
| "perform_write nd (W_Slicer n gains hits history) d = save_slicer nd d n gains hits history"
| "perform_write nd (W_DeleteStation k) d = delete_station nd d k"
| "perform_write nd (W_DeleteFreq k) d = delete_freq nd d k"
| "perform_write nd (W_Station e) d = upsert_station nd d e"
| "perform_write nd (W_Freq k c t) d = upsert_freq nd d k c t"
| "perform_write nd (W_DeleteSat ks) d = delete_sat_packets nd d ks"
| "perform_write nd (W_Prune c) d = prune_packets nd d c"
| "perform_write nd (W_InsertSat p) d = insert_sat_packet nd d p"
| "perform_write nd (W_InsertPacket p) d = insert_packet nd d p"

fun perform_saves :: "'d native_db \<Rightarrow> rx_action list \<Rightarrow> 'd \<Rightarrow> 'd \<times> unit result list" where
  "perform_saves nd [] d = (d, [])"
| "perform_saves nd (Send x # as) d = perform_saves nd as d"
| "perform_saves nd (Save w # as) d =
     (let (d1, r) = perform_write nd w d; (d2, rs) = perform_saves nd as d1 in (d2, r # rs))"

lemma perform_saves_append:
  "perform_saves nd (as @ bs) d =
     (let (d1, x) = perform_saves nd as d; (d2, y) = perform_saves nd bs d1 in (d2, x @ y))"
proof (induction as arbitrary: d)
  case (Cons a as)
  then show ?case by (cases a) (simp_all add: case_prod_unfold Let_def)
qed simp

text \<open>The rows a write changes.\<close>

fun row_effect :: "store_write \<Rightarrow> (db_key \<Rightarrow> db_row option) \<Rightarrow> db_key \<Rightarrow> db_row option" where
  "row_effect (W_Lifetime pl) m = m(K_Id T_PacketLifetime singleton \<mapsto> R_PacketLifetime (pl\<lparr>pl_id := singleton\<rparr>))"
| "row_effect (W_Slicer n gains hits history) m = m(K_Id T_Slicer singleton \<mapsto>
     R_Slicer \<lparr> ss_id = singleton, ss_slicer_count = of_nat n, ss_slicer_gains = gains, ss_lifetime_hits = hits,
       ss_history = map (\<lambda>h. \<lparr> sir_ts_micros = to_micros (si_timestamp h), sir_counts = si_counts h \<rparr>) history \<rparr>)"
| "row_effect (W_DeleteStation k) m = m(K_Str T_Station k := None)"
| "row_effect (W_DeleteFreq k) m = m(K_Str T_Freq k := None)"
| "row_effect (W_Station e) m = m(K_Str T_Station (se_callsign e) \<mapsto> R_Station (station_from_entry e))"
| "row_effect (W_Freq k c t) m = m(K_Str T_Freq k \<mapsto>
     R_Freq \<lparr> fq_frequency = k, fq_count = c, fq_last_heard_micros = to_micros t \<rparr>)"
| "row_effect (W_DeleteSat ks) m = fold apply_op (map (\<lambda>k. Del (K_Int T_Sat k)) ks) m"
| "row_effect (W_Prune c) m = drop_below c m"
| "row_effect (W_InsertSat p) m = m(K_Int T_Sat (sat_packet_key p) \<mapsto> R_Sat (sat_from_packet p))"
| "row_effect (W_InsertPacket p) m = m(K_Int T_Packet (to_micros (p_receivetime p)) \<mapsto> R_Packet (packet_from_packet p))"

lemma packet_record_keys [simp]:
  "sp_key_micros (sat_from_packet p) = to_micros (p_receivetime p)"
  "r4_key_micros (packet_from_packet p) = to_micros (p_receivetime p)"
  "sr_callsign (station_from_entry e) = se_callsign e"
  by (simp_all add: sat_from_packet_def packet_from_packet_def station_from_entry_def split: option.split)

context native_db_laws
begin

lemma perform_write_rows:
  assumes "ok d" and "perform_write nd w d = (d', r)" and "is_ok r"
  shows "ok d' \<and> rows d' = row_effect w (rows d)"
proof -
  have run: "ok d' \<and> rows d' = fold apply_op ops (rows d)" if "run_txn nd d ops = (d', r)" for ops
    using run_txn_cases [OF assms(1) that] assms(3) by (cases r) simp_all
  show ?thesis
  proof (cases w)
    case (W_DeleteSat ks)
    then show ?thesis using assms run by (cases "ks = []") (auto simp: delete_sat_packets_def)
  next
    case (W_Prune c)
    then show ?thesis using prune_packets_rows [OF assms(1), of c d' r] assms(2,3) by (simp add: fun_eq_iff)
  qed (use assms(2) run in \<open>auto simp: save_packet_lifetime_def save_slicer_def delete_station_def delete_freq_def
      upsert_station_def upsert_freq_def insert_sat_packet_def insert_packet_def sat_packet_key_def
      dest!: run\<close>)
qed

lemma perform_saves_rows:
  assumes "ok d" and "perform_saves nd (map Save ws) d = (d', rs)" and "\<forall>r\<in>set rs. is_ok r"
  shows "ok d' \<and> rows d' = fold row_effect ws (rows d)"
  using assms
proof (induction ws arbitrary: d rs)
  case (Cons w ws)
  obtain d1 r rs1 where p: "perform_write nd w d = (d1, r)" "perform_saves nd (map Save ws) d1 = (d', rs1)" "rs = r # rs1"
    using Cons.prems(2) by (auto simp: Let_def split: prod.splits)
  have "ok d1 \<and> rows d1 = row_effect w (rows d)" using perform_write_rows [OF Cons.prems(1) p(1)] Cons.prems(3) p(3) by simp
  with Cons.IH [OF _ p(2)] Cons.prems(3) p(3) show ?case by simp
qed simp

end

text \<open>A \<open>Send\<close> does not touch the store.\<close>

definition saves_of :: "rx_action list \<Rightarrow> store_write list" where
  "saves_of as = List.map_filter (\<lambda>a. case a of Save w \<Rightarrow> Some w | Send x \<Rightarrow> None) as"

lemma saves_of_simps [simp]: "saves_of [] = []" "saves_of (Save w # as) = w # saves_of as"
  "saves_of (Send x # as) = saves_of as" "saves_of (as @ bs) = saves_of as @ saves_of bs"
  "saves_of (map Save ws) = ws" "saves_of (map Send xs) = []"
  by (simp_all add: saves_of_def List.map_filter_simps)
    (simp_all add: List.map_filter_def filter_map comp_def filter_empty_conv)

lemma perform_saves_of: "perform_saves nd as d = perform_saves nd (map Save (saves_of as)) d"
proof (induction as arbitrary: d)
  case (Cons a as)
  then show ?case by (cases a) (simp_all add: Let_def)
qed simp

section \<open>The rows of the two maps\<close>

definition station_row_of :: "station_map \<Rightarrow> string \<Rightarrow> db_row option" where
  "station_row_of m k = map_option (\<lambda>e. R_Station (station_from_entry e)) (map_of m k)"

definition freq_row_of :: "freq_map \<Rightarrow> string \<Rightarrow> db_row option" where
  "freq_row_of m k = map_option (\<lambda>(c, t). R_Freq \<lparr> fq_frequency = k, fq_count = c, fq_last_heard_micros = to_micros t \<rparr>) (map_of m k)"

text \<open>Every key that is not marked as changed has the row of its entry, or none.\<close>

definition mirrored :: "rx_state \<Rightarrow> (db_key \<Rightarrow> db_row option) \<Rightarrow> bool" where
  "mirrored s m = ((\<forall>k. k \<notin> set (x_dirty_stations s) \<longrightarrow> m (K_Str T_Station k) = station_row_of (x_stations s) k)
     \<and> (\<forall>k. k \<notin> set (x_dirty_freqs s) \<longrightarrow> m (K_Str T_Freq k) = freq_row_of (x_freqs s) k))"

lemma apply_dels_other: "(\<forall>k\<in>set ks. q \<noteq> f k) \<Longrightarrow> fold apply_op (map (\<lambda>k. Del (f k)) ks) m q = m q"
  by (induction ks arbitrary: m) simp_all

text \<open>The writes that touch neither table, or one of the singletons.\<close>

definition no_key_write :: "store_write \<Rightarrow> bool" where
  "no_key_write w = (case w of W_Station _ \<Rightarrow> False | W_DeleteStation _ \<Rightarrow> False | W_Freq _ _ _ \<Rightarrow> False
     | W_DeleteFreq _ \<Rightarrow> False | _ \<Rightarrow> True)"

lemma row_effect_other: "no_key_write w \<Longrightarrow> row_effect w m (K_Str t k) = m (K_Str t k)"
  by (cases w) (simp_all add: no_key_write_def apply_dels_other)

lemma row_effects_other: "\<forall>w\<in>set ws. no_key_write w \<Longrightarrow> fold row_effect ws m (K_Str t k) = m (K_Str t k)"
  by (induction ws arbitrary: m) (simp_all add: row_effect_other)

lemma counter_writes_other: "w \<in> set (counter_writes s) \<Longrightarrow> no_key_write w"
  by (auto simp: counter_writes_def no_key_write_def split: if_splits)

text \<open>Deletions and the writing of the marked keys, on the two tables.\<close>

lemma delete_effects:
  "fold row_effect (map W_DeleteStation ks) m (K_Str T_Station k) = (if k \<in> set ks then None else m (K_Str T_Station k))"
  "fold row_effect (map W_DeleteFreq ks) m (K_Str T_Station k) = m (K_Str T_Station k)"
  "fold row_effect (map W_DeleteFreq ks) m (K_Str T_Freq k) = (if k \<in> set ks then None else m (K_Str T_Freq k))"
  "fold row_effect (map W_DeleteStation ks) m (K_Str T_Freq k) = m (K_Str T_Freq k)"
  by (induction ks arbitrary: m) simp_all

lemma upsert_effects:
  assumes "keyed_entries sm"
  shows "fold row_effect (List.map_filter (\<lambda>k. map_option W_Station (map_of sm k)) ks) m (K_Str T_Station k)
      = (if k \<in> set ks \<and> map_of sm k \<noteq> None then station_row_of sm k else m (K_Str T_Station k))"
    and "fold row_effect (List.map_filter (\<lambda>k. map_option W_Station (map_of sm k)) ks) m (K_Str T_Freq k) = m (K_Str T_Freq k)"
    and "fold row_effect (List.map_filter (\<lambda>k. map_option (\<lambda>(c, t). W_Freq k c t) (map_of fm k)) ks) m (K_Str T_Freq k)
      = (if k \<in> set ks \<and> map_of fm k \<noteq> None then freq_row_of fm k else m (K_Str T_Freq k))"
    and "fold row_effect (List.map_filter (\<lambda>k. map_option (\<lambda>(c, t). W_Freq k c t) (map_of fm k)) ks) m (K_Str T_Station k)
      = m (K_Str T_Station k)"
proof -
  show "fold row_effect (List.map_filter (\<lambda>k. map_option W_Station (map_of sm k)) ks) m (K_Str T_Station k)
      = (if k \<in> set ks \<and> map_of sm k \<noteq> None then station_row_of sm k else m (K_Str T_Station k))"
    using assms
    by (induction ks arbitrary: m)
      (auto simp: List.map_filter_simps station_row_of_def keyed_entries_def split: option.split)
  show "fold row_effect (List.map_filter (\<lambda>k. map_option W_Station (map_of sm k)) ks) m (K_Str T_Freq k) = m (K_Str T_Freq k)"
    by (induction ks arbitrary: m) (auto simp: List.map_filter_simps split: option.split)
  show "fold row_effect (List.map_filter (\<lambda>k. map_option (\<lambda>(c, t). W_Freq k c t) (map_of fm k)) ks) m (K_Str T_Freq k)
      = (if k \<in> set ks \<and> map_of fm k \<noteq> None then freq_row_of fm k else m (K_Str T_Freq k))"
    by (induction ks arbitrary: m) (auto simp: List.map_filter_simps freq_row_of_def split: option.split)
  show "fold row_effect (List.map_filter (\<lambda>k. map_option (\<lambda>(c, t). W_Freq k c t) (map_of fm k)) ks) m (K_Str T_Station k)
      = m (K_Str T_Station k)"
    by (induction ks arbitrary: m) (auto simp: List.map_filter_simps split: option.split)
qed

lemma dirty_effects:
  assumes "maps_ok s" and "hash_order_ok ho"
  shows "fold row_effect (dirty_writes ho s) m (K_Str T_Station k)
      = (if k \<in> set (x_dirty_stations s) \<and> map_of (x_stations s) k \<noteq> None then station_row_of (x_stations s) k
         else m (K_Str T_Station k))"
    and "fold row_effect (dirty_writes ho s) m (K_Str T_Freq k)
      = (if k \<in> set (x_dirty_freqs s) \<and> map_of (x_freqs s) k \<noteq> None then freq_row_of (x_freqs s) k
         else m (K_Str T_Freq k))"
proof -
  have k: "keyed_entries (x_stations s)" using assms(1) by (simp add: maps_ok_def)
  show "fold row_effect (dirty_writes ho s) m (K_Str T_Station k)
      = (if k \<in> set (x_dirty_stations s) \<and> map_of (x_stations s) k \<noteq> None then station_row_of (x_stations s) k
         else m (K_Str T_Station k))"
    unfolding dirty_writes_def fold_append comp_apply upsert_effects(4) [OF k] upsert_effects(1) [OF k]
      hash_order_set [OF assms(2)] ..
  show "fold row_effect (dirty_writes ho s) m (K_Str T_Freq k)
      = (if k \<in> set (x_dirty_freqs s) \<and> map_of (x_freqs s) k \<noteq> None then freq_row_of (x_freqs s) k
         else m (K_Str T_Freq k))"
    unfolding dirty_writes_def fold_append comp_apply upsert_effects(3) [OF k] upsert_effects(2) [OF k]
      hash_order_set [OF assms(2)] ..
qed

section \<open>The mirror along a run\<close>

lemma mirrored_frame:
  assumes "handle_frame n lnow t1 t2 fr s = (s', as, f)" and "rx_inv s" and "mirrored s m"
  shows "mirrored s' (fold row_effect (saves_of as) m)"
proof -
  have inv: "slicers_ok s" "om_inv (x_stations s)" "om_inv (x_freqs s)"
    using assms(2) by (simp_all add: rx_inv_def maps_ok_def)
  show ?thesis using assms(1) inv(1)
  proof (cases rule: handle_frame_cases)
    case 1
    then show ?thesis using assms(3) by (simp add: mirrored_def)
  next
    case (2 mp p iv hits s1)
    let ?s2 = "(count_heard p s1)\<lparr>x_slicer_interval := iv, x_slicer_hits := hits\<rparr>"
    have m: "map_of (x_stations s') = (map_of (x_stations s))(station_key p \<mapsto> heard_entry mp p (x_stations s))"
      "map_of (x_freqs s') = (map_of (x_freqs s))(freq_key p \<mapsto> heard_freq p (x_freqs s))"
      using hear_station_map [of "hear_freq p ?s2" mp p] hear_freq_map [of ?s2 p] inv(2,3) by (simp_all add: 2(2,4))
    have "\<forall>w\<in>set (saves_of as). no_key_write w" by (simp add: 2(8) no_key_write_def)
    note w = row_effects_other [OF this]
    have "x_dirty_stations s' = set_insert (station_key p) (x_dirty_stations s)"
      "x_dirty_freqs s' = set_insert (freq_key p) (x_dirty_freqs s)" by (simp_all add: 2(2,4))
    then show ?thesis using assms(3) by (simp add: mirrored_def w station_row_of_def freq_row_of_def m)
  qed
qed

lemma mirrored_counters: "mirrored s m \<Longrightarrow> \<forall>w\<in>set ws. no_key_write w \<Longrightarrow> mirrored s (fold row_effect ws m)"
  by (simp add: mirrored_def row_effects_other)

lemma mirrored_evict:
  assumes "mirrored s m" and "maps_ok s" and "hash_order_ok ho"
  shows "mirrored (evicted now ho s) (fold row_effect (map W_DeleteStation (gone_stations now ho s)
    @ map W_DeleteFreq (gone_freqs now ho s)) m)"
proof -
  let ?m = "fold row_effect (map W_DeleteStation (gone_stations now ho s) @ map W_DeleteFreq (gone_freqs now ho s)) m"
  have d: "x_dirty_stations (evicted now ho s) = filter (\<lambda>k. k \<notin> set (gone_stations now ho s)) (x_dirty_stations s)"
    "x_dirty_freqs (evicted now ho s) = filter (\<lambda>k. k \<notin> set (gone_freqs now ho s)) (x_dirty_freqs s)"
    by (simp_all add: evicted_def)
  have e: "?m (K_Str T_Station k) = (if k \<in> set (gone_stations now ho s) then None else m (K_Str T_Station k))"
    "?m (K_Str T_Freq k) = (if k \<in> set (gone_freqs now ho s) then None else m (K_Str T_Freq k))" for k
    unfolding fold_append comp_apply by (simp_all add: delete_effects)
  have st: "map_of (x_stations (evicted now ho s)) k
      = (if k \<in> set (gone_stations now ho s) then None else map_of (x_stations s) k)" for k
  proof -
    have "\<forall>v. map_of (x_stations (evicted now ho s)) k = Some v \<longleftrightarrow> map_of (x_stations s) k = Some v \<and> station_kept now v"
      using evicted_stations [OF assms(2), of now ho] by blast
    then show ?thesis unfolding gone_stations_iff [OF assms(3)] by (metis not_None_eq option.inject)
  qed
  have fq: "map_of (x_freqs (evicted now ho s)) k
      = (if k \<in> set (gone_freqs now ho s) then None else map_of (x_freqs s) k)" for k
  proof -
    have "\<forall>v. map_of (x_freqs (evicted now ho s)) k = Some v \<longleftrightarrow> map_of (x_freqs s) k = Some v \<and> freq_kept now v"
      using evicted_freqs [OF assms(2), of now ho] by blast
    then show ?thesis unfolding gone_freqs_iff [OF assms(3)] by (metis not_None_eq option.inject)
  qed
  have rows: "\<And>k. k \<notin> set (x_dirty_stations s) \<Longrightarrow> m (K_Str T_Station k) = station_row_of (x_stations s) k"
    "\<And>k. k \<notin> set (x_dirty_freqs s) \<Longrightarrow> m (K_Str T_Freq k) = freq_row_of (x_freqs s) k"
    using assms(1) by (simp_all add: mirrored_def)
  show ?thesis unfolding mirrored_def d e using rows
    by (auto simp: station_row_of_def freq_row_of_def st fq)
qed

lemma mirrored_flush:
  assumes "mirrored s m" and "maps_ok s" and "dirty_ok s" and "hash_order_ok ho"
  shows "mirrored (clear_dirty s) (fold row_effect (dirty_writes ho s) m)"
proof -
  have st: "fold row_effect (dirty_writes ho s) m (K_Str T_Station k) = station_row_of (x_stations s) k" for k
  proof (cases "k \<in> set (x_dirty_stations s)")
    case True
    then have "map_of (x_stations s) k \<noteq> None" using assms(3) by (auto simp: dirty_ok_def)
    with True show ?thesis using dirty_effects(1) [OF assms(2,4)] by metis
  next
    case False
    then show ?thesis using dirty_effects(1) [OF assms(2,4)] assms(1) by (simp add: mirrored_def)
  qed
  have fq: "fold row_effect (dirty_writes ho s) m (K_Str T_Freq k) = freq_row_of (x_freqs s) k" for k
  proof (cases "k \<in> set (x_dirty_freqs s)")
    case True
    then have "map_of (x_freqs s) k \<noteq> None" using assms(3) by (auto simp: dirty_ok_def)
    with True show ?thesis using dirty_effects(2) [OF assms(2,4)] by metis
  next
    case False
    then show ?thesis using dirty_effects(2) [OF assms(2,4)] assms(1) by (simp add: mirrored_def)
  qed
  show ?thesis unfolding mirrored_def using st fq by (simp add: clear_dirty_def)
qed

lemma mirrored_same:
  "x_stations s' = x_stations s \<Longrightarrow> x_freqs s' = x_freqs s \<Longrightarrow> x_dirty_stations s' = x_dirty_stations s \<Longrightarrow>
     x_dirty_freqs s' = x_dirty_freqs s \<Longrightarrow> mirrored s' m = mirrored s m"
  by (simp add: mirrored_def)

lemma mirrored_tick:
  assumes "handle_tick n t u now ho s = (s', as, f)" and "rx_inv s" and "hash_order_ok ho" and "mirrored s m"
  shows "mirrored s' (fold row_effect (saves_of as) m)"
proof -
  have inv: "maps_ok s" "dirty_ok s" using assms(2) by (simp_all add: rx_inv_def)
  let ?e = "evicted now ho s"
  let ?w1 = "counter_writes (push_slicers t s)"
  let ?w2 = "map W_DeleteStation (gone_stations now ho s) @ map W_DeleteFreq (gone_freqs now ho s)"
  let ?tail = "saves_of as"
  have s': "s' = ticked t now ho s" using assms(1) by (simp add: handle_tick_eq Let_def split: if_splits)
  have "saves_of as = tick_saves t now ho s @ (if f = Ends Go then [W_Prune (timestamp_micros (packet_cutoff (n_config n) now))] else [])"
    using assms(1) by (auto simp: handle_tick_eq Let_def split: if_splits)
  then obtain ws where ws: "saves_of as = ?w1 @ ?w2 @ dirty_writes ho ?e @ ws" "\<forall>w\<in>set ws. no_key_write w"
    by (simp add: tick_saves_def no_key_write_def)
  let ?m1 = "fold row_effect ?w1 m" and ?m2 = "fold row_effect ?w2 (fold row_effect ?w1 m)"
  have m1: "mirrored s ?m1" using mirrored_counters [OF assms(4)] counter_writes_other by blast
  have m2: "mirrored ?e ?m2" by (rule mirrored_evict [OF m1 inv(1) assms(3)])
  have "maps_ok ?e" using evicted_stations [OF inv(1)] evicted_freqs [OF inv(1)] by (simp add: maps_ok_def)
  with mirrored_flush [OF m2 _ evicted_dirty [OF inv(2,1) assms(3)] assms(3)]
  have "mirrored (clear_dirty ?e) (fold row_effect (dirty_writes ho ?e) ?m2)" by blast
  then have "mirrored (clear_dirty ?e) (fold row_effect ws (fold row_effect (dirty_writes ho ?e) ?m2))"
    by (rule mirrored_counters) (fact ws(2))
  moreover have "mirrored s' x = mirrored (clear_dirty ?e) x" for x
    by (rule mirrored_same)
      (simp_all add: s' ticked_def clear_dirty_def reset_interval_def evicted_def push_slicers_def push_counts_def)
  ultimately show ?thesis unfolding ws(1) fold_append comp_apply by blast
qed

definition event_orders_ok :: "'p rx_task_event \<Rightarrow> bool" where
  "event_orders_ok ev = (case ev of RT_Cancelled ho \<Rightarrow> hash_order_ok ho
     | RT_Inner (E_Tick t u now ho) \<Rightarrow> hash_order_ok ho | _ \<Rightarrow> True)"

lemma mirrored_step:
  assumes "rx_outer_step n ev ph s = Some (ph', s', as)" and "rx_inv s" and "event_orders_ok ev" and "mirrored s m"
  shows "mirrored s' (fold row_effect (saves_of as) m)"
  using assms(1)
proof (cases rule: rx_outer_cases)
  case (1 e f)
  show ?thesis
  proof (cases e)
    case (E_Tick t u now ho)
    then show ?thesis using mirrored_tick 1 assms by (fastforce simp: event_orders_ok_def)
  next
    case (E_Frame lnow t1 t2 fr)
    then show ?thesis using mirrored_frame 1 assms by (metis rx_step.simps(2))
  qed (use 1 assms in auto)
next
  case (2 ho)
  have inv: "maps_ok s" "dirty_ok s" using assms(2) by (simp_all add: rx_inv_def)
  have ho: "hash_order_ok ho" using assms(3) by (simp add: 2(1) event_orders_ok_def)
  have "mirrored s (fold row_effect (counter_writes s) m)" using mirrored_counters [OF assms(4)] counter_writes_other by blast
  from mirrored_flush [OF this inv ho] show ?thesis by (simp add: 2(4,5))
next
  case (3 b)
  then show ?thesis using assms(4) by (simp add: mirrored_def)
qed

definition run_saves :: "'p rx_trace \<Rightarrow> store_write list" where
  "run_saves tr = saves_of (concat (map snd tr))"

lemma mirrored_run:
  assumes "rx_run n s0 tr ph s" and "rx_inv s0" and "\<forall>x\<in>set tr. event_orders_ok (fst x)" and "mirrored s0 m"
  shows "mirrored s (fold row_effect (run_saves tr) m)"
  using assms
proof (induction rule: rx_run.induct)
  case rx_begin
  then show ?case by (simp add: run_saves_def)
next
  case (rx_next tr ph s ev ph' s' as)
  have inv: "rx_inv s" using rx_run_inv rx_next by blast
  have "mirrored s (fold row_effect (run_saves tr) m)" "event_orders_ok ev" using rx_next by simp_all
  from mirrored_step [OF rx_next.hyps(2) inv this(2,1)] show ?case by (simp add: run_saves_def)
qed

section \<open>Start and restart\<close>

lemma station_map_of_lookup:
  assumes "distinct (map se_callsign es)"
  shows "map_of (station_map_of es) = map_of (map (\<lambda>e. (se_callsign e, e)) es)"
proof
  fix k
  have "station_map_of es = fold (\<lambda>(k, v). om_insert k v) (map (\<lambda>e. (se_callsign e, e)) es) []"
    by (simp add: station_map_of_def fold_map comp_def)
  then have "map_of (station_map_of es) k = map_of (rev (map (\<lambda>e. (se_callsign e, e)) es)) k"
    using om.lookup_fold_insert [OF om.inv_empty, of "map (\<lambda>e. (se_callsign e, e)) es" k] by (simp split: option.splits)
  also have "\<dots> = map_of (map (\<lambda>e. (se_callsign e, e)) es) k"
    using assms by (subst map_of_rev_distinct) (simp_all add: comp_def)
  finally show "map_of (station_map_of es) k = map_of (map (\<lambda>e. (se_callsign e, e)) es) k" .
qed

lemma freq_map_of_lookup: "distinct (map fst fs) \<Longrightarrow> map_of (freq_map_of fs) = map_of fs"
  using om.lookup_fold_insert [OF om.inv_empty, of fs]
  by (simp add: freq_map_of_def fun_eq_iff map_of_rev_distinct split: option.splits)

lemma map_of_pairs: "map_of (map (\<lambda>v. (fst v, v)) xs) k = map_option (\<lambda>v. (k, v)) (map_of xs k)"
  by (induction xs) auto

context native_db_laws
begin

lemma started_stations:
  assumes "ok d" and "load_stations nd from_us d = Inr es"
  shows "map_of (x_stations (rx_start nd from_us slog d)) = station_view rows from_us d"
  using stations.load [OF assms] stations.load_map [OF assms]
  by (simp add: rx_start_def rx_initial_def restored_or_def assms(2) station_map_of_lookup)

lemma started_freqs:
  assumes "ok d" and "load_freqs nd from_us d = Inr fs"
  shows "map_option (\<lambda>v. (k, v)) (map_of (x_freqs (rx_start nd from_us slog d)) k) = freq_view rows from_us d k"
proof -
  have "distinct (map fst fs)" using freqs.load [OF assms] by simp
  then have "map_of (x_freqs (rx_start nd from_us slog d)) = map_of fs"
    by (simp add: rx_start_def rx_initial_def restored_or_def assms(2) freq_map_of_lookup)
  moreover have "map_of (map (\<lambda>v. (fst v, v)) fs) = freq_view rows from_us d" by (rule freqs.load_map [OF assms])
  ultimately show ?thesis using map_of_pairs [of fs k] by simp
qed

lemma mirrored_start:
  assumes "ok d" and "load_stations nd from_us d = Inr es" and "load_freqs nd from_us d = Inr fs"
    and "micros_ok from_us dom_ok"
    and "\<forall>k r. rows d (K_Str T_Station k) = Some (R_Station r) \<longrightarrow> dom_ok (sr_last_heard_micros r)"
    and "\<forall>k r. rows d (K_Str T_Freq k) = Some (R_Freq r) \<longrightarrow> dom_ok (fq_last_heard_micros r)"
  shows "mirrored (rx_start nd from_us slog d) (rows d)"
proof -
  let ?s = "rx_start nd from_us slog d"
  have "rows d (K_Str T_Station k) = station_row_of (x_stations ?s) k" for k
  proof (cases "rows d (K_Str T_Station k)")
    case None
    then show ?thesis using started_stations [OF assms(1,2), of slog] by (simp add: station_row_of_def station_view_def)
  next
    case (Some r)
    then obtain x where x: "r = R_Station x" using station_key_row [OF assms(1)] by blast
    have "station_from_entry (station_into_entry from_us x) = x"
      using station_roundtrip_rec [OF assms(4)] assms(5) Some x by blast
    then show ?thesis using started_stations [OF assms(1,2), of slog] Some x
      by (simp add: station_row_of_def station_view_def)
  qed
  moreover have "rows d (K_Str T_Freq k) = freq_row_of (x_freqs ?s) k" for k
  proof (cases "rows d (K_Str T_Freq k)")
    case None
    then have "map_of (x_freqs ?s) k = None" using started_freqs [OF assms(1,3), of k slog] by (simp add: freq_view_def)
    then show ?thesis using None by (simp add: freq_row_of_def)
  next
    case (Some r)
    then obtain x where x: "r = R_Freq x" "fq_frequency x = k" using freq_key_row [OF assms(1)] by blast
    have t: "to_micros (from_micros from_us (fq_last_heard_micros x)) = fq_last_heard_micros x"
      using to_from_micros [OF assms(4)] assms(6) Some x(1) by blast
    have "map_of (x_freqs ?s) k = Some (fq_count x, from_micros from_us (fq_last_heard_micros x))"
      using started_freqs [OF assms(1,3), of k slog] Some x by (simp add: freq_view_def)
    then show ?thesis using Some x t by (simp add: freq_row_of_def)
  qed
  ultimately show ?thesis by (simp add: mirrored_def)
qed

lemma run_rows:
  assumes "ok d0" and "perform_saves nd (concat (map snd tr)) d0 = (d, rs)" and "\<forall>r\<in>set rs. is_ok r"
  shows "ok d \<and> rows d = fold row_effect (run_saves tr) (rows d0)"
  using perform_saves_rows [OF assms(1) _ assms(3), of "run_saves tr" d] assms(2)
  by (simp add: run_saves_def flip: perform_saves_of)

end

text \<open>A run that has ended ended with the final flush.\<close>

lemma rx_done_flush:
  assumes "rx_run n s0 tr ph s" and "ph = Rx_Done"
  shows "\<exists>tr1 ho s1. tr = tr1 @ [(RT_Cancelled ho, map Save (counter_writes s1 @ dirty_writes ho s1))] \<and> s = clear_dirty s1"
  using assms
proof (induction rule: rx_run.induct)
  case (rx_next tr ph s ev ph' s' as)
  from rx_next.hyps(2) show ?case
  proof (cases rule: rx_outer_cases)
    case (1 e f)
    then show ?thesis using rx_next.prems by (auto split: arm_end.splits flow.splits)
  next
    case (2 ho)
    then show ?thesis by blast
  next
    case (3 b)
    then show ?thesis using rx_next.prems by simp
  qed
qed simp

lemma key_effects_ids:
  "\<forall>w\<in>set ws. (\<exists>e. w = W_Station e) \<or> (\<exists>k c u. w = W_Freq k c u) \<Longrightarrow> fold row_effect ws m (K_Id t i) = m (K_Id t i)"
  by (induction ws arbitrary: m) auto

lemma dirty_writes_ids: "fold row_effect (dirty_writes ho s) m (K_Id t i) = m (K_Id t i)"
  by (rule key_effects_ids) (auto simp: dirty_writes_def List.map_filter_def)

text \<open>The two singletons after the final flush.\<close>

lemma flush_singletons:
  "fold row_effect (ws @ counter_writes s @ dirty_writes ho s) m (K_Id T_PacketLifetime singleton)
     = Some (R_PacketLifetime ((packet_lifetime_of s)\<lparr>pl_id := singleton\<rparr>))"
  "0 < x_slicer_count s \<Longrightarrow> fold row_effect (ws @ counter_writes s @ dirty_writes ho s) m (K_Id T_Slicer singleton)
     = Some (R_Slicer \<lparr> ss_id = singleton, ss_slicer_count = of_nat (x_slicer_count s), ss_slicer_gains = x_slicer_gains s,
         ss_lifetime_hits = x_slicer_hits s, ss_history = map (\<lambda>h. \<lparr> sir_ts_micros = to_micros (si_timestamp h),
           sir_counts = si_counts h \<rparr>) (x_slicer_history s) \<rparr>)"
  by (simp_all add: fold_append dirty_writes_ids counter_writes_def)

text \<open>
  C31. As long as no write to the store fails, the station and frequency
  tables mirror the listener's two maps at every point of a run: each key that is not marked as
  changed has exactly the row of its entry, or no row if it has no entry; and after the final
  flush no key is marked, so the tables are the maps. The hypotheses are that the two tables could
  be read at the start and hold times chrono can represent.
\<close>

theorem store_mirrors_listener:
  assumes "native_db_laws nd rows ok" and "ok d0"
    and "load_stations nd from_us d0 = Inr es" and "load_freqs nd from_us d0 = Inr fs" and "micros_ok from_us dom_ok"
    and "\<forall>k r. rows d0 (K_Str T_Station k) = Some (R_Station r) \<longrightarrow> dom_ok (sr_last_heard_micros r)"
    and "\<forall>k r. rows d0 (K_Str T_Freq k) = Some (R_Freq r) \<longrightarrow> dom_ok (fq_last_heard_micros r)"
    and "rx_run n (rx_start nd from_us slog d0) tr ph s" and "\<forall>x\<in>set tr. event_orders_ok (fst x)"
    and "perform_saves nd (concat (map snd tr)) d0 = (d, rs)" and "\<forall>r\<in>set rs. is_ok r"
  shows "(\<forall>k. k \<notin> set (x_dirty_stations s) \<longrightarrow> rows d (K_Str T_Station k)
        = map_option (\<lambda>e. R_Station (station_from_entry e)) (map_of (x_stations s) k))
    \<and> (\<forall>k. k \<notin> set (x_dirty_freqs s) \<longrightarrow> rows d (K_Str T_Freq k) = freq_row_of (x_freqs s) k)
    \<and> (ph = Rx_Done \<longrightarrow> x_dirty_stations s = [] \<and> x_dirty_freqs s = [])"
proof -
  have r: "rows d = fold row_effect (run_saves tr) (rows d0)"
    using native_db_laws.run_rows [OF assms(1,2,10,11)] by blast
  have "mirrored (rx_start nd from_us slog d0) (rows d0)"
    by (rule native_db_laws.mirrored_start [OF assms(1-7)])
  from mirrored_run [OF assms(8) rx_inv_start assms(9) this] have "mirrored s (rows d)" by (simp add: r)
  moreover have "ph = Rx_Done \<longrightarrow> x_dirty_stations s = [] \<and> x_dirty_freqs s = []"
    using rx_done_flush [OF assms(8)] by (auto simp: clear_dirty_def)
  ultimately show ?thesis by (simp add: mirrored_def station_row_of_def)
qed

text \<open>
  C32. A listener that was cancelled and whose writes all succeeded resumes: the
  next start has the same lifetime counters, exactly the same stations and frequencies with their
  times cut to microseconds, and, if the slicer bank was known, its lifetime hits and history.
\<close>

theorem listener_restart:
  assumes "native_db_laws nd rows ok" and "ok d0"
    and "load_stations nd from_us d0 = Inr es" and "load_freqs nd from_us d0 = Inr fs" and "micros_ok from_us dom_ok"
    and "\<forall>k r. rows d0 (K_Str T_Station k) = Some (R_Station r) \<longrightarrow> dom_ok (sr_last_heard_micros r)"
    and "\<forall>k r. rows d0 (K_Str T_Freq k) = Some (R_Freq r) \<longrightarrow> dom_ok (fq_last_heard_micros r)"
    and "rx_run n (rx_start nd from_us slog d0) tr Rx_Done s" and "\<forall>x\<in>set tr. event_orders_ok (fst x)"
    and "perform_saves nd (concat (map snd tr)) d0 = (d, rs)" and "\<forall>r\<in>set rs. is_ok r"
    and "load_packet_lifetime nd d = Inr pl" and "load_stations nd from_us d = Inr es'"
    and "load_freqs nd from_us d = Inr fs'" and "load_slicer nd from_us d = Inr sl"
  shows "let s2 = rx_start nd from_us slog' d in
      life_totals s2 = life_totals s
    \<and> (\<forall>k. map_of (x_stations s2) k = map_option (stored_station from_us) (map_of (x_stations s) k))
    \<and> (\<forall>k. map_of (x_freqs s2) k = map_option (\<lambda>(c, t). (c, from_micros from_us (to_micros t))) (map_of (x_freqs s) k))
    \<and> (0 < x_slicer_count s \<longrightarrow> x_restored s2 = Some \<lparr> rs_lifetime_hits = x_slicer_hits s,
        rs_history = map (\<lambda>h. \<lparr> si_timestamp = from_micros from_us (to_micros (si_timestamp h)),
          si_counts = si_counts h \<rparr>) (x_slicer_history s) \<rparr>)"
proof -
  let ?s2 = "rx_start nd from_us slog' d"
  have ok: "ok d" and r: "rows d = fold row_effect (run_saves tr) (rows d0)"
    using native_db_laws.run_rows [OF assms(1,2,10,11)] by blast+
  have "mirrored (rx_start nd from_us slog d0) (rows d0)"
    by (rule native_db_laws.mirrored_start [OF assms(1-7)])
  from mirrored_run [OF assms(8) rx_inv_start assms(9) this] have m: "mirrored s (rows d)" by (simp add: r)
  obtain tr1 ho s1 where t: "tr = tr1 @ [(RT_Cancelled ho, map Save (counter_writes s1 @ dirty_writes ho s1))]" "s = clear_dirty s1"
    using rx_done_flush [OF assms(8) refl] by blast
  have sv: "run_saves tr = run_saves tr1 @ counter_writes s1 @ dirty_writes ho s1"
  proof -
    have c: "concat (map snd tr) = concat (map snd tr1) @ map Save (counter_writes s1 @ dirty_writes ho s1)" by (simp add: t(1))
    show ?thesis unfolding run_saves_def c saves_of_simps(4,5) ..
  qed
  have rows: "\<And>k. rows d (K_Str T_Station k) = station_row_of (x_stations s) k"
    "\<And>k. rows d (K_Str T_Freq k) = freq_row_of (x_freqs s) k"
    using m by (simp_all add: mirrored_def t(2) clear_dirty_def)
  have "map_of (x_stations ?s2) k = map_option (stored_station from_us) (map_of (x_stations s) k)" for k
    using native_db_laws.started_stations [OF assms(1) ok assms(13), of slog']
    by (cases "map_of (x_stations s) k") (simp_all add: station_view_def rows station_row_of_def stored_station_def)
  moreover have "map_of (x_freqs ?s2) k = map_option (\<lambda>(c, t). (c, from_micros from_us (to_micros t))) (map_of (x_freqs s) k)" for k
    using native_db_laws.started_freqs [OF assms(1) ok assms(14), of k slog']
    by (cases "map_of (x_freqs s) k") (auto simp: freq_view_def rows freq_row_of_def split: prod.splits)
  moreover have "pl = (packet_lifetime_of s1)\<lparr>pl_id := singleton\<rparr>"
    using assms(12) native_db_laws.get_row_Inr [OF assms(1) ok] flush_singletons(1) [of "run_saves tr1" s1 ho "rows d0"]
    by (fastforce simp: load_packet_lifetime_def bind_result_Inr r sv)
  then have "life_totals ?s2 = life_totals s"
    by (simp add: rx_start_def rx_initial_def restored_or_def assms(12) life_totals_def packet_lifetime_of_def t(2) clear_dirty_def)
  moreover have "x_restored ?s2 = Some \<lparr> rs_lifetime_hits = x_slicer_hits s,
        rs_history = map (\<lambda>h. \<lparr> si_timestamp = from_micros from_us (to_micros (si_timestamp h)),
          si_counts = si_counts h \<rparr>) (x_slicer_history s) \<rparr>" if "0 < x_slicer_count s"
  proof -
    have c: "0 < x_slicer_count s1" using that by (simp add: t(2) clear_dirty_def)
    obtain o' where o': "get_row nd d (K_Id T_Slicer singleton) = Inr o'" "sl = (case o' of
        Some (R_Slicer s) \<Rightarrow> Some \<lparr> rs_lifetime_hits = ss_lifetime_hits s,
          rs_history = map (\<lambda>h. \<lparr> si_timestamp = from_micros from_us (sir_ts_micros h),
            si_counts = sir_counts h \<rparr>) (ss_history s) \<rparr> | _ \<Rightarrow> None)"
      using assms(15) by (auto simp: load_slicer_def bind_result_Inr)
    have "o' = rows d (K_Id T_Slicer singleton)" using native_db_laws.get_row_Inr [OF assms(1) ok o'(1)] .
    then have "sl = Some \<lparr> rs_lifetime_hits = x_slicer_hits s1,
        rs_history = map (\<lambda>h. \<lparr> si_timestamp = from_micros from_us (to_micros (si_timestamp h)),
          si_counts = si_counts h \<rparr>) (x_slicer_history s1) \<rparr>"
      using o'(2) flush_singletons(2) [OF c, of "run_saves tr1" ho "rows d0"] by (simp add: r sv comp_def)
    then show ?thesis by (simp add: rx_start_def rx_initial_def restored_or_def assms(15) t(2) clear_dirty_def)
  qed
  ultimately show ?thesis by (simp add: Let_def)
qed

section \<open>A sample run\<close>

fun rx_exec :: "'p rx_env \<Rightarrow> 'p rx_task_event list \<Rightarrow> 'p rx_trace \<times> rx_phase \<times> rx_state \<Rightarrow> ('p rx_trace \<times> rx_phase \<times> rx_state) option" where
  "rx_exec n [] c = Some c"
| "rx_exec n (ev # evs) (tr, ph, s) = (case rx_outer_step n ev ph s of
     Some (ph', s', as) \<Rightarrow> rx_exec n evs (tr @ [(ev, as)], ph', s') | None \<Rightarrow> None)"

lemma rx_exec_run:
  "rx_exec n evs (tr, ph, s) = Some (tr', ph', s') \<Longrightarrow> rx_run n s0 tr ph s \<Longrightarrow> rx_run n s0 tr' ph' s'"
proof (induction evs arbitrary: tr ph s)
  case (Cons ev evs)
  then show ?case by (auto split: option.splits intro: rx_run.rx_next)
qed simp

text \<open>A database with room never fails.\<close>

lemma length_om_insert: "length (om_insert k v m) \<le> Suc (length m)"
  by (induction k v m rule: om_insert.induct) auto

lemma length_mem_op: "length (mem_op x d) \<le> Suc (length d)"
  by (cases x) (simp_all add: length_om_insert om_remove_def le_SucI)

lemma length_mem_dels: "length (fold mem_op (map (\<lambda>k. Del (f k)) ks) d) \<le> length d"
proof (induction ks arbitrary: d)
  case (Cons k ks)
  have "length (mem_op (Del (f k)) d) \<le> length d" by (simp add: om_remove_def)
  with Cons [of "mem_op (Del (f k)) d"] show ?case by simp
qed simp

lemma mem_write_ok:
  assumes "length d < cap"
  shows "\<exists>d'. perform_write (mem_db cap) w d = (d', Inr ()) \<and> length d' \<le> Suc (length d)"
proof -
  have one: "run_txn (mem_db cap) d [x] = (mem_op x d, Inr ())" for x
    using length_mem_op [of x d] assms by (simp add: mem_eval)
  have many: "run_txn (mem_db cap) d (map (\<lambda>k. Del (f k)) ks) = (fold mem_op (map (\<lambda>k. Del (f k)) ks) d, Inr ())"
    for f and ks :: "int list"
    using length_mem_dels [of f ks d] assms by (simp add: mem_eval)
  have rows: "run_txn (mem_db cap) d (map (\<lambda>r. Del (row_key r)) rs) = (fold mem_op (map (\<lambda>r. Del (row_key r)) rs) d, Inr ())" for rs
    using length_mem_dels [of row_key rs d] assms by (simp add: mem_eval)
  have below: "\<exists>rs. nd_below (mem_db cap) d c = Inr rs" for c by (simp add: mem_db_def)
  have prune: "\<exists>d'. prune_packets (mem_db cap) d c = (d', Inr ()) \<and> length d' \<le> Suc (length d)" for c
    using below [of c] rows length_mem_dels [of row_key _ d] by (auto simp: prune_packets_def le_SucI)
  show ?thesis
    by (cases w)
      (simp_all add: save_packet_lifetime_def save_slicer_def delete_station_def delete_freq_def upsert_station_def
        upsert_freq_def delete_sat_packets_def insert_sat_packet_def insert_packet_def one many prune
        length_mem_op length_mem_dels le_SucI del: mem_op.simps)
qed

lemma mem_saves_ok:
  "length d + length ws \<le> cap \<Longrightarrow> \<exists>d' rs. perform_saves (mem_db cap) (map Save ws) d = (d', rs) \<and> (\<forall>r\<in>set rs. is_ok r)"
proof (induction ws arbitrary: d)
  case (Cons w ws)
  then obtain d1 where d1: "perform_write (mem_db cap) w d = (d1, Inr ())" "length d1 \<le> Suc (length d)"
    using mem_write_ok [of d cap w] by auto
  with Cons.IH [of d1] Cons.prems show ?case by fastforce
qed simp

lemma mem_loads: "\<exists>es. load_stations (mem_db cap) from_us d = Inr es" "\<exists>fs. load_freqs (mem_db cap) from_us d = Inr fs"
  "\<exists>pl. load_packet_lifetime (mem_db cap) d = Inr pl" "\<exists>sl. load_slicer (mem_db cap) from_us d = Inr sl"
  by (simp_all add: load_stations_def load_freqs_def load_packet_lifetime_def load_slicer_def mem_eval)

lemma rx_sample_start: "rx_start (mem_db cap) wide_micros (Some []) [] = sample_listener"
  by (simp add: rx_start_def sample_listener_def load_stations_def load_freqs_def load_packet_lifetime_def
      load_slicer_def mem_eval restored_or_def station_rows_def freq_rows_def List.map_filter_simps)

definition rx_sample_trace :: "unit rx_trace" where
  "rx_sample_trace = [(RT_Subscribed, []), (RT_Inner (E_Frame 0 0 0 sample_frame),
       fst (snd (handle_frame sample_env 0 0 0 sample_frame sample_listener))),
     (RT_Cancelled list_order, map Save (counter_writes sample_heard @ dirty_writes list_order sample_heard))]"

lemma sample_frame_step: "handle_frame sample_env 0 0 0 sample_frame sample_listener
    = (sample_heard, fst (snd (handle_frame sample_env 0 0 0 sample_frame sample_listener)), Ends Go)"
proof -
  obtain as f where h: "handle_frame sample_env 0 0 0 sample_frame sample_listener = (sample_heard, as, f)"
    using sample_heard_step by blast
  moreover have "f = Ends Go" using frame_inv [OF h sample_listener_inv] by blast
  ultimately show ?thesis by simp
qed

lemma rx_sample_run: "rx_run sample_env (rx_start (mem_db cap) wide_micros (Some []) []) rx_sample_trace Rx_Done (clear_dirty sample_heard)"
proof -
  have b: "sample_listener\<lparr>x_backoff_secs := initial_backoff\<rparr> = sample_listener"
    by (simp add: sample_listener_def rx_initial_def)
  have "rx_exec sample_env [RT_Subscribed, RT_Inner (E_Frame 0 0 0 sample_frame), RT_Cancelled list_order]
      ([], Rx_Connect, sample_listener) = Some (rx_sample_trace, Rx_Done, clear_dirty sample_heard)"
    by (simp add: b, subst sample_frame_step)
      (simp add: after_arm_def rx_final_flush_def rx_sample_trace_def)
  from rx_exec_run [OF this rx_run.rx_begin] show ?thesis by (simp add: rx_sample_start)
qed

lemma rx_sample_facts: "tick_times rx_sample_trace = []" "\<forall>x\<in>set rx_sample_trace. event_orders_ok (fst x)"
  "heard_packets sample_env rx_sample_trace = [mp_packet sample_mapped]"
  using sample_mapped(1)
  by (simp_all add: rx_sample_trace_def tick_times_def event_orders_ok_def list_order_ok heard_packets_def heard_of_def)

lemma rx_sample_saves: "\<exists>d rs. perform_saves (mem_db (length (run_saves rx_sample_trace))) (concat (map snd rx_sample_trace)) [] = (d, rs)
    \<and> (\<forall>r\<in>set rs. is_ok r)"
  using mem_saves_ok [of "[]" "run_saves rx_sample_trace" "length (run_saves rx_sample_trace)"]
  by (simp add: run_saves_def flip: perform_saves_of)

theorem listener_never_aborts_witness:
  "rx_inv (clear_dirty sample_heard) \<and> x_backoff_secs (clear_dirty sample_heard) \<le> 300"
  using listener_never_aborts [OF rx_sample_run] by (simp add: rx_sample_facts(1))

theorem listener_accounting_witness:
  "x_life_total (clear_dirty sample_heard) = 1 \<and> x_life_direct (clear_dirty sample_heard) = 1
     \<and> columns_ok (clear_dirty sample_heard)"
proof -
  have c: "columns_ok sample_listener" by (simp add: columns_ok_def sample_listener_stations)
  have z: "x_life_total sample_listener = 0" "x_life_direct sample_listener = 0"
    by (simp_all add: sample_listener_def rx_initial_def default_packet_lifetime_def)
  from listener_accounting [OF rx_sample_run rx_inv_start, unfolded rx_sample_start, OF c] show ?thesis
    by (simp add: rx_sample_facts(3) z direct_of_def sample_mapped(4))
qed

theorem store_mirrors_listener_witness:
  "\<exists>cap d e. rx_run sample_env (rx_start (mem_db cap) wide_micros (Some []) []) rx_sample_trace Rx_Done (clear_dirty sample_heard)
     \<and> fst (perform_saves (mem_db cap) (concat (map snd rx_sample_trace)) []) = d
     \<and> map_of d (K_Str T_Station ''N0CALL'') = Some (R_Station (station_from_entry e))
     \<and> map_of (x_stations sample_heard) ''N0CALL'' = Some e"
proof -
  let ?cap = "length (run_saves rx_sample_trace)"
  obtain d rs where d: "perform_saves (mem_db ?cap) (concat (map snd rx_sample_trace)) [] = (d, rs)" "\<forall>r\<in>set rs. is_ok r"
    using rx_sample_saves by blast
  obtain es fs where l: "load_stations (mem_db ?cap) wide_micros [] = Inr es" "load_freqs (mem_db ?cap) wide_micros [] = Inr fs"
    using mem_loads by metis
  have empty: "\<forall>k r. map_of ([] :: mem_state) (K_Str T_Station k) = Some (R_Station r) \<longrightarrow> \<bar>sr_last_heard_micros r\<bar> \<le> 2 ^ 63"
    "\<forall>k r. map_of ([] :: mem_state) (K_Str T_Freq k) = Some (R_Freq r) \<longrightarrow> \<bar>fq_last_heard_micros r\<bar> \<le> 2 ^ 63"
    by simp_all
  have "(\<forall>k. k \<notin> set (x_dirty_stations (clear_dirty sample_heard)) \<longrightarrow> map_of d (K_Str T_Station k)
        = map_option (\<lambda>e. R_Station (station_from_entry e)) (map_of (x_stations (clear_dirty sample_heard)) k))"
    using store_mirrors_listener [OF mem.native_db_laws_axioms mem_ok_Nil l wide_micros_ok empty rx_sample_run
        rx_sample_facts(2) d] by blast
  then have row: "map_of d (K_Str T_Station ''N0CALL'')
      = map_option (\<lambda>e. R_Station (station_from_entry e)) (map_of (x_stations sample_heard) ''N0CALL'')"
    by (simp add: clear_dirty_def)
  obtain e where "map_of (x_stations sample_heard) ''N0CALL'' = Some e"
    using station_after_frame [OF sample_listener_inv sample_frame_step sample_mapped(1) refl]
    unfolding sample_station_key Let_def by blast
  with row d(1) rx_sample_run show ?thesis by (metis fst_conv option.simps(9))
qed

theorem listener_restart_witness:
  "\<exists>cap d. fst (perform_saves (mem_db cap) (concat (map snd rx_sample_trace)) []) = d
     \<and> life_totals (rx_start (mem_db cap) wide_micros None d) = life_totals sample_heard
     \<and> (\<forall>k. map_of (x_stations (rx_start (mem_db cap) wide_micros None d)) k
          = map_option (stored_station wide_micros) (map_of (x_stations sample_heard) k))"
proof -
  let ?cap = "length (run_saves rx_sample_trace)"
  obtain d rs where d: "perform_saves (mem_db ?cap) (concat (map snd rx_sample_trace)) [] = (d, rs)" "\<forall>r\<in>set rs. is_ok r"
    using rx_sample_saves by blast
  obtain es fs where l: "load_stations (mem_db ?cap) wide_micros [] = Inr es" "load_freqs (mem_db ?cap) wide_micros [] = Inr fs"
    using mem_loads by metis
  obtain pl es' fs' sl where l': "load_packet_lifetime (mem_db ?cap) d = Inr pl" "load_stations (mem_db ?cap) wide_micros d = Inr es'"
    "load_freqs (mem_db ?cap) wide_micros d = Inr fs'" "load_slicer (mem_db ?cap) wide_micros d = Inr sl"
    using mem_loads by metis
  have empty: "\<forall>k r. map_of ([] :: mem_state) (K_Str T_Station k) = Some (R_Station r) \<longrightarrow> \<bar>sr_last_heard_micros r\<bar> \<le> 2 ^ 63"
    "\<forall>k r. map_of ([] :: mem_state) (K_Str T_Freq k) = Some (R_Freq r) \<longrightarrow> \<bar>fq_last_heard_micros r\<bar> \<le> 2 ^ 63"
    by simp_all
  have c: "life_totals (clear_dirty sample_heard) = life_totals sample_heard"
    "x_stations (clear_dirty sample_heard) = x_stations sample_heard" by (simp_all add: life_totals_def clear_dirty_def)
  have "life_totals (rx_start (mem_db ?cap) wide_micros None d) = life_totals (clear_dirty sample_heard)
     \<and> (\<forall>k. map_of (x_stations (rx_start (mem_db ?cap) wide_micros None d)) k
          = map_option (stored_station wide_micros) (map_of (x_stations (clear_dirty sample_heard)) k))"
    using listener_restart [OF mem.native_db_laws_axioms mem_ok_Nil l wide_micros_ok empty rx_sample_run
        rx_sample_facts(2) d l', where slog' = None] unfolding Let_def by blast
  then show ?thesis unfolding c using d(1) by (metis fst_conv)
qed

text \<open>
  The marks are cleared before a write is known to have succeeded: a station whose write fails at
  the final flush or at a tick is not written again until it is heard again.
\<close>

lemma failed_write_not_retried:
  assumes "handle_tick n t u now ho s = (s', as, f)"
  shows "x_dirty_stations s' = [] \<and> x_dirty_freqs s' = []"
  using assms by (auto simp: handle_tick_eq Let_def ticked_def clear_dirty_def split: if_splits)

end
