(* ===== verification/Gps_Client.thy ===== *)
theory Gps_Client
  imports Task_Support
begin

text \<open>
  The gpsd client (\<open>src/gpsd.rs\<close>): the rolling fix that \<open>gpsd_task\<close> merges from position and
  satellite reports, the shared fix it keeps for the beacons, the throttled telemetry, and the
  outer connection loop, with runs as an inductive relation.

  The parser of gpsd's JSON is the crate \<open>gpsd_proto\<close> over \<open>serde_json\<close>, and the parser of time
  stamps is chrono's; neither is part of the repository. The records below hold the fields the
  program reads of a report, and the parsers are fields of the parameter \<open>gps_env\<close>.
\<close>

section \<open>Reports\<close>

datatype gps_mode = NoFix | Fix2d | Fix3d

record tpv_report =
  tpv_mode :: gps_mode
  tpv_lat :: "f64 option"
  tpv_lon :: "f64 option"
  tpv_alt_msl :: "f32 option"
  tpv_alt :: "f32 option"
  tpv_time :: "string option"

text \<open>Of a satellite only the flag \<open>used\<close> is read.\<close>

record sky_report =
  sky_hdop :: "f32 option"
  sky_satellites :: "bool list option"

datatype gps_response = Tpv tpv_report | Sky sky_report | Other_Response

text \<open>
  \<open>ge_parse\<close> is \<open>from_str\<close> to a report, \<open>ge_field\<close> the value of a key of the raw JSON object if it
  is an unsigned integer, \<open>ge_time\<close> the parser of RFC 3339, \<open>ge_watch\<close> the watch command.
\<close>

record gps_env =
  ge_parse :: "string \<Rightarrow> gps_response option"
  ge_field :: "string \<Rightarrow> string \<Rightarrow> u64 option"
  ge_time :: "string \<Rightarrow> datetime option"
  ge_watch :: bytes

section \<open>State\<close>

record gps_state =
  g_lat :: "f64 option"
  g_lon :: "f64 option"
  g_alt_ft :: "f64 option"
  g_mode :: u8
  g_time :: "datetime option"
  g_sats_used :: u32
  g_sats_visible :: u32
  g_hdop :: "f64 option"
  g_received_at :: instant
  g_prev_mode :: "u8 option"
  g_last_telem :: "instant option"
  g_backoff_secs :: u64
  g_shared :: "gps_fix option option"

text \<open>The shared fix is None when its lock is poisoned.\<close>

definition gps_initial :: "instant \<Rightarrow> gps_fix option option \<Rightarrow> gps_state" where
  "gps_initial started shared = \<lparr> g_lat = None, g_lon = None, g_alt_ft = None, g_mode = 1, g_time = None,
     g_sats_used = 0, g_sats_visible = 0, g_hdop = None, g_received_at = started, g_prev_mode = None,
     g_last_telem = None, g_backoff_secs = initial_backoff, g_shared = shared \<rparr>"

section \<open>Merging a report\<close>

definition meters_to_feet :: f64 where
  "meters_to_feet = lit64 (328084 / 100000)"

definition telem_interval :: nat where
  "telem_interval = secs 1"

fun mode_number :: "gps_mode \<Rightarrow> u8" where
  "mode_number NoFix = 1"
| "mode_number Fix2d = 2"
| "mode_number Fix3d = 3"

text \<open>\<open>Option::or\<close>.\<close>

fun first_some :: "'a option \<Rightarrow> 'a option \<Rightarrow> 'a option" where
  "first_some (Some x) y = Some x"
| "first_some None y = y"

definition merge_tpv :: "gps_env \<Rightarrow> instant \<Rightarrow> tpv_report \<Rightarrow> gps_state \<Rightarrow> gps_state" where
  "merge_tpv g now tpv s = s\<lparr>g_mode := mode_number (tpv_mode tpv),
     g_lat := tpv_lat tpv, g_lon := tpv_lon tpv,
     g_alt_ft := map_option (\<lambda>m. fp_mul B64 m meters_to_feet) (first_some (tpv_alt_msl tpv) (tpv_alt tpv)),
     g_time := Option.bind (tpv_time tpv) (ge_time g),
     g_received_at := now\<rparr>"

definition merge_sky :: "gps_env \<Rightarrow> string \<Rightarrow> sky_report \<Rightarrow> gps_state \<Rightarrow> gps_state" where
  "merge_sky g line sky s =
     (let s1 = s\<lparr>g_hdop := sky_hdop sky\<rparr>
      in case sky_satellites sky of
           Some used \<Rightarrow> s1\<lparr>g_sats_visible := of_nat (length used), g_sats_used := of_nat (length (filter (\<lambda>b. b) used))\<rparr>
         | None \<Rightarrow>
             (let s2 = (case ge_field g line ''uSat'' of Some n \<Rightarrow> s1\<lparr>g_sats_used := ucast n\<rparr> | None \<Rightarrow> s1)
              in case ge_field g line ''nSat'' of Some n \<Rightarrow> s2\<lparr>g_sats_visible := ucast n\<rparr> | None \<Rightarrow> s2))"

text \<open>None for a line that is not needed.\<close>

definition merge_line :: "gps_env \<Rightarrow> instant \<Rightarrow> string \<Rightarrow> gps_state \<Rightarrow> gps_state option" where
  "merge_line g now line s = (case ge_parse g line of
     Some (Tpv tpv) \<Rightarrow> Some (merge_tpv g now tpv s)
   | Some (Sky sky) \<Rightarrow> Some (merge_sky g line sky s)
   | Some Other_Response \<Rightarrow> None
   | None \<Rightarrow> None)"

definition current_fix :: "gps_state \<Rightarrow> gps_fix" where
  "current_fix s = \<lparr> fix_lat = g_lat s, fix_lon = g_lon s, fix_alt_ft = g_alt_ft s, fix_mode = g_mode s,
     fix_sats_used = g_sats_used s, fix_sats_visible = g_sats_visible s, fix_hdop = g_hdop s,
     fix_time = g_time s, fix_received_at = g_received_at s \<rparr>"

definition gps_report :: "datetime \<Rightarrow> instant \<Rightarrow> gps_fix \<Rightarrow> gps_telemetry" where
  "gps_report local_now now fix = \<lparr> gt_name = ''gps_status'', gt_timestamp = local_now, gt_lat = fix_lat fix,
     gt_lon = fix_lon fix, gt_alt_ft = fix_alt_ft fix, gt_mode = fix_mode fix, gt_sats_used = fix_sats_used fix,
     gt_sats_visible = fix_sats_visible fix, gt_hdop = fix_hdop fix, gt_time = fix_time fix,
     gt_fresh = is_fresh now fix \<rparr>"

section \<open>A line\<close>

datatype gps_action = G_Watch bytes | G_Send app_telemetry

text \<open>
  The readings of the clocks while a line is handled: on receipt, for the throttle, for the
  freshness, for the time of the telemetry, and the wall clock.
\<close>

record gps_clocks =
  gc_received :: instant
  gc_check :: instant
  gc_fresh :: instant
  gc_sent :: instant
  gc_local :: datetime

definition mode_changed :: "gps_state \<Rightarrow> bool" where
  "mode_changed s = (g_prev_mode s \<noteq> Some (g_mode s))"

definition telem_due :: "gps_clocks \<Rightarrow> gps_state \<Rightarrow> bool" where
  "telem_due c s = (case g_last_telem s of None \<Rightarrow> True | Some t \<Rightarrow> telem_interval \<le> elapsed (gc_check c) t)"

definition handle_line :: "gps_env \<Rightarrow> gps_clocks \<Rightarrow> string \<Rightarrow> gps_state \<Rightarrow> gps_state \<times> gps_action list" where
  "handle_line g c line s =
     (let trimmed = str_trim line in
      if trimmed = [] then (s, [])
      else case merge_line g (gc_received c) trimmed s of
        None \<Rightarrow> (s, [])
      | Some s1 \<Rightarrow>
          (let fix = current_fix s1;
               changed = mode_changed s1;
               s2 = (if changed then s1\<lparr>g_prev_mode := Some (fix_mode fix)\<rparr> else s1);
               (s3, as) = (if changed \<or> telem_due c s2
                  then (s2\<lparr>g_last_telem := Some (gc_sent c)\<rparr>, [G_Send (GpsStatus (gps_report (gc_local c) (gc_fresh c) fix))])
                  else (s2, []))
           in (s3\<lparr>g_shared := map_option (\<lambda>_. Some fix) (g_shared s3)\<rparr>, as)))"

section \<open>The connection loop\<close>

text \<open>
  Connecting; asleep until the next attempt; writing the watch command; reading lines; ended. A
  watch command that fails and a connection that ends lead back to connecting at once.
\<close>

datatype gps_phase = Gp_Connect | Gp_Wait | Gp_Watch | Gp_Online | Gp_Done

datatype gps_event =
    GE_Cancelled
  | GE_ResolveFailed
  | GE_NoAddress
  | GE_ConnectFailed
  | GE_ConnectTimeout
  | GE_Waited
  | GE_Connected
  | GE_WatchOk
  | GE_WatchFailed
  | GE_WatchTimeout
  | GE_Line gps_clocks string
  | GE_Closed
  | GE_ReadError

type_synonym gps_result = "gps_phase \<times> gps_state \<times> gps_action list"

text \<open>The cancellation is not raced with the connection and the watch command.\<close>

fun gps_step :: "gps_env \<Rightarrow> gps_event \<Rightarrow> gps_phase \<Rightarrow> gps_state \<Rightarrow> gps_result option" where
  "gps_step g GE_Cancelled Gp_Connect s = Some (Gp_Done, s, [])"
| "gps_step g GE_Cancelled Gp_Wait s = Some (Gp_Done, s, [])"
| "gps_step g GE_Cancelled Gp_Online s = Some (Gp_Done, s, [])"
| "gps_step g GE_ResolveFailed Gp_Connect s = Some (Gp_Wait, s, [])"
| "gps_step g GE_NoAddress Gp_Connect s = Some (Gp_Wait, s, [])"
| "gps_step g GE_ConnectFailed Gp_Connect s = Some (Gp_Wait, s, [])"
| "gps_step g GE_ConnectTimeout Gp_Connect s = Some (Gp_Wait, s, [])"
| "gps_step g GE_Waited Gp_Wait s = Some (Gp_Connect, s\<lparr>g_backoff_secs := next_backoff (g_backoff_secs s)\<rparr>, [])"
| "gps_step g GE_Connected Gp_Connect s = Some (Gp_Watch, s\<lparr>g_backoff_secs := initial_backoff\<rparr>, [])"
| "gps_step g GE_WatchOk Gp_Watch s = Some (Gp_Online, s, [G_Watch (ge_watch g)])"
| "gps_step g GE_WatchFailed Gp_Watch s = Some (Gp_Connect, s, [])"
| "gps_step g GE_WatchTimeout Gp_Watch s = Some (Gp_Connect, s, [])"
| "gps_step g (GE_Line c line) Gp_Online s = (let (s', as) = handle_line g c line s in Some (Gp_Online, s', as))"
| "gps_step g GE_Closed Gp_Online s = Some (Gp_Connect, s, [])"
| "gps_step g GE_ReadError Gp_Online s = Some (Gp_Connect, s, [])"
| "gps_step g _ _ s = None"

type_synonym gps_trace = "(gps_event \<times> gps_action list) list"

inductive gps_run :: "gps_env \<Rightarrow> gps_state \<Rightarrow> gps_trace \<Rightarrow> gps_phase \<Rightarrow> gps_state \<Rightarrow> bool" for g s0 where
  gps_begin: "gps_run g s0 [] Gp_Connect s0"
| gps_next: "gps_run g s0 tr ph s \<Longrightarrow> gps_step g ev ph s = Some (ph', s', as) \<Longrightarrow>
    gps_run g s0 (tr @ [(ev, as)]) ph' s'"

inductive_cases gps_run_NilE: "gps_run g s0 [] ph s"

section \<open>What a line does\<close>

definition needed :: "gps_env \<Rightarrow> string \<Rightarrow> gps_response option" where
  "needed g line = (if str_trim line = [] then None else ge_parse g (str_trim line))"

text \<open>A report as one case: skipped, or merged, shared and perhaps published.\<close>

lemma handle_line_cases:
  assumes "handle_line g c line s = (s', as)"
  obtains "merge_line g (gc_received c) (str_trim line) s = None \<or> str_trim line = []" "s' = s" "as = []"
  | s1 where "str_trim line \<noteq> []" "merge_line g (gc_received c) (str_trim line) s = Some s1"
      "current_fix s' = current_fix s1" "g_shared s' = map_option (\<lambda>_. Some (current_fix s1)) (g_shared s1)"
      "g_prev_mode s' = Some (g_mode s1)" "g_backoff_secs s' = g_backoff_secs s1"
      "if mode_changed s1 \<or> telem_due c s1
       then as = [G_Send (GpsStatus (gps_report (gc_local c) (gc_fresh c) (current_fix s1)))] \<and> g_last_telem s' = Some (gc_sent c)
       else as = [] \<and> g_last_telem s' = g_last_telem s1"
proof (cases "str_trim line = [] \<or> merge_line g (gc_received c) (str_trim line) s = None")
  case True
  then show ?thesis using that(1) assms by (auto simp: handle_line_def Let_def split: if_splits)
next
  case False
  then obtain s1 where s1: "merge_line g (gc_received c) (str_trim line) s = Some s1" by blast
  have due: "telem_due c (s1\<lparr>g_prev_mode := x\<rparr>) = telem_due c s1" for x by (simp add: telem_due_def)
  have same: "current_fix (s1\<lparr>g_prev_mode := x\<rparr>) = current_fix s1" "current_fix (s1\<lparr>g_prev_mode := x, g_last_telem := y\<rparr>) = current_fix s1"
    "current_fix (s1\<lparr>g_last_telem := y\<rparr>) = current_fix s1" "current_fix (s2\<lparr>g_shared := z\<rparr>) = current_fix s2"
    "fix_mode (current_fix s1) = g_mode s1" for x y z s2
    by (simp_all add: current_fix_def)
  show ?thesis using that(2) [OF _ s1] False assms
    by (auto simp: handle_line_def Let_def s1 due same mode_changed_def split: if_splits prod.splits)
qed

lemma merge_line_cases:
  assumes "merge_line g now line s = Some s1"
  obtains tpv where "ge_parse g line = Some (Tpv tpv)" "s1 = merge_tpv g now tpv s"
  | sky where "ge_parse g line = Some (Sky sky)" "s1 = merge_sky g line sky s"
  using assms that by (auto simp: merge_line_def split: option.splits gps_response.splits)

lemma merge_shared [simp]: "g_shared (merge_tpv g now tpv s) = g_shared s" "g_shared (merge_sky g line sky s) = g_shared s"
  "g_prev_mode (merge_tpv g now tpv s) = g_prev_mode s" "g_prev_mode (merge_sky g line sky s) = g_prev_mode s"
  "g_last_telem (merge_tpv g now tpv s) = g_last_telem s" "g_last_telem (merge_sky g line sky s) = g_last_telem s"
  "g_backoff_secs (merge_tpv g now tpv s) = g_backoff_secs s" "g_backoff_secs (merge_sky g line sky s) = g_backoff_secs s"
  "g_mode (merge_sky g line sky s) = g_mode s"
  by (auto simp: merge_tpv_def merge_sky_def Let_def split: option.splits)

lemma merge_tpv_fix: "current_fix (merge_tpv g now tpv s) = (current_fix s)\<lparr>fix_lat := tpv_lat tpv, fix_lon := tpv_lon tpv,
    fix_alt_ft := map_option (\<lambda>m. fp_mul B64 m meters_to_feet) (first_some (tpv_alt_msl tpv) (tpv_alt tpv)),
    fix_mode := mode_number (tpv_mode tpv), fix_time := Option.bind (tpv_time tpv) (ge_time g), fix_received_at := now\<rparr>"
  by (simp add: current_fix_def merge_tpv_def)

lemma merge_sky_fix: "current_fix (merge_sky g line sky s) = (current_fix s)\<lparr>fix_hdop := sky_hdop sky,
    fix_sats_used := (case sky_satellites sky of Some used \<Rightarrow> of_nat (length (filter (\<lambda>b. b) used))
      | None \<Rightarrow> (case ge_field g line ''uSat'' of Some n \<Rightarrow> ucast n | None \<Rightarrow> g_sats_used s)),
    fix_sats_visible := (case sky_satellites sky of Some used \<Rightarrow> of_nat (length used)
      | None \<Rightarrow> (case ge_field g line ''nSat'' of Some n \<Rightarrow> ucast n | None \<Rightarrow> g_sats_visible s))\<rparr>"
  by (auto simp: current_fix_def merge_sky_def Let_def split: option.split)

text \<open>
  A position report sets the position, mode, altitude, time and age of the fix and
  leaves its satellites; a satellite report sets the satellites and the dilution and leaves the
  position, the mode and the age, so that it never makes an old position look fresh; every other
  line changes nothing and is not published. What is merged is what is shared.
\<close>

theorem gps_merge:
  assumes "handle_line g c line s = (s', as)"
  shows "(case needed g line of
      Some (Tpv tpv) \<Rightarrow> current_fix s' = (current_fix s)\<lparr>fix_lat := tpv_lat tpv, fix_lon := tpv_lon tpv,
          fix_alt_ft := map_option (\<lambda>m. fp_mul B64 m meters_to_feet) (first_some (tpv_alt_msl tpv) (tpv_alt tpv)),
          fix_mode := mode_number (tpv_mode tpv), fix_time := Option.bind (tpv_time tpv) (ge_time g),
          fix_received_at := gc_received c\<rparr>
        \<and> g_shared s' = map_option (\<lambda>_. Some (current_fix s')) (g_shared s)
    | Some (Sky sky) \<Rightarrow> (\<exists>used visible. current_fix s' = (current_fix s)\<lparr>fix_hdop := sky_hdop sky,
          fix_sats_used := used, fix_sats_visible := visible\<rparr>
          \<and> (\<forall>bs. sky_satellites sky = Some bs \<longrightarrow> used = of_nat (length (filter (\<lambda>b. b) bs)) \<and> visible = of_nat (length bs)))
        \<and> g_shared s' = map_option (\<lambda>_. Some (current_fix s')) (g_shared s)
    | _ \<Rightarrow> s' = s \<and> as = [])"
  using assms
proof (cases rule: handle_line_cases)
  case 1
  then show ?thesis by (auto simp: needed_def merge_line_def split: option.splits gps_response.splits)
next
  case (2 s1)
  from 2(2) show ?thesis
  proof (cases rule: merge_line_cases)
    case (1 tpv)
    then show ?thesis using 2(1,3,4) by (simp add: needed_def merge_tpv_fix)
  next
    case (2 sky)
    with \<open>str_trim line \<noteq> []\<close> \<open>current_fix s' = current_fix s1\<close> \<open>g_shared s' = map_option (\<lambda>_. Some (current_fix s1)) (g_shared s1)\<close>
    show ?thesis by (simp add: needed_def merge_sky_fix) (rule exI, rule exI, auto)
  qed
qed

section \<open>Along a run\<close>

text \<open>The position reports of a run with the times they were received.\<close>

definition tpv_of :: "gps_env \<Rightarrow> gps_event \<Rightarrow> (instant \<times> tpv_report) list" where
  "tpv_of g ev = (case ev of
     GE_Line c line \<Rightarrow> (case needed g line of Some (Tpv tpv) \<Rightarrow> [(gc_received c, tpv)] | _ \<Rightarrow> [])
   | _ \<Rightarrow> [])"

definition tpvs :: "gps_env \<Rightarrow> gps_trace \<Rightarrow> (instant \<times> tpv_report) list" where
  "tpvs g tr = concat (map (\<lambda>(ev, as). tpv_of g ev) tr)"

text \<open>The telemetry of a run: when the throttle was checked, the time noted, and the mode sent.\<close>

definition send_of :: "gps_event \<times> gps_action list \<Rightarrow> (instant \<times> instant \<times> u8) list" where
  "send_of x = (case x of (GE_Line c line, [G_Send (GpsStatus t)]) \<Rightarrow> [(gc_check c, gc_sent c, gt_mode t)] | _ \<Rightarrow> [])"

definition gps_sends :: "gps_trace \<Rightarrow> (instant \<times> instant \<times> u8) list" where
  "gps_sends tr = concat (map send_of tr)"

lemma gps_snoc [simp]: "tpvs g (tr @ [(ev, as)]) = tpvs g tr @ tpv_of g ev"
  "gps_sends (tr @ [x]) = gps_sends tr @ send_of x"
  by (simp_all add: tpvs_def gps_sends_def)

lemma gps_step_cases:
  assumes "gps_step g ev ph s = Some (ph', s', as)"
  obtains c line where "ev = GE_Line c line" "ph = Gp_Online" "ph' = Gp_Online" "handle_line g c line s = (s', as)"
  | b where "s' = s\<lparr>g_backoff_secs := b\<rparr>" "tpv_of g ev = []" "send_of (ev, as) = []"
      "b \<in> {initial_backoff, g_backoff_secs s, next_backoff (g_backoff_secs s)}"
proof (cases "\<exists>c line. ev = GE_Line c line")
  case True
  then obtain c line where ev: "ev = GE_Line c line" by blast
  then have ph: "ph = Gp_Online" using assms by (cases ph) simp_all
  show ?thesis using that(1) [OF ev ph] assms by (simp add: ev ph split: prod.splits)
next
  case False
  then have "tpv_of g ev = []" "send_of (ev, as) = []" by (auto simp: tpv_of_def send_of_def split: gps_event.splits)
  moreover have "\<exists>b. s' = s\<lparr>g_backoff_secs := b\<rparr> \<and> b \<in> {initial_backoff, g_backoff_secs s, next_backoff (g_backoff_secs s)}"
  proof -
    have "s' = s\<lparr>g_backoff_secs := (case ev of GE_Connected \<Rightarrow> initial_backoff
        | GE_Waited \<Rightarrow> next_backoff (g_backoff_secs s) | _ \<Rightarrow> g_backoff_secs s)\<rparr>"
      using assms False by (cases ev; cases ph; simp)
    moreover have "(case ev of GE_Connected \<Rightarrow> initial_backoff | GE_Waited \<Rightarrow> next_backoff (g_backoff_secs s)
        | _ \<Rightarrow> g_backoff_secs s) \<in> {initial_backoff, g_backoff_secs s, next_backoff (g_backoff_secs s)}"
      by (cases ev) simp_all
    ultimately show ?thesis by blast
  qed
  ultimately show ?thesis using that(2) by blast
qed

definition fix_from_tpvs :: "(instant \<times> tpv_report) list \<Rightarrow> gps_state \<Rightarrow> bool" where
  "fix_from_tpvs ts s = (if ts = [] then g_mode s = 1 else
     (let (t, tpv) = last ts in g_lat s = tpv_lat tpv \<and> g_lon s = tpv_lon tpv \<and> g_mode s = mode_number (tpv_mode tpv)
        \<and> g_received_at s = t))"

definition shared_ok :: "gps_state \<Rightarrow> bool" where
  "shared_ok s = (\<forall>fix. g_shared s = Some (Some fix) \<longrightarrow> fix = current_fix s)"

definition sends_ok :: "(instant \<times> instant \<times> u8) list \<Rightarrow> gps_state \<Rightarrow> bool" where
  "sends_ok xs s = (successively (\<lambda>(c, t, m) (c', t', m'). m = m' \<longrightarrow> t + secs 1 \<le> c') xs
     \<and> (if xs = [] then g_prev_mode s = None else g_prev_mode s = Some (snd (snd (last xs)))
        \<and> g_last_telem s = Some (fst (snd (last xs)))))"

lemma line_step_inv:
  assumes "handle_line g c line s = (s', as)"
    and "fix_from_tpvs ts s" and "shared_ok s" and "sends_ok xs s"
  shows "fix_from_tpvs (ts @ tpv_of g (GE_Line c line)) s' \<and> shared_ok s' \<and> sends_ok (xs @ send_of (GE_Line c line, as)) s'"
  using assms(1)
proof (cases rule: handle_line_cases)
  case 1
  then have "tpv_of g (GE_Line c line) = []" by (auto simp: tpv_of_def needed_def merge_line_def split: option.splits gps_response.splits)
  then show ?thesis using 1 assms(2-4) by (simp add: send_of_def)
next
  case (2 s1)
  have fields: "g_lat s' = g_lat s1 \<and> g_lon s' = g_lon s1 \<and> g_mode s' = g_mode s1 \<and> g_received_at s' = g_received_at s1"
    using 2(3) by (simp add: current_fix_def)
  have merged: "fix_from_tpvs (ts @ tpv_of g (GE_Line c line)) s'"
    using 2(2)
  proof (cases rule: merge_line_cases)
    case (1 tpv)
    then have "tpv_of g (GE_Line c line) = [(gc_received c, tpv)]" using 2(1) by (simp add: tpv_of_def needed_def)
    then show ?thesis using fields 1(2) by (simp add: fix_from_tpvs_def merge_tpv_def)
  next
    case (2 sky)
    then have t: "tpv_of g (GE_Line c line) = []" using \<open>str_trim line \<noteq> []\<close> by (simp add: tpv_of_def needed_def)
    have "g_lat s1 = g_lat s \<and> g_lon s1 = g_lon s \<and> g_mode s1 = g_mode s \<and> g_received_at s1 = g_received_at s"
      unfolding 2(2) by (auto simp: merge_sky_def Let_def split: option.splits)
    then show ?thesis using fields assms(2) t
      by (auto simp: fix_from_tpvs_def case_prod_unfold Let_def split: if_splits)
  qed
  have shared: "shared_ok s'" using 2(3,4) by (auto simp: shared_ok_def)
  have keep: "g_prev_mode s1 = g_prev_mode s" "g_last_telem s1 = g_last_telem s"
    using 2(2) by (cases rule: merge_line_cases; simp)+
  have "sends_ok (xs @ send_of (GE_Line c line, as)) s'"
  proof (cases "mode_changed s1 \<or> telem_due c s1")
    case True
    then have as: "send_of (GE_Line c line, as) = [(gc_check c, gc_sent c, g_mode s1)]" "g_last_telem s' = Some (gc_sent c)"
      using 2(7) by (simp_all add: send_of_def gps_report_def current_fix_def)
    have "successively (\<lambda>(c, t, m) (c', t', m'). m = m' \<longrightarrow> t + secs 1 \<le> c') (xs @ [(gc_check c, gc_sent c, g_mode s1)])"
    proof (cases "xs = []")
      case False
      then have l: "g_prev_mode s1 = Some (snd (snd (last xs)))" "g_last_telem s1 = Some (fst (snd (last xs)))"
        using assms(4) keep by (simp_all add: sends_ok_def)
      have "snd (snd (last xs)) = g_mode s1 \<longrightarrow> fst (snd (last xs)) + secs 1 \<le> gc_check c"
        using True l by (auto simp: mode_changed_def telem_due_def telem_interval_def elapsed_def secs_def)
      then show ?thesis using assms(4) False by (simp add: sends_ok_def successively_append_iff case_prod_unfold)
    qed simp
    then show ?thesis using as 2(5) by (simp add: sends_ok_def)
  next
    case False
    then have "send_of (GE_Line c line, as) = []" "g_last_telem s' = g_last_telem s" "g_prev_mode s' = g_prev_mode s"
      using 2(5,7) keep by (auto simp: send_of_def mode_changed_def)
    then show ?thesis using assms(4) by (simp add: sends_ok_def)
  qed
  with merged shared show ?thesis by blast
qed

lemma gps_run_inv:
  assumes "gps_run g (gps_initial started (Some None)) tr ph s"
  shows "fix_from_tpvs (tpvs g tr) s \<and> shared_ok s \<and> sends_ok (gps_sends tr) s \<and> backoff.in_bounds (g_backoff_secs s)"
  using assms
proof (induction rule: gps_run.induct)
  case gps_begin
  then show ?case
    by (simp add: gps_initial_def tpvs_def gps_sends_def fix_from_tpvs_def shared_ok_def sends_ok_def backoff.in_bounds_first)
next
  case (gps_next tr ph s ev ph' s' as)
  from gps_next.hyps(2) show ?case
  proof (cases rule: gps_step_cases)
    case (1 c line)
    have "g_backoff_secs s' = g_backoff_secs s"
      using 1(4) by (cases rule: handle_line_cases) (auto elim!: merge_line_cases)
    with line_step_inv [OF 1(4), of "tpvs g tr" "gps_sends tr"] gps_next.IH show ?thesis by (simp add: 1(1))
  next
    case (2 b)
    have "backoff.in_bounds b" using 2(4) gps_next.IH backoff.in_bounds_first backoff.in_bounds_succ by blast
    then show ?thesis using gps_next.IH
      by (simp add: 2(1-3) fix_from_tpvs_def shared_ok_def sends_ok_def current_fix_def)
  qed
qed

text \<open>The lines that are merged, and the mode a run has been told last.\<close>

definition is_report :: "gps_env \<Rightarrow> string \<Rightarrow> bool" where
  "is_report g line = (case needed g line of Some (Tpv tpv) \<Rightarrow> True | Some (Sky sky) \<Rightarrow> True | _ \<Rightarrow> False)"

definition reported_mode :: "gps_env \<Rightarrow> gps_trace \<Rightarrow> u8" where
  "reported_mode g tr = (if tpvs g tr = [] then 1 else mode_number (tpv_mode (snd (last (tpvs g tr)))))"

text \<open>Whether a report is published: the first, a change of the mode, or a second after the last message.\<close>

definition publish_due :: "(instant \<times> instant \<times> u8) list \<Rightarrow> u8 \<Rightarrow> instant \<Rightarrow> bool" where
  "publish_due xs m now = (xs = [] \<or> snd (snd (last xs)) \<noteq> m \<or> fst (snd (last xs)) + secs 1 \<le> now)"

lemma mode_reported: "fix_from_tpvs (tpvs g tr) s \<Longrightarrow> g_mode s = reported_mode g tr"
  by (auto simp: fix_from_tpvs_def reported_mode_def case_prod_unfold Let_def split: if_splits)

lemma line_published:
  assumes "handle_line g c line s = (s', as)" and "is_report g line" and "sends_ok xs s"
  shows "(as \<noteq> [] \<longleftrightarrow> publish_due xs (g_mode s') (gc_check c))
    \<and> (as \<noteq> [] \<longrightarrow> send_of (GE_Line c line, as) = [(gc_check c, gc_sent c, g_mode s')])"
  using assms(1)
proof (cases rule: handle_line_cases)
  case 1
  then show ?thesis using assms(2)
    by (auto simp: is_report_def needed_def merge_line_def split: option.splits gps_response.splits if_splits)
next
  case (2 s1)
  have keep: "g_prev_mode s1 = g_prev_mode s" "g_last_telem s1 = g_last_telem s"
    using 2(2) by (cases rule: merge_line_cases; simp)+
  have m: "g_mode s' = g_mode s1" using 2(3) by (simp add: current_fix_def)
  have "mode_changed s1 \<or> telem_due c s1 \<longleftrightarrow> publish_due xs (g_mode s1) (gc_check c)"
    using assms(3) by (auto simp: sends_ok_def mode_changed_def telem_due_def publish_due_def keep
        telem_interval_def elapsed_def secs_def split: if_splits)
  then show ?thesis using 2(7) m
    by (auto simp: send_of_def gps_report_def current_fix_def split: if_splits)
qed

lemma line_not_report:
  assumes "handle_line g c line s = (s', as)" and "\<not> is_report g line"
  shows "as = [] \<and> tpv_of g (GE_Line c line) = []"
  using gps_merge [OF assms(1)] assms(2)
  by (auto simp: is_report_def tpv_of_def split: option.splits gps_response.splits)

lemma decompose_snoc:
  assumes "\<forall>t1 x t2. tr = t1 @ x # t2 \<longrightarrow> P t1 x" and "P tr y"
  shows "\<forall>t1 x t2. tr @ [y] = t1 @ x # t2 \<longrightarrow> P t1 x"
proof (intro allI impI)
  fix t1 x t2 assume "tr @ [y] = t1 @ x # t2"
  then show "P t1 x" using assms by (cases t2 rule: rev_cases) auto
qed

text \<open>Whether an entry of a run after \<open>tr\<close> is published as it should be.\<close>

definition published_well :: "gps_env \<Rightarrow> gps_trace \<Rightarrow> gps_event \<times> gps_action list \<Rightarrow> bool" where
  "published_well g tr x = (\<forall>c line as. x = (GE_Line c line, as) \<longrightarrow>
     (as \<noteq> [] \<longleftrightarrow> is_report g line \<and> publish_due (gps_sends tr) (reported_mode g (tr @ [x])) (gc_check c)))"

lemma gps_run_published:
  assumes "gps_run g (gps_initial started (Some None)) tr ph s"
  shows "(gps_sends tr = [] \<longrightarrow> (\<forall>c line as. (GE_Line c line, as) \<in> set tr \<longrightarrow> \<not> is_report g line))
    \<and> (gps_sends tr \<noteq> [] \<longrightarrow> snd (snd (last (gps_sends tr))) = reported_mode g tr)
    \<and> (\<forall>t1 x t2. tr = t1 @ x # t2 \<longrightarrow> published_well g t1 x)"
  using assms
proof (induction rule: gps_run.induct)
  case (gps_next tr ph s ev ph' s' as)
  let ?new = "tr @ [(ev, as)]"
  note old = gps_run_inv [OF gps_next.hyps(1)] and new = gps_run_inv [OF gps_run.gps_next [OF gps_next.hyps]]
  have m: "g_mode s' = reported_mode g ?new" using new mode_reported by blast
  show ?case
  proof (cases "\<exists>c line. ev = GE_Line c line \<and> is_report g line")
    case True
    then obtain c line where ev: "ev = GE_Line c line" and r: "is_report g line" by blast
    have h: "handle_line g c line s = (s', as)"
      using gps_next.hyps(2) unfolding ev by (cases ph) (simp_all split: prod.splits)
    have p: "as \<noteq> [] \<longleftrightarrow> publish_due (gps_sends tr) (reported_mode g ?new) (gc_check c)"
      "as \<noteq> [] \<longrightarrow> send_of (ev, as) = [(gc_check c, gc_sent c, reported_mode g ?new)]"
      using line_published [OF h r, of "gps_sends tr"] old m by (auto simp: ev)
    have none: "as = [] \<longrightarrow> send_of (ev, as) = []" by (auto simp: send_of_def ev)
    have "gps_sends ?new \<noteq> [] \<and> snd (snd (last (gps_sends ?new))) = reported_mode g ?new"
      using p none by (cases "as = []") (auto simp: publish_due_def)
    moreover have "published_well g tr (ev, as)" using p(1) r by (simp add: published_well_def ev)
    ultimately show ?thesis using gps_next.IH decompose_snoc [of tr "published_well g" "(ev, as)"] by blast
  next
    case False
    have q: "tpv_of g ev = [] \<and> send_of (ev, as) = [] \<and> (\<forall>c line. ev = GE_Line c line \<longrightarrow> as = [])"
      using gps_next.hyps(2)
    proof (cases rule: gps_step_cases)
      case (1 c line)
      then show ?thesis using line_not_report [OF 1(4)] False by (simp add: send_of_def)
    next
      case (2 b)
      have "as = []" if ev: "ev = GE_Line c line" for c line
      proof -
        have "handle_line g c line s = (s', as)"
          using gps_next.hyps(2) unfolding ev by (cases ph) (simp_all split: prod.splits)
        then show ?thesis using line_not_report False ev by blast
      qed
      with 2 show ?thesis by blast
    qed
    then have w: "published_well g tr (ev, as)" using False by (auto simp: published_well_def)
    have e: "reported_mode g ?new = reported_mode g tr" "gps_sends ?new = gps_sends tr"
      using q by (simp_all add: reported_mode_def)
    have d: "\<forall>t1 x t2. ?new = t1 @ x # t2 \<longrightarrow> published_well g t1 x"
      using gps_next.IH by (intro decompose_snoc w) blast
    have n: "\<not> is_report g line" if "gps_sends tr = []" "(GE_Line c line, bs) \<in> set ?new" for c line bs
      using conjunct1 [OF gps_next.IH] that False by auto
    show ?thesis unfolding e using d n conjunct1 [OF conjunct2 [OF gps_next.IH]] by blast
  qed
qed (simp add: gps_sends_def)

text \<open>
  C33. Whatever mixture of reports, errors and reconnections: a shared fix that
  counts as fresh carries the coordinates and the mode of the last position report received, that
  report had a 2D or 3D fix and both coordinates, and it arrived less than 30 seconds ago.
\<close>

theorem gps_position_fresh:
  assumes "gps_run g (gps_initial started (Some None)) tr ph s"
    and "g_shared s = Some (Some fix)" and "is_fresh now fix"
  shows "\<exists>t tpv. tpvs g tr \<noteq> [] \<and> last (tpvs g tr) = (t, tpv) \<and> now < t + secs 30
    \<and> fix_lat fix = tpv_lat tpv \<and> fix_lon fix = tpv_lon tpv \<and> tpv_lat tpv \<noteq> None \<and> tpv_lon tpv \<noteq> None
    \<and> tpv_mode tpv \<in> {Fix2d, Fix3d}"
proof -
  have f: "fix = current_fix s" "fix_from_tpvs (tpvs g tr) s"
    using gps_run_inv [OF assms(1)] assms(2) by (auto simp: shared_ok_def)
  have fresh: "elapsed now (g_received_at s) < secs 30" "2 \<le> g_mode s" "g_lat s \<noteq> None" "g_lon s \<noteq> None"
    using assms(3) by (simp_all add: f(1) is_fresh_def current_fix_def gps_freshness_def)
  have ne: "tpvs g tr \<noteq> []"
  proof
    assume "tpvs g tr = []"
    then have "g_mode s = 1" using f(2) by (simp add: fix_from_tpvs_def)
    with fresh(2) show False by (simp add: word_le_nat_alt)
  qed
  obtain t tpv where l: "last (tpvs g tr) = (t, tpv)" by (cases "last (tpvs g tr)")
  have "g_lat s = tpv_lat tpv" "g_lon s = tpv_lon tpv" "g_mode s = mode_number (tpv_mode tpv)" "g_received_at s = t"
    using f(2) ne l by (simp_all add: fix_from_tpvs_def)
  moreover from this(3) fresh(2) have "tpv_mode tpv \<in> {Fix2d, Fix3d}" by (cases "tpv_mode tpv") (simp_all add: word_le_nat_alt)
  ultimately show ?thesis using ne l fresh by (auto simp: f(1) current_fix_def elapsed_def secs_def)
qed

text \<open>
  C34. The telemetry of the fix is throttled without losing a change of its
  mode. Every line of a run is published exactly when it is a position or satellite report and it
  is the first, or changes the mode from that of the last message, or comes a second or more after
  it; so after any report the last message carries the mode of the last position report (no fix
  before there is one), which is the mode of the fix, and two successive messages with the same
  mode are at least a second apart. The wait between two connections stays between 5 and 300
  seconds.
\<close>

theorem gps_telemetry_throttled:
  assumes "gps_run g (gps_initial started (Some None)) tr ph s"
  shows "successively (\<lambda>(c, t, m) (c', t', m'). m = m' \<longrightarrow> t + secs 1 \<le> c') (gps_sends tr)
    \<and> (\<forall>c line as. (GE_Line c line, as) \<in> set tr \<and> is_report g line \<longrightarrow> gps_sends tr \<noteq> [])
    \<and> (gps_sends tr \<noteq> [] \<longrightarrow> snd (snd (last (gps_sends tr))) = reported_mode g tr)
    \<and> (\<forall>tr1 c line as tr2. tr = tr1 @ (GE_Line c line, as) # tr2 \<longrightarrow>
        (as \<noteq> [] \<longleftrightarrow> is_report g line
          \<and> publish_due (gps_sends tr1) (reported_mode g (tr1 @ [(GE_Line c line, as)])) (gc_check c)))
    \<and> g_mode s = reported_mode g tr
    \<and> 5 \<le> g_backoff_secs s \<and> g_backoff_secs s \<le> 300"
proof -
  have i: "sends_ok (gps_sends tr) s" "backoff.in_bounds (g_backoff_secs s)" "g_mode s = reported_mode g tr"
    using gps_run_inv [OF assms] by (simp_all add: mode_reported)
  have b: "5 \<le> g_backoff_secs s \<and> g_backoff_secs s \<le> 300"
    using i(2) by (simp add: backoff.in_bounds_def) (simp add: initial_backoff_def max_backoff_secs_def)
  have w: "(as \<noteq> [] \<longleftrightarrow> is_report g line
        \<and> publish_due (gps_sends tr1) (reported_mode g (tr1 @ [(GE_Line c line, as)])) (gc_check c))"
    if "tr = tr1 @ (GE_Line c line, as) # tr2" for tr1 c line as tr2
  proof -
    have "published_well g tr1 (GE_Line c line, as)" using gps_run_published [OF assms] that by simp
    then show ?thesis by (simp add: published_well_def)
  qed
  note p = gps_run_published [OF assms]
  show ?thesis
  proof (intro conjI)
    show "successively (\<lambda>(c, t, m) (c', t', m'). m = m' \<longrightarrow> t + secs 1 \<le> c') (gps_sends tr)"
      using i(1) unfolding sends_ok_def by (rule conjunct1)
    show "\<forall>c line as. (GE_Line c line, as) \<in> set tr \<and> is_report g line \<longrightarrow> gps_sends tr \<noteq> []"
      using conjunct1 [OF p] by (intro allI impI notI) (elim conjE, metis)
    show "gps_sends tr \<noteq> [] \<longrightarrow> snd (snd (last (gps_sends tr))) = reported_mode g tr"
      using conjunct1 [OF conjunct2 [OF p]] .
      show "\<forall>tr1 c line as tr2. tr = tr1 @ (GE_Line c line, as) # tr2 \<longrightarrow>
        (as \<noteq> [] \<longleftrightarrow> is_report g line
          \<and> publish_due (gps_sends tr1) (reported_mode g (tr1 @ [(GE_Line c line, as)])) (gc_check c))"
      by (intro allI impI) (rule w)
  qed (use b i(3) in simp_all)
qed

section \<open>A sample run\<close>

definition sample_tpv :: tpv_report where
  "sample_tpv = \<lparr> tpv_mode = Fix3d, tpv_lat = Some (Fin 40), tpv_lon = Some (Fin (- 103)),
     tpv_alt_msl = None, tpv_alt = Some (Fin 0), tpv_time = None \<rparr>"

definition sample_sky :: sky_report where
  "sample_sky = \<lparr> sky_hdop = Some (Fin 1), sky_satellites = Some [True, False, True] \<rparr>"

definition sample_gps :: gps_env where
  "sample_gps = \<lparr> ge_parse = (\<lambda>l. if l = ''tpv'' then Some (Tpv sample_tpv) else if l = ''sky'' then Some (Sky sample_sky) else None),
     ge_field = (\<lambda>l k. None), ge_time = (\<lambda>s. None), ge_watch = ''?WATCH'' \<rparr>"

definition clocks_at :: "nat \<Rightarrow> gps_clocks" where
  "clocks_at t = \<lparr> gc_received = secs t, gc_check = secs t, gc_fresh = secs t, gc_sent = secs t, gc_local = 0 \<rparr>"

lemma sample_lines: "str_trim ''tpv'' = ''tpv''" "str_trim ''sky'' = ''sky''"
  by (simp_all add: str_trim_def utf8_chars_ascii is_ascii_def is_whitespace_def)

theorem gps_merge_witness:
  "fix_sats_used (current_fix (fst (handle_line sample_gps (clocks_at 7) ''sky'' (gps_initial 0 (Some None))))) = 2"
proof -
  obtain s' as where h: "handle_line sample_gps (clocks_at 7) ''sky'' (gps_initial 0 (Some None)) = (s', as)"
    by (metis prod.collapse)
  have n: "needed sample_gps ''sky'' = Some (Sky sample_sky)" by (simp add: needed_def sample_lines sample_gps_def)
  from gps_merge [OF h] show ?thesis unfolding n h by (auto simp: sample_sky_def)
qed

definition gps_after_tpv :: gps_state where
  "gps_after_tpv = fst (handle_line sample_gps (clocks_at 5) ''tpv'' (gps_initial 0 (Some None)))"

definition gps_after_sky :: gps_state where
  "gps_after_sky = fst (handle_line sample_gps (clocks_at 7) ''sky'' gps_after_tpv)"

definition sample_gps_trace :: gps_trace where
  "sample_gps_trace = [(GE_Connected, []), (GE_WatchOk, [G_Watch ''?WATCH'']),
     (GE_Line (clocks_at 5) ''tpv'', snd (handle_line sample_gps (clocks_at 5) ''tpv'' (gps_initial 0 (Some None)))),
     (GE_Line (clocks_at 7) ''sky'', snd (handle_line sample_gps (clocks_at 7) ''sky'' gps_after_tpv))]"

lemma sample_gps_run: "gps_run sample_gps (gps_initial 0 (Some None)) sample_gps_trace Gp_Online gps_after_sky"
proof -
  let ?s0 = "gps_initial 0 (Some None)"
  have b: "?s0\<lparr>g_backoff_secs := initial_backoff\<rparr> = ?s0" by (simp add: gps_initial_def)
  have w: "ge_watch sample_gps = ''?WATCH''" by (simp add: sample_gps_def)
  from gps_run.gps_begin have "gps_run sample_gps ?s0 [] Gp_Connect ?s0" .
  from gps_run.gps_next [OF this, of GE_Connected] have "gps_run sample_gps ?s0 [(GE_Connected, [])] Gp_Watch ?s0" by (simp add: b)
  from gps_run.gps_next [OF this, of GE_WatchOk]
  have "gps_run sample_gps ?s0 [(GE_Connected, []), (GE_WatchOk, [G_Watch ''?WATCH''])] Gp_Online ?s0" by (simp add: w)
  from gps_run.gps_next [OF this, of "GE_Line (clocks_at 5) ''tpv''"]
  have "gps_run sample_gps ?s0 [(GE_Connected, []), (GE_WatchOk, [G_Watch ''?WATCH'']),
     (GE_Line (clocks_at 5) ''tpv'', snd (handle_line sample_gps (clocks_at 5) ''tpv'' ?s0))] Gp_Online gps_after_tpv"
    by (simp add: gps_after_tpv_def case_prod_unfold Let_def)
  from gps_run.gps_next [OF this, of "GE_Line (clocks_at 7) ''sky''"] show ?thesis
    by (simp add: gps_after_sky_def sample_gps_trace_def case_prod_unfold Let_def)
qed

lemma handle_line_merged:
  assumes "str_trim line \<noteq> []" and "merge_line g (gc_received c) (str_trim line) s = Some s1"
  shows "current_fix (fst (handle_line g c line s)) = current_fix s1
    \<and> g_shared (fst (handle_line g c line s)) = map_option (\<lambda>_. Some (current_fix s1)) (g_shared s1)"
proof -
  obtain s' as where h: "handle_line g c line s = (s', as)" by (metis prod.collapse)
  then show ?thesis
  proof (cases rule: handle_line_cases)
    case (2 s2)
    then show ?thesis using assms by (simp add: h)
  qed (use assms in simp)
qed

lemma gps_after_sky_fix: "g_shared gps_after_sky = Some (Some (current_fix gps_after_sky))"
  "is_fresh (secs 34) (current_fix gps_after_sky)" "tpvs sample_gps sample_gps_trace = [(secs 5, sample_tpv)]"
proof -
  have n: "needed sample_gps ''sky'' = Some (Sky sample_sky)" "needed sample_gps ''tpv'' = Some (Tpv sample_tpv)"
    by (simp_all add: needed_def sample_lines sample_gps_def)
  have 1: "merge_line sample_gps (gc_received (clocks_at 5)) (str_trim ''tpv'') s = Some (merge_tpv sample_gps (secs 5) sample_tpv s)" for s
    by (simp add: merge_line_def sample_lines sample_gps_def clocks_at_def)
  have 2: "merge_line sample_gps (gc_received (clocks_at 7)) (str_trim ''sky'') s = Some (merge_sky sample_gps ''sky'' sample_sky s)" for s
    by (simp add: merge_line_def sample_lines sample_gps_def)
  have a: "current_fix gps_after_tpv = current_fix (merge_tpv sample_gps (secs 5) sample_tpv (gps_initial 0 (Some None)))"
      "g_shared gps_after_tpv = Some (Some (current_fix gps_after_tpv))"
    using handle_line_merged [OF _ 1, of "gps_initial 0 (Some None)"]
    by (simp_all add: gps_after_tpv_def sample_lines gps_initial_def)
  have b: "current_fix gps_after_sky = current_fix (merge_sky sample_gps ''sky'' sample_sky gps_after_tpv)"
      "g_shared gps_after_sky = Some (Some (current_fix gps_after_sky))"
    using handle_line_merged [OF _ 2, of gps_after_tpv] a(2)
    by (simp_all add: gps_after_sky_def sample_lines)
  show "g_shared gps_after_sky = Some (Some (current_fix gps_after_sky))" by (rule b(2))
  show "is_fresh (secs 34) (current_fix gps_after_sky)"
    unfolding b(1) merge_sky_fix a(1) merge_tpv_fix
    by (simp add: is_fresh_def elapsed_def gps_freshness_def secs_def sample_tpv_def word_le_nat_alt)
  show "tpvs sample_gps sample_gps_trace = [(secs 5, sample_tpv)]"
    by (simp add: tpvs_def sample_gps_trace_def tpv_of_def n) (simp add: clocks_at_def)
qed

theorem gps_position_fresh_witness:
  "\<exists>fix. g_shared gps_after_sky = Some (Some fix) \<and> is_fresh (secs 34) fix
     \<and> fix_lat fix = Some (Fin 40) \<and> secs 34 < secs 5 + secs 30"
  using gps_position_fresh [OF sample_gps_run gps_after_sky_fix(1,2)] gps_after_sky_fix
  by (auto simp: sample_tpv_def)

theorem gps_telemetry_throttled_witness:
  "snd (snd (last (gps_sends sample_gps_trace))) = 3 \<and> g_mode gps_after_sky = 3 \<and> g_backoff_secs gps_after_sky \<le> 300"
proof -
  have r: "is_report sample_gps ''tpv''" by (simp add: is_report_def needed_def sample_lines sample_gps_def)
  have m: "reported_mode sample_gps sample_gps_trace = 3"
    by (simp add: reported_mode_def gps_after_sky_fix(3)) (simp add: sample_tpv_def)
  have "gps_sends sample_gps_trace \<noteq> []"
    using gps_telemetry_throttled [OF sample_gps_run] r unfolding sample_gps_trace_def by (metis list.set_intros(1) list.set_intros(2))
  then show ?thesis using gps_telemetry_throttled [OF sample_gps_run] m by simp
qed

text \<open>
  A gpsd that accepts the connection and closes it, or refuses the watch command, is connected
  again at once: the backoff has been reset and there is no wait on these paths.
\<close>

lemma closed_reconnects_at_once:
  "gps_step g GE_Closed Gp_Online s = Some (Gp_Connect, s, [])"
  "gps_step g GE_WatchFailed Gp_Watch s = Some (Gp_Connect, s, [])"
  by simp_all

end
