(* ===== verification/Sse_Fanout.thy ===== *)
theory Sse_Fanout
  imports Stat_Store Rx_Packet
begin

text \<open>
  The fan-out to the browsers (\<open>src/sse.rs\<close>): \<open>sse_task\<close> takes every item from the data channel,
  feeds the two kinds of statistics into the rolling history and its table, and forwards the item
  as a server-sent event.

  The JSON of an event is \<open>serde_json\<close>'s; here an event carries the value that is serialised. The
  shared history is None when its lock is poisoned. Nothing depends on whether a browser is
  connected, so the result of a send is left out.
\<close>

section \<open>Events\<close>

datatype sse_data = D_Packet rtp_packet | D_Telemetry app_telemetry | D_Config public_config

record sse_event =
  sse_name :: string
  sse_data :: sse_data

fun telemetry_name :: "app_telemetry \<Rightarrow> string" where
  "telemetry_name (PacketStatus t) = pt_name t"
| "telemetry_name (AprsisStatus t) = at_name t"
| "telemetry_name (SlicerStatus t) = slt_name t"
| "telemetry_name (StationStatus t) = stt_name t"
| "telemetry_name (GpsStatus t) = gt_name t"

fun event_of :: "data_item \<Rightarrow> sse_event" where
  "event_of (Pkt (RTP p)) = \<lparr> sse_name = ''rfpacket'', sse_data = D_Packet p \<rparr>"
| "event_of (Tlm t) = \<lparr> sse_name = telemetry_name t, sse_data = D_Telemetry t \<rparr>"

section \<open>The history\<close>

text \<open>Update, prune, and the buckets to write and to delete; nothing when the lock is poisoned.\<close>

definition feed_history :: "(history_store \<Rightarrow> history_store \<times> int list) \<Rightarrow> datetime \<Rightarrow> history_store option
    \<Rightarrow> history_store option \<times> stat_bucket list \<times> int list" where
  "feed_history upd now hist = (case hist of
     Some h \<Rightarrow> (let (h1, touched) = upd h; (h2, pruned) = prune now h1 in (Some h2, buckets_for touched h2, pruned))
   | None \<Rightarrow> (None, [], []))"

definition persist_history :: "'d native_db \<Rightarrow> stat_bucket list \<Rightarrow> int list \<Rightarrow> 'd \<Rightarrow> 'd \<times> unit result list" where
  "persist_history nd touched pruned d =
     (let (d1, r1) = upsert_buckets nd d touched; (d2, r2) = delete_buckets nd d1 pruned in (d2, [r1, r2]))"

section \<open>The task\<close>

text \<open>\<open>now\<close> is the wall clock when the history is pruned.\<close>

datatype sse_input = SI_Item datetime data_item | SI_Lagged nat | SI_Cancelled

record 'd sse_state =
  sse_history :: "history_store option"
  sse_db :: 'd

definition feed :: "'d native_db \<Rightarrow> (history_store \<Rightarrow> history_store \<times> int list) \<Rightarrow> datetime \<Rightarrow> 'd sse_state
    \<Rightarrow> 'd sse_state \<times> unit result list" where
  "feed nd upd now s = (let (hist, touched, pruned) = feed_history upd now (sse_history s);
     (d, rs) = persist_history nd touched pruned (sse_db s)
     in (s\<lparr>sse_history := hist, sse_db := d\<rparr>, rs))"

fun sse_item :: "'d native_db \<Rightarrow> datetime \<Rightarrow> data_item \<Rightarrow> 'd sse_state \<Rightarrow> 'd sse_state \<times> unit result list" where
  "sse_item nd now (Tlm (PacketStatus t)) s = feed nd (update_from_packet t) now s"
| "sse_item nd now (Tlm (AprsisStatus t)) s = feed nd (update_from_aprsis t) now s"
| "sse_item nd now _ s = (s, [])"

text \<open>The loop: the state at its end, the events forwarded and the results of the writes.\<close>

fun sse_task :: "'d native_db \<Rightarrow> sse_input list \<Rightarrow> 'd sse_state \<Rightarrow> 'd sse_state \<times> sse_event list \<times> unit result list" where
  "sse_task nd [] s = (s, [], [])"
| "sse_task nd (SI_Cancelled # is) s = (s, [], [])"
| "sse_task nd (SI_Lagged n # is) s = sse_task nd is s"
| "sse_task nd (SI_Item now x # is) s =
     (let (s1, rs) = sse_item nd now x s; (s2, evs, rs2) = sse_task nd is s1
      in (s2, event_of x # evs, rs @ rs2))"

section \<open>Forwarding\<close>

definition items_of :: "sse_input list \<Rightarrow> data_item list" where
  "items_of is = List.map_filter (\<lambda>i. case i of SI_Item now x \<Rightarrow> Some x | _ \<Rightarrow> None)
     (takeWhile (\<lambda>i. i \<noteq> SI_Cancelled) is)"

lemma items_of_simps [simp]: "items_of [] = []" "items_of (SI_Cancelled # is) = []"
  "items_of (SI_Lagged n # is) = items_of is" "items_of (SI_Item now x # is) = x # items_of is"
  by (simp_all add: items_of_def List.map_filter_simps)

text \<open>
  Every item taken from the data channel before the cancellation is forwarded to
  the browsers exactly once, in order, under its name, whatever becomes of the history and of the
  writes to the store; lagging loses only the items the channel has dropped.
\<close>

theorem sse_forwards:
  "fst (snd (sse_task nd is s)) = map event_of (items_of is)"
proof (induction "is" arbitrary: s)
  case (Cons i "is")
  then show ?case by (cases i) (simp_all add: case_prod_unfold Let_def)
qed simp

section \<open>The history and its table\<close>

text \<open>
  What the task relies on of an update: it keeps the invariant, the keys it reports exist, and
  every other bucket is as before. Both updates keep the contract.
\<close>

locale history_update =
  fixes upd :: "history_store \<Rightarrow> history_store \<times> int list"
  assumes upd_inv: "history_inv h \<Longrightarrow> history_inv (fst (upd h))"
    and upd_touched: "history_inv h \<Longrightarrow> k \<in> set (snd (upd h)) \<Longrightarrow> map_of (fst (upd h)) k \<noteq> None"
    and upd_other: "history_inv h \<Longrightarrow> k \<notin> set (snd (upd h)) \<Longrightarrow> map_of (fst (upd h)) k = map_of h k"
begin

text \<open>After the prune, the buckets written and deleted cover every bucket that changed.\<close>

lemma feed_covers:
  assumes "history_inv h" and "feed_history upd now (Some h) = (Some h2, touched, pruned)"
  shows "history_inv h2
    \<and> (\<forall>b\<in>set touched. map_of h2 (sb_ts b) = Some b)
    \<and> (\<forall>k. k \<in> set pruned \<longrightarrow> map_of h2 k = None)
    \<and> (\<forall>k. k \<notin> set pruned \<and> k \<notin> sb_ts ` set touched \<longrightarrow> map_of h2 k = map_of h k \<and> k \<notin> set (snd (upd h)))"
proof -
  let ?h1 = "fst (upd h)"
  have inv1: "history_inv ?h1" using upd_inv [OF assms(1)] .
  have om1: "om_inv ?h1" using inv1 by (simp add: history_inv_def)
  have f: "h2 = fst (prune now ?h1)" "touched = buckets_for (snd (upd h)) h2" "pruned = snd (prune now ?h1)"
    using assms(2) by (auto simp: feed_history_def case_prod_unfold Let_def)
  have inv2: "history_inv h2" using prune_inv [OF inv1] f(1) by simp
  have p: "map_of h2 k = (if k < prune_cutoff now then None else map_of ?h1 k)" for k
    using prune_spec [OF om1, of now k] f(1) by simp
  have pr: "k \<in> set pruned \<longleftrightarrow> k < prune_cutoff now \<and> map_of ?h1 k \<noteq> None" for k
    using prune_spec [OF om1, of now k] f(3) om.keys_iff [OF om1, of k] by auto
  have ts: "map_of h2 j = Some b \<Longrightarrow> sb_ts b = j" for j b
    using inv2 by (auto simp: history_inv_lookup bucket_ok_def)
  have written: "\<forall>b\<in>set touched. map_of h2 (sb_ts b) = Some b"
    using ts by (auto simp: f(2) buckets_for_def map_filter_mem)
  have keys: "k \<in> sb_ts ` set touched" if k: "k \<in> set (snd (upd h))" "map_of h2 k \<noteq> None" for k
  proof -
    obtain b where b: "map_of h2 k = Some b" using k(2) by blast
    then have "b \<in> set touched" using k(1) by (auto simp: f(2) buckets_for_def map_filter_mem)
    moreover have "sb_ts b = k" by (rule ts [OF b])
    ultimately show ?thesis by blast
  qed
  have rest: "map_of h2 k = map_of h k \<and> k \<notin> set (snd (upd h))"
    if k: "k \<notin> set pruned" "k \<notin> sb_ts ` set touched" for k
  proof -
    have n: "k \<notin> set (snd (upd h))"
    proof
      assume t: "k \<in> set (snd (upd h))"
      then have "map_of ?h1 k \<noteq> None" by (rule upd_touched [OF assms(1)])
      then have "map_of h2 k \<noteq> None" using p [of k] pr [of k] k(1) by auto
      with keys [OF t] k(2) show False by blast
    qed
    have "map_of ?h1 k = map_of h k" by (rule upd_other [OF assms(1) n])
    moreover have "map_of h2 k = map_of ?h1 k" using p [of k] pr [of k] k(1) by (auto split: if_splits)
    ultimately show ?thesis using n by simp
  qed
  show ?thesis using inv2 written rest pr p by (auto split: if_splits)
qed

end

interpretation packet_update: history_update "update_from_packet t" for t
proof
  fix h k
  assume h: "history_inv h"
  then have "om_inv h" by (simp add: history_inv_def)
  then obtain h' where u: "update_from_packet t h = (h', sort_dedup (packet_keys t))"
    "\<And>k. map_of h' k = packet_bucket t k (map_of h k)" using update_from_packet_spec [of h t] by blast
  show "history_inv (fst (update_from_packet t h))" by (rule update_from_packet_inv [OF h])
  show "map_of (fst (update_from_packet t h)) k \<noteq> None" if "k \<in> set (snd (update_from_packet t h))"
    using that by (simp add: u packet_bucket_None del: not_None_eq)
  show "map_of (fst (update_from_packet t h)) k = map_of h k" if "k \<notin> set (snd (update_from_packet t h))"
    using that by (simp add: u packet_bucket_untouched)
qed

interpretation aprsis_update: history_update "update_from_aprsis t" for t
proof
  fix h k
  assume h: "history_inv h"
  then have "om_inv h" by (simp add: history_inv_def)
  then obtain h' where u: "update_from_aprsis t h = (h', sort_dedup (aprsis_keys t))"
    "\<And>k. map_of h' k = aprsis_bucket t k (map_of h k)" using update_from_aprsis_spec [of h t] by blast
  show "history_inv (fst (update_from_aprsis t h))" by (rule update_from_aprsis_inv [OF h])
  show "map_of (fst (update_from_aprsis t h)) k \<noteq> None" if "k \<in> set (snd (update_from_aprsis t h))"
    using that by (simp add: u aprsis_bucket_None del: not_None_eq)
  show "map_of (fst (update_from_aprsis t h)) k = map_of h k" if "k \<notin> set (snd (update_from_aprsis t h))"
    using that by (simp add: u aprsis_bucket_untouched)
qed

context native_db_laws
begin

text \<open>Both writes of a persist, when they succeed.\<close>

lemma persist_history_view:
  assumes "ok d" and "persist_history nd touched pruned d = (d', rs)" and "\<forall>r\<in>set rs. is_ok r"
  shows "ok d' \<and> bucket_view rows d' = (\<lambda>k. if k \<in> set pruned then None
    else fold (\<lambda>b n. n(sb_ts b \<mapsto> b)) touched (bucket_view rows d) k)"
proof -
  obtain d1 r1 r2 where p: "upsert_buckets nd d touched = (d1, r1)" "delete_buckets nd d1 pruned = (d', r2)" "rs = [r1, r2]"
    using assms(2) by (auto simp: persist_history_def Let_def split: prod.splits)
  obtain u1 u2 where r: "r1 = Inr u1" "r2 = Inr u2" using assms(3) p(3) by (cases r1; cases r2) auto
  have d1: "ok d1" "bucket_view rows d1 = fold (\<lambda>b n. n(sb_ts b \<mapsto> b)) touched (bucket_view rows d)"
    using upsert_buckets_view [OF assms(1)] p(1) r(1) by blast+
  show ?thesis using delete_buckets_view [OF d1(1)] p(2) r(2) d1(2) by metis
qed

text \<open>One feed: the buckets it covers have their rows, whatever the table held before.\<close>

lemma feed_rows:
  assumes "history_update upd" and "ok (sse_db s)" and "sse_history s = Some h" and "history_inv h"
    and "feed nd upd now s = (s', rs)" and "\<forall>r\<in>set rs. is_ok r"
  shows "\<exists>h2. sse_history s' = Some h2 \<and> history_inv h2 \<and> ok (sse_db s')
    \<and> (\<forall>k. bucket_view rows (sse_db s') k = map_of h2 k
        \<or> bucket_view rows (sse_db s') k = bucket_view rows (sse_db s) k \<and> map_of h2 k = map_of h k
          \<and> k \<notin> set (snd (upd h)))"
proof -
  obtain h2 touched pruned where f: "feed_history upd now (Some h) = (Some h2, touched, pruned)"
    by (simp add: feed_history_def case_prod_unfold Let_def)
  obtain d2 where p: "persist_history nd touched pruned (sse_db s) = (d2, rs)" "s' = s\<lparr>sse_history := Some h2, sse_db := d2\<rparr>"
    using assms(5) by (auto simp: feed_def assms(3) f split: prod.splits)
  note c = history_update.feed_covers [OF assms(1,4) f]
  note v = persist_history_view [OF assms(2) p(1) assms(6)]
  have "bucket_view rows d2 k = map_of h2 k
      \<or> bucket_view rows d2 k = bucket_view rows (sse_db s) k \<and> map_of h2 k = map_of h k \<and> k \<notin> set (snd (upd h))" for k
  proof (cases "k \<in> set pruned")
    case True
    then show ?thesis using c v by simp
  next
    case np: False
    show ?thesis
    proof (cases "k \<in> sb_ts ` set touched")
      case True
      then have "fold (\<lambda>b n. n(sb_ts b \<mapsto> b)) touched (bucket_view rows (sse_db s)) k = map_of h2 k"
        by (rule fold_upd_keys(1)) (use c in blast)
      then show ?thesis using v np by simp
    next
      case False
      then have "fold (\<lambda>b n. n(sb_ts b \<mapsto> b)) touched (bucket_view rows (sse_db s)) k = bucket_view rows (sse_db s) k"
        by (rule fold_upd_keys(2))
      then show ?thesis using v np False c by simp
    qed
  qed
  then show ?thesis using c v p(2) by auto
qed

definition history_mirror :: "'d sse_state \<Rightarrow> bool" where
  "history_mirror s = (ok (sse_db s) \<and> (\<forall>h. sse_history s = Some h \<longrightarrow> history_inv h \<and> bucket_view rows (sse_db s) = map_of h))"

lemma poisoned_feed:
  "sse_history s = None \<Longrightarrow> feed nd upd now s = (s', rs) \<Longrightarrow> ok (sse_db s) \<Longrightarrow> sse_history s' = None \<and> ok (sse_db s')"
  using run_txn_ok [of "sse_db s" "[]"]
  by (auto simp: feed_def feed_history_def persist_history_def upsert_buckets_def delete_buckets_def Let_def split: prod.splits)

lemma feed_mirror:
  assumes "history_update upd" and "history_mirror s" and "feed nd upd now s = (s', rs)" and "\<forall>r\<in>set rs. is_ok r"
  shows "history_mirror s'"
proof (cases "sse_history s")
  case None
  then show ?thesis using poisoned_feed [OF None assms(3)] assms(2) by (simp add: history_mirror_def)
next
  case (Some h)
  then have m: "ok (sse_db s)" "history_inv h" "bucket_view rows (sse_db s) = map_of h"
    using assms(2) by (simp_all add: history_mirror_def)
  obtain h2 where "sse_history s' = Some h2" "history_inv h2" "ok (sse_db s')"
      "\<forall>k. bucket_view rows (sse_db s') k = map_of h2 k
        \<or> bucket_view rows (sse_db s') k = bucket_view rows (sse_db s) k \<and> map_of h2 k = map_of h k \<and> k \<notin> set (snd (upd h))"
    using feed_rows [OF assms(1) m(1) Some m(2) assms(3,4)] by blast
  then show ?thesis using m(3) by (auto simp: history_mirror_def fun_eq_iff)
qed

lemma item_mirror:
  assumes "history_mirror s" and "sse_item nd now x s = (s', rs)" and "\<forall>r\<in>set rs. is_ok r"
  shows "history_mirror s'"
proof (cases x)
  case (Pkt p)
  then show ?thesis using assms by simp
next
  case (Tlm t)
  show ?thesis
  proof (cases t)
    case (PacketStatus u)
    then have "feed nd (update_from_packet u) now s = (s', rs)" using assms(2) by (simp add: Tlm)
    then show ?thesis by (rule feed_mirror [OF packet_update.history_update_axioms assms(1) _ assms(3)])
  next
    case (AprsisStatus u)
    then have "feed nd (update_from_aprsis u) now s = (s', rs)" using assms(2) by (simp add: Tlm)
    then show ?thesis by (rule feed_mirror [OF aprsis_update.history_update_axioms assms(1) _ assms(3)])
  qed (use assms in \<open>simp_all add: Tlm\<close>)
qed

lemma task_mirror:
  "history_mirror s \<Longrightarrow> sse_task nd is s = (s', evs, rs) \<Longrightarrow> \<forall>r\<in>set rs. is_ok r \<Longrightarrow> history_mirror s'"
proof (induction "is" arbitrary: s evs rs)
  case (Cons i "is")
  show ?case
  proof (cases i)
    case (SI_Item now x)
    obtain s1 rs1 evs2 rs2 where a: "sse_item nd now x s = (s1, rs1)" "sse_task nd is s1 = (s', evs2, rs2)" "rs = rs1 @ rs2"
      using Cons.prems(2) by (auto simp: SI_Item Let_def split: prod.splits)
    have "history_mirror s1" using item_mirror [OF Cons.prems(1) a(1)] Cons.prems(3) a(3) by simp
    from Cons.IH [OF this a(2)] Cons.prems(3) a(3) show ?thesis by simp
  qed (use Cons in auto)
qed simp

lemma mirror_reload:
  assumes "history_mirror s" and "sse_history s = Some h" and "load_buckets nd (sse_db s) = Inr bs"
  shows "from_buckets bs = h"
  using mirror_load [of "sse_db s" h bs] assms by (simp add: history_mirror_def)

end

text \<open>
  C35. As long as no write to the store fails, the bucket table shows exactly the
  history in memory after every item, however the two streams interleave and whatever the pruning
  removes; so the history read back from the table is the one in memory. The history is kept in the
  store, not in memory alone.
\<close>

theorem history_mirrored:
  assumes "native_db_laws nd rows ok" and "ok d" and "history_inv h" and "bucket_view rows d = map_of h"
    and "sse_task nd is \<lparr> sse_history = Some h, sse_db = d \<rparr> = (s', evs, rs)" and "\<forall>r\<in>set rs. is_ok r"
    and "sse_history s' = Some h'"
  shows "history_inv h' \<and> bucket_view rows (sse_db s') = map_of h'
    \<and> (\<forall>bs. load_buckets nd (sse_db s') = Inr bs \<longrightarrow> from_buckets bs = h')"
proof -
  have "native_db_laws.history_mirror rows ok \<lparr> sse_history = Some h, sse_db = d \<rparr>"
    using assms(2-4) by (simp add: native_db_laws.history_mirror_def [OF assms(1)])
  then have m: "native_db_laws.history_mirror rows ok s'"
    by (rule native_db_laws.task_mirror [OF assms(1) _ assms(5,6)])
  then show ?thesis
    using native_db_laws.mirror_reload [OF assms(1) m assms(7)] assms(7)
    by (simp add: native_db_laws.history_mirror_def [OF assms(1)])
qed

text \<open>
  A write that failed is made good by the next telemetry of its stream: a
  series carries its last 100 intervals, and after an update whose writes succeed every bucket
  with a point in the telemetry has its row, whatever the table held before. The buckets it does
  not mention keep their rows.
\<close>

theorem history_retry:
  assumes "native_db_laws nd rows ok" and "ok (sse_db s)" and "sse_history s = Some h" and "history_inv h"
    and "sse_item nd now (Tlm (PacketStatus t)) s = (s', rs)" and "\<forall>r\<in>set rs. is_ok r"
  shows "\<exists>h2. sse_history s' = Some h2 \<and> (\<forall>k\<in>set (packet_keys t). bucket_view rows (sse_db s') k = map_of h2 k)
    \<and> (\<forall>k. bucket_view rows (sse_db s') k \<noteq> map_of h2 k \<longrightarrow>
        bucket_view rows (sse_db s') k = bucket_view rows (sse_db s) k \<and> map_of h2 k = map_of h k)"
proof -
  have f: "feed nd (update_from_packet t) now s = (s', rs)" using assms(5) by simp
  have "om_inv h" using assms(4) by (simp add: history_inv_def)
  then have t: "set (snd (update_from_packet t h)) = set (packet_keys t)"
    using update_from_packet_spec [of h t] by auto
  show ?thesis
    using native_db_laws.feed_rows [OF assms(1) packet_update.history_update_axioms assms(2-4) f assms(6)] unfolding t by blast
qed

section \<open>A sample\<close>

lemma mem_upserts_ok:
  assumes "length d + length bs \<le> cap"
  shows "\<exists>d'. upsert_buckets (mem_db cap) d bs = (d', Inr ()) \<and> length d' \<le> length d + length bs"
proof -
  have len: "length (fold mem_op (map (\<lambda>b. Put (f b)) bs) d) \<le> length d + length bs" for f
  proof (induction bs arbitrary: d)
    case (Cons b bs)
    have "length (om_insert k r d) \<le> Suc (length d)" for k r
      by (induction k r d rule: om_insert.induct) auto
    then have "length (mem_op (Put (f b)) d) \<le> Suc (length d)" by simp
    with Cons.IH [of "mem_op (Put (f b)) d"] show ?case by simp
  qed simp
  let ?d = "fold mem_op (map (\<lambda>b. Put (R_Bucket (bucket_rec_of b))) bs) d"
  have "length ?d \<le> cap" using len [of "\<lambda>b. R_Bucket (bucket_rec_of b)"] assms by simp
  then have "upsert_buckets (mem_db cap) d bs = (?d, Inr ())" by (simp add: upsert_buckets_def mem_eval Let_def)
  then show ?thesis using len [of "\<lambda>b. R_Bucket (bucket_rec_of b)"] by (intro exI [of _ ?d] conjI)
qed

definition fed_history :: "history_store" where
  "fed_history = fst (prune 0 (fst (update_from_packet sample_packet_telemetry [])))"

definition fed_touched :: "stat_bucket list" where
  "fed_touched = buckets_for (snd (update_from_packet sample_packet_telemetry [])) fed_history"

lemma empty_history: "history_inv []"
  by (simp add: history_inv_def om_inv_def)

lemma sample_feed:
  assumes "length fed_touched \<le> cap"
  shows "\<exists>d. length d \<le> length fed_touched \<and> sse_item (mem_db cap) 0 (Tlm (PacketStatus sample_packet_telemetry)) \<lparr> sse_history = Some [], sse_db = [] \<rparr>
     = (\<lparr> sse_history = Some fed_history, sse_db = d \<rparr>, [Inr (), Inr ()])"
proof -
  have p: "snd (prune 0 (fst (update_from_packet sample_packet_telemetry []))) = []"
  proof -
    have "om_inv ([] :: history_store)" by (simp add: om_inv_def)
    then obtain h' where h: "update_from_packet sample_packet_telemetry [] = (h', sort_dedup (packet_keys sample_packet_telemetry))"
      "om_inv h'" "\<And>k. map_of h' k = packet_bucket sample_packet_telemetry k None"
      using update_from_packet_spec [of "[]" sample_packet_telemetry] by auto
    have "k \<notin> set (map fst h')" if "k < prune_cutoff 0" for k
    proof -
      have "k \<notin> set (packet_keys sample_packet_telemetry)"
        using that by (auto simp: packet_keys_def series_keys_def sample_packet_telemetry_def sample_series_def point_key_def
            prune_cutoff_def bucket_key_def bucket_secs_def retention_secs_def timestamp_def nanos_per_sec_def)
      then have "map_of h' k = None" by (simp add: h(3) packet_bucket_untouched)
      then show ?thesis using om.keys_iff [OF h(2), of k] by simp
    qed
    then show ?thesis using prune_spec [OF h(2), of 0] by (auto simp: h(1) filter_empty_conv)
  qed
  obtain d where d: "upsert_buckets (mem_db cap) [] fed_touched = (d, Inr ())" "length d \<le> length fed_touched"
    using mem_upserts_ok [of "[]" fed_touched cap] assms by auto
  have "feed_history (update_from_packet sample_packet_telemetry) 0 (Some []) = (Some fed_history, fed_touched, [])"
    using p by (simp add: feed_history_def case_prod_unfold Let_def fed_history_def fed_touched_def)
  then show ?thesis by (simp add: feed_def persist_history_def d delete_buckets_def)
qed

theorem history_mirrored_witness:
  "\<exists>s' evs rs. sse_task (mem_db (length fed_touched)) [SI_Item 0 (Tlm (PacketStatus sample_packet_telemetry)), SI_Cancelled]
       \<lparr> sse_history = Some [], sse_db = [] \<rparr> = (s', evs, rs)
     \<and> bucket_view map_of (sse_db s') = map_of fed_history"
proof -
  obtain d where d: "sse_item (mem_db (length fed_touched)) 0 (Tlm (PacketStatus sample_packet_telemetry))
      \<lparr> sse_history = Some [], sse_db = [] \<rparr> = (\<lparr> sse_history = Some fed_history, sse_db = d \<rparr>, [Inr (), Inr ()])"
    using sample_feed [OF order_refl] by blast
  let ?s = "\<lparr> sse_history = Some fed_history, sse_db = d \<rparr>"
  have run: "sse_task (mem_db (length fed_touched)) [SI_Item 0 (Tlm (PacketStatus sample_packet_telemetry)), SI_Cancelled]
      \<lparr> sse_history = Some [], sse_db = [] \<rparr> = (?s, [event_of (Tlm (PacketStatus sample_packet_telemetry))], [Inr (), Inr ()])"
    unfolding sse_task.simps d by simp
  have v: "bucket_view map_of ([] :: mem_state) = map_of []" by (simp add: bucket_view_def fun_eq_iff)
  have "bucket_view map_of (sse_db ?s) = map_of fed_history"
    using history_mirrored [OF mem.native_db_laws_axioms mem_ok_Nil empty_history v run] by simp
  with run show ?thesis by blast
qed

theorem history_retry_witness:
  "\<exists>d h. fst (sse_item (mem_db (length fed_touched)) 0 (Tlm (PacketStatus sample_packet_telemetry))
      \<lparr> sse_history = Some [], sse_db = [] \<rparr>) = \<lparr> sse_history = Some h, sse_db = d \<rparr>
     \<and> (\<forall>k\<in>set (packet_keys sample_packet_telemetry). bucket_view map_of d k = map_of h k)"
proof -
  obtain d where d: "sse_item (mem_db (length fed_touched)) 0 (Tlm (PacketStatus sample_packet_telemetry))
      \<lparr> sse_history = Some [], sse_db = [] \<rparr> = (\<lparr> sse_history = Some fed_history, sse_db = d \<rparr>, [Inr (), Inr ()])"
    using sample_feed [OF order_refl] by blast
  have "mem_ok (sse_db \<lparr> sse_history = Some [], sse_db = [] \<rparr>)" by (simp add: mem_ok_Nil)
  from history_retry [OF mem.native_db_laws_axioms this _ empty_history d]
  have "\<forall>k\<in>set (packet_keys sample_packet_telemetry). bucket_view map_of d k = map_of fed_history k" by simp
  with d show ?thesis by simp
qed

end
