(* ===== verification/System_Flow.thy ===== *)
theory System_Flow
  imports Aprs_Is_Task Rx_Task Gps_Client Sse_Fanout "HOL-Library.Sublist"
begin

text \<open>
  The tasks together. The listener, the APRS-IS task, the gpsd client and the SSE task run
  concurrently and share the data channel, a broadcast channel of 128 items (\<open>main.rs\<close>): what one of
  them sends reaches every task that has subscribed. This theory composes their runs over the
  channel: which packets reach the server and the browsers, how the counters of the two sides add
  up, that the flag the browsers show is the fate of the packet, and that a cancellation ends every
  task from wherever it is.

  The channel is tokio's and not part of the repository. What the program relies on of it is its
  documentation: a receiver gets what was sent since it subscribed, in order, except that a
  receiver that has fallen behind is told how many of the oldest items it has lost and goes on
  after them. \<open>delivers\<close> states this of the items sent and what a receiver has got so far; it is a
  hypothesis of the properties that need it.
\<close>

section \<open>The data channel\<close>

datatype 'a received = Got 'a | Gap nat

fun delivers :: "'a list \<Rightarrow> 'a received list \<Rightarrow> bool" where
  "delivers sent [] = True"
| "delivers (x # sent) (Got y # rs) = (x = y \<and> delivers sent rs)"
| "delivers [] (Got y # rs) = False"
| "delivers sent (Gap n # rs) = (n \<le> length sent \<and> delivers (drop n sent) rs)"

fun got :: "'a received list \<Rightarrow> 'a list" where
  "got [] = []"
| "got (Got x # rs) = x # got rs"
| "got (Gap n # rs) = got rs"

fun lost :: "'a received list \<Rightarrow> nat" where
  "lost [] = 0"
| "lost (Got x # rs) = lost rs"
| "lost (Gap n # rs) = n + lost rs"

lemma got_append [simp]: "got (xs @ ys) = got xs @ got ys"
  by (induction xs rule: got.induct) auto

lemma lost_append [simp]: "lost (xs @ ys) = lost xs + lost ys"
  by (induction xs rule: lost.induct) auto

lemma delivers_subseq: "delivers sent rs \<Longrightarrow> subseq (got rs) sent"
proof (induction sent rs rule: delivers.induct)
  case (4 sent n rs)
  then have "subseq (got rs) (drop n sent)" by simp
  moreover have "subseq (drop n sent) sent" by (rule suffix_imp_subseq [OF suffix_drop])
  ultimately show ?case using subseq_order.order_trans by auto
qed simp_all


section \<open>What goes through it\<close>

text \<open>The packets among the items, and those the listener sends.\<close>

fun item_packet :: "data_item \<Rightarrow> rtp_packet option" where
  "item_packet (Pkt (RTP p)) = Some p"
| "item_packet (Tlm t) = None"

definition packets_in :: "data_item list \<Rightarrow> rtp_packet list" where
  "packets_in items = List.map_filter item_packet items"

definition sends :: "rx_action list \<Rightarrow> data_item list" where
  "sends as = List.map_filter (\<lambda>a. case a of Send x \<Rightarrow> Some x | Save w \<Rightarrow> None) as"

definition published :: "'p rx_trace \<Rightarrow> rtp_packet list" where
  "published tr = packets_in (sends (concat (map snd tr)))"

text \<open>
  What the APRS-IS task takes from the channel, as its events show it: packets with their contents,
  other items without.
\<close>

definition aprs_inputs :: "trace \<Rightarrow> rtp_packet option received list" where
  "aprs_inputs tr = List.map_filter (\<lambda>(ev, as). case ev of
     T_Inner (Ev_Packet now clock w p) \<Rightarrow> Some (Got (Some p))
   | T_Inner (Ev_Lagged n) \<Rightarrow> Some (Gap (unat n))
   | T_Inner Ev_Other \<Rightarrow> Some (Got None)
   | _ \<Rightarrow> None) tr"

definition sse_inputs :: "sse_input list \<Rightarrow> data_item received list" where
  "sse_inputs is = List.map_filter (\<lambda>i. case i of
     SI_Item now x \<Rightarrow> Some (Got x) | SI_Lagged n \<Rightarrow> Some (Gap n) | SI_Cancelled \<Rightarrow> None)
     (takeWhile (\<lambda>i. i \<noteq> SI_Cancelled) is)"

text \<open>The packets the APRS-IS task takes.\<close>

definition taken :: "trace \<Rightarrow> rtp_packet list" where
  "taken tr = List.map_filter (\<lambda>x. x) (got (aprs_inputs tr))"

lemma map_filter_append [simp]: "List.map_filter f (xs @ ys) = List.map_filter f xs @ List.map_filter f ys"
  by (simp add: List.map_filter_def)

lemma map_filter_single: "List.map_filter f [x] = (case f x of Some y \<Rightarrow> [y] | None \<Rightarrow> [])"
  by (simp add: List.map_filter_simps split: option.split)

lemma map_filter_map_id: "List.map_filter (\<lambda>x. x) (map f xs) = List.map_filter f xs"
  by (induction xs) (simp_all add: List.map_filter_simps split: option.split)


lemma subseq_map_filter: "subseq xs ys \<Longrightarrow> subseq (List.map_filter f xs) (List.map_filter f ys)"
  unfolding List.map_filter_def by (intro subseq_map subseq_filter)

lemma taken_snoc: "taken (tr @ [(ev, as)]) = taken tr @ (case ev of T_Inner (Ev_Packet now clock w p) \<Rightarrow> [p] | _ \<Rightarrow> [])"
  by (simp add: taken_def aprs_inputs_def map_filter_single split: task_event.split inner_event.split)


text \<open>The task takes packets in the order they were sent, and what it does not take is accounted for.\<close>

lemma taken_subseq:
  assumes "delivers (map item_packet sent) (aprs_inputs tr)"
  shows "subseq (taken tr) (packets_in sent)"
  using subseq_map_filter [OF delivers_subseq [OF assms], of "\<lambda>x. x"]
  by (simp add: taken_def packets_in_def map_filter_map_id)


section \<open>What the listener publishes\<close>

text \<open>The packet of a frame, but for the flags the listener sets.\<close>

definition same_packet :: "rtp_packet \<Rightarrow> rtp_packet \<Rightarrow> bool" where
  "same_packet p q = (p = q\<lparr>p_is_satellite := p_is_satellite p, p_igated := p_igated p, p_twist := p_twist p\<rparr>)"

lemma frame_published_packets:
  assumes "handle_frame n lnow t1 t2 fr s = (s', as, f)" and "slicers_ok s"
  shows "list_all2 same_packet (packets_in (sends as)) (heard_of n (RT_Inner (E_Frame lnow t1 t2 fr)))
    \<and> (\<forall>p\<in>set (packets_in (sends as)). p_igated p \<longleftrightarrow> droppacket t2 p = None)"
  using assms
proof (cases rule: handle_frame_cases)
  case 1
  then show ?thesis by (simp add: heard_of_def packets_in_def sends_def List.map_filter_simps)
next
  case (2 mp p iv hits s1)
  have a: "packets_in (sends as) = [p]" by (simp add: 2(8) packets_in_def sends_def List.map_filter_simps)
  have "same_packet p (mp_packet mp)" unfolding same_packet_def 2(3) by (rule judged_packet_eq)
  moreover have "p_igated p \<longleftrightarrow> droppacket t2 p = None" unfolding 2(3) by (rule judged_packet_flags)
  ultimately show ?thesis by (simp add: a heard_of_def 2(1))
qed

lemma sends_append [simp]: "sends (xs @ ys) = sends xs @ sends ys"
  by (simp add: sends_def)

lemma sends_simps [simp]: "sends [] = []" "sends (Send x # as) = x # sends as" "sends (Save w # as) = sends as"
  by (simp_all add: sends_def List.map_filter_simps)

lemma sends_map_Send [simp]: "sends (map Send xs) = xs"
  by (induction xs) simp_all

lemma sends_map_Save [simp]: "sends (map Save ws) = []"
  by (induction ws) simp_all

lemma tick_published:
  assumes "handle_tick n the_time utc now ho s = (s', as, f)"
  shows "packets_in (sends as) = []"
  using assms
  by (auto simp: handle_tick_eq Let_def tick_sends_def packets_in_def List.map_filter_simps split: if_splits)

lemma published_snoc: "published (tr @ [(ev, as)]) = published tr @ packets_in (sends as)"
  by (simp add: published_def packets_in_def)

section \<open>From a frame to the server\<close>

text \<open>
  The listener judges a packet when its frame arrives and publishes it with a flag for the display;
  the APRS-IS task judges it again when it takes it from the channel.
\<close>

lemma still_gated:
  assumes "droppacket t p = None" and "elapsed now (p_received_instant p) \<le> age_threshold"
  shows "droppacket now p = None"
proof -
  have "\<not> rule_fires now p r" for r
  proof (cases r)
    case Stale
    then show ?thesis using assms(2) by (simp flip: stale_fires)
  next
    case MalformedField
    then show ?thesis using assms(1) droppacket_None [of t p] by (metis rule_fires.simps(1))
  next
    case RfOnly
    then show ?thesis using assms(1) droppacket_None [of t p] by (metis rule_fires.simps(3))
  next
    case GenericQuery
    then show ?thesis using assms(1) droppacket_None [of t p] by (metis rule_fires.simps(4))
  next
    case ThirdPartyInternet
    then show ?thesis using assms(1) droppacket_None [of t p] by (metis rule_fires.simps(5))
  next
    case SatelliteDirect
    then show ?thesis using assms(1) droppacket_None [of t p] by (metis rule_fires.simps(6))
  qed
  then show ?thesis using droppacket_None by blast
qed

lemma igated_flag:
  assumes "rx_inv s" and "handle_frame n lnow t1 t2 fr s = (s', as, f)" and "Send (Pkt (RTP p)) \<in> set as" and "t2 \<le> now"
  shows "(\<not> p_igated p \<longrightarrow> fst (snd (handle_packet u now clock w p t)) = [])
    \<and> (p_igated p \<and> u_igating u \<and> u_rw u \<and> elapsed now (p_received_instant p) \<le> secs 30
        \<and> \<not> cache_hit (timestamp clock) (dedup_key p) (v_dedup_cache t)
        \<and> \<not> embedded_crlf (for_rxigate_bytes p (u_callsign u))
      \<longrightarrow> fst (snd (handle_packet u now clock w p t)) = [A_Write (for_rxigate_bytes p (u_callsign u) @ crlf) w])"
proof -
  have ok: "slicers_ok s" using assms(1) by (simp add: rx_inv_def)
  have flag: "p_igated p \<longleftrightarrow> droppacket t2 p = None"
    using assms(2) ok
  proof (cases rule: handle_frame_cases)
    case (2 mp q iv hits s1)
    have "p = q" using assms(3) unfolding 2(8) by (simp split: if_splits)
    moreover have "p_igated q \<longleftrightarrow> droppacket t2 q = None" unfolding 2(3) by (rule judged_packet_flags)
    ultimately show ?thesis by (simp only:)
  qed (use assms(3) in simp)
  have c: "v_dedup_cache (count_received p t) = v_dedup_cache t" by (simp add: count_received_def Let_def)
  show ?thesis
  proof (intro conjI impI)
    assume "\<not> p_igated p"
    then have "droppacket t2 p \<noteq> None" using flag by simp
    then have "droppacket now p \<noteq> None" using droppacket_mono [of now p t2] assms(4) by metis
    then obtain r where "droppacket now p = Some r" by (rule not_None_eq [THEN iffD1, THEN exE])
    then show "fst (snd (handle_packet u now clock w p t)) = []" by (simp add: handle_packet_def Let_def)
  next
    assume a: "p_igated p \<and> u_igating u \<and> u_rw u \<and> elapsed now (p_received_instant p) \<le> secs 30
        \<and> \<not> cache_hit (timestamp clock) (dedup_key p) (v_dedup_cache t)
        \<and> \<not> embedded_crlf (for_rxigate_bytes p (u_callsign u))"
    have "droppacket now p = None" using still_gated [of t2 p now] flag a by (simp add: age_threshold_def)
    with a show "fst (snd (handle_packet u now clock w p t)) = [A_Write (for_rxigate_bytes p (u_callsign u) @ crlf) w]"
      by (simp add: handle_packet_def igate_packet_def Let_def c)
  qed
qed

text \<open>
  C4. The flag shown to the browsers is the fate of the packet: a packet
  published as not igated is never written to APRS-IS, whenever the other task takes it; one
  published as igated is written, as the one line of its bytes, by a task that igates, unless it
  has waited in the channel until it is older than 30 seconds, is a duplicate, or would split its
  line.
\<close>

theorem igated_flag_is_honest:
  assumes "rx_inv s" and "handle_frame n lnow t1 t2 fr s = (s', as, f)" and "Send (Pkt (RTP p)) \<in> set as" and "t2 \<le> now"
  shows "(\<not> p_igated p \<longrightarrow> fst (snd (handle_packet u now clock w p t)) = [])
    \<and> (p_igated p \<and> u_igating u \<and> u_rw u \<and> elapsed now (p_received_instant p) \<le> secs 30
        \<and> \<not> cache_hit (timestamp clock) (dedup_key p) (v_dedup_cache t)
        \<and> \<not> embedded_crlf (for_rxigate_bytes p (u_callsign u))
      \<longrightarrow> fst (snd (handle_packet u now clock w p t)) = [A_Write (for_rxigate_bytes p (u_callsign u) @ crlf) w])"
  by (rule igated_flag [OF assms])

lemma sample_info: "utf8_lossy ''>on'' = ''>on''"
  by (simp add: utf8_lossy.simps utf8_step_def)

text \<open>The packet of the sample frame, as the listener publishes it.\<close>

lemma sample_sent:
  "\<exists>p. Send (Pkt (RTP p)) \<in> set (fst (snd (handle_frame sample_env 0 0 0 sample_frame sample_listener)))
     \<and> packets_in (sends (fst (snd (handle_frame sample_env 0 0 0 sample_frame sample_listener)))) = [p]
     \<and> same_packet p (mp_packet sample_mapped) \<and> p_igated p \<and> elapsed 0 (p_received_instant p) \<le> secs 30
     \<and> \<not> embedded_crlf (for_rxigate_bytes p ''N0CALL'') \<and> droppacket 0 p = None"
proof -
  obtain s' as f where h: "handle_frame sample_env 0 0 0 sample_frame sample_listener = (s', as, f)" by (metis prod_cases3)
  have ok: "slicers_ok sample_listener" using sample_listener_inv by (simp add: rx_inv_def)
  obtain p where p: "Send (Pkt (RTP p)) \<in> set as" "packets_in (sends as) = [p]"
      "\<exists>s1. p = judged_packet sample_env 0 s1 (mp_packet sample_mapped)"
    using h ok
  proof (cases rule: handle_frame_cases)
    case (2 mp q iv hits s1)
    have "mp = sample_mapped" using 2(1) sample_mapped(1) by simp
    moreover have "Send (Pkt (RTP q)) \<in> set as" by (simp add: 2(8))
    moreover have "packets_in (sends as) = [q]" by (simp add: 2(8) packets_in_def sends_def List.map_filter_simps)
    ultimately show ?thesis using that [of q] 2(3) by blast
  qed (use sample_mapped(1) in simp)
  obtain s1 where j: "p = judged_packet sample_env 0 s1 (mp_packet sample_mapped)" using p(3) by blast
  have sat: "\<not> p_is_satellite p"
    unfolding j judged_packet_flags(1)
    by (simp add: sample_env_def sample_config_def satellite_frequencies_def sample_mapped_def sample_frame_def
        map_frame_def Let_def frame_payload_def sample_decoder_def frame_frequency_def fp_eval)
  then have e: "p = (mp_packet sample_mapped)\<lparr>p_is_satellite := False, p_igated := p_igated p, p_twist := p_twist p\<rparr>"
    using judged_packet_eq [of sample_env 0 s1 "mp_packet sample_mapped"] unfolding j by simp
  have d: "droppacket 0 p = None"
    by (subst e) (simp add: droppacket_judged sample_mapped_def sample_frame_def map_frame_def Let_def frame_payload_def
        sample_decoder_def droppacket_def sample_info embedded_crlf_Cons is_crlf_def frame_path_def frame_rfonly_def
        frame_ptype_def frame_info_bytes_def elapsed_def)
  have "p_igated p" using d unfolding j judged_packet_flags(2) .
  moreover have "same_packet p (mp_packet sample_mapped)" unfolding same_packet_def j by (rule judged_packet_eq)
  moreover have "elapsed 0 (p_received_instant p) \<le> secs 30" by (simp add: elapsed_def)
  moreover have "\<not> embedded_crlf (for_rxigate_bytes p ''N0CALL'')"
    by (subst e) (simp add: sample_mapped_def sample_frame_def map_frame_def Let_def for_rxigate_bytes_def rxigate_header_def
        frame_payload_def sample_decoder_def sample_info embedded_crlf_Cons is_crlf_def frame_path_def frame_info_bytes_def)
  ultimately show ?thesis using p(1,2) d by (auto simp: h)
qed

theorem igated_flag_is_honest_witness:
  "\<exists>p. Send (Pkt (RTP p)) \<in> set (fst (snd (handle_frame sample_env 0 0 0 sample_frame sample_listener)))
     \<and> fst (snd (handle_packet sample_setup 0 0 W_Ok p sample_start)) = [A_Write (for_rxigate_bytes p ''N0CALL'' @ crlf) W_Ok]"
proof -
  obtain s' as f where h: "handle_frame sample_env 0 0 0 sample_frame sample_listener = (s', as, f)" by (metis prod_cases3)
  obtain p where p: "Send (Pkt (RTP p)) \<in> set as" "p_igated p" "elapsed 0 (p_received_instant p) \<le> secs 30"
      "\<not> embedded_crlf (for_rxigate_bytes p ''N0CALL'')"
    using sample_sent by (auto simp: h)
  then show ?thesis
    using igated_flag_is_honest [OF sample_listener_inv h p(1) order_refl, of sample_setup 0 W_Ok sample_start]
    by (auto simp: h sample_cache cache_hit_def sample_setup_def)
qed

text \<open>Along a run: the packets sent are the packets heard, in order, one for one.\<close>

lemma same_packet_flags:
  "same_packet p q \<Longrightarrow> p_info_bytes p = p_info_bytes q \<and> rxigate_header p cs = rxigate_header q cs
    \<and> p_received_instant p = p_received_instant q \<and> p_heard_direct p = p_heard_direct q"
  by (subst (asm) same_packet_def, erule ssubst) (simp add: rxigate_header_def)

lemma step_published:
  assumes "rx_outer_step n ev ph s = Some (ph', s', as)" and "rx_inv s"
  shows "list_all2 same_packet (packets_in (sends as)) (heard_of n ev)"
  using assms(1)
proof (cases rule: rx_outer_cases)
  case (1 e f)
  show ?thesis
  proof (cases e)
    case (E_Tick t u now ho)
    then have "packets_in (sends as) = []" using 1(3) tick_published by (metis rx_step.simps(1))
    then show ?thesis by (simp add: 1(1) E_Tick heard_of_def)
  next
    case (E_Frame lnow t1 t2 fr)
    then have "handle_frame n lnow t1 t2 fr s = (s', as, f)" using 1(3) by simp
    then show ?thesis using frame_published_packets assms(2) unfolding 1(1) E_Frame by (metis rx_inv_def)
  qed (use 1(1,3) in \<open>auto simp: heard_of_def packets_in_def List.map_filter_simps\<close>)
next
  case (2 ho)
  have "sends as = []" unfolding 2(5) by (rule sends_map_Save)
  then show ?thesis by (simp add: 2(1) heard_of_def packets_in_def List.map_filter_simps)
next
  case (3 b)
  then show ?thesis by (auto simp: heard_of_def packets_in_def List.map_filter_simps)
qed

lemma run_published:
  "rx_run n s0 tr ph s \<Longrightarrow> rx_inv s0 \<Longrightarrow> list_all2 same_packet (published tr) (heard_packets n tr)"
proof (induction rule: rx_run.induct)
  case rx_begin
  then show ?case by (simp add: published_def heard_packets_def packets_in_def List.map_filter_simps)
next
  case (rx_next tr ph s ev ph' s' as)
  have "list_all2 same_packet (packets_in (sends as)) (heard_of n ev)"
    using step_published [OF rx_next.hyps(2)] rx_run_inv [OF rx_next.hyps(1)] rx_next.prems by simp
  with rx_next show ?case by (simp add: published_snoc list_all2_appendI)
qed

section \<open>What reaches the server\<close>

text \<open>A line of the igate's own: it starts with the callsign.\<close>

definition own_line :: "aprsis_setup \<Rightarrow> string \<Rightarrow> bool" where
  "own_line u bs = (\<exists>rest. bs = u_callsign u @ ''>'' @ rest)"

lemma beacon_own:
  assumes "positpacket utc loc (u_callsign u) nm sy ov dao = Inr body"
  shows "own_line u (body @ crlf)"
proof -
  have "\<exists>rest. body = u_callsign u @ ''>'' @ rest"
    using assms unfolding positpacket_def by (simp split: option.splits if_splits) blast+
  then show ?thesis by (auto simp: own_line_def)
qed

lemma report_own: "own_line u (report_line u i)"
  by (simp add: own_line_def report_line_def)

lemma report_writes_own: "A_Write bs v \<in> set as \<Longrightarrow> send_report u ws s = (s', as, f) \<Longrightarrow> own_line u bs"
proof -
  assume w: "A_Write bs v \<in> set as" and r: "send_report u ws s = (s', as, f)"
  have "A_Write bs v \<in> set (fst (write_lines ws i ls)) \<Longrightarrow> bs \<in> set ls" for i ls
    by (induction ws i ls rule: write_lines.induct) (auto simp: Let_def case_prod_unfold split: if_splits)
  with w r have "\<exists>i. bs = report_line u i"
    by (fastforce simp: send_report_def Let_def case_prod_unfold split: sum.splits if_splits)
  then show ?thesis using report_own by blast
qed

lemma inner_writes:
  assumes "inner_step u e s = Some (s', as, f)" and "A_Write bs v \<in> set as"
  shows "(\<exists>now clock w p. e = Ev_Packet now clock w p \<and> handle_packet u now clock w p s = (s', as, f))
    \<or> (\<forall>now clock w p. e \<noteq> Ev_Packet now clock w p) \<and> own_line u bs"
proof (cases e)
  case (Ev_Beacon now utc gps w ws)
  have b: "own_line u bs" if "send_position_beacon u utc w loc = (h, bs')" "A_Write bs v \<in> set bs'" for loc h bs'
    using beacon_write [OF that(1)] that(2) beacon_own by auto
  from assms have h: "handle_beacon u now utc gps w ws s = (s', as, f)" by (simp add: Ev_Beacon)
  have "own_line u bs"
  proof (cases "u_beaconing u \<and> u_rw u")
    case True
    show ?thesis
    proof (cases "beacon_location u now gps")
      case None
      then have "send_report u ws s = (s', as, f)" using h True by (simp add: handle_beacon_def)
      then show ?thesis using report_writes_own assms(2) by blast
    next
      case (Some loc)
      obtain ok bs1 where p: "send_position_beacon u utc w loc = (ok, bs1)" by fastforce
      obtain s2 bs2 f2 where r: "send_report u ws (note_beacon loc s) = (s2, bs2, f2)" by (metis prod_cases3)
      have "set as \<subseteq> set bs1 \<union> set bs2" using h True Some by (auto simp: handle_beacon_def p r split: if_splits)
      then show ?thesis using assms(2) b [OF p] report_writes_own [OF _ r] by blast
    qed
  qed (use h assms(2) in \<open>auto simp: handle_beacon_def split: if_splits\<close>)
  then show ?thesis by (simp add: Ev_Beacon)
next
  case (Ev_Move now utc gps w)
  have "as \<noteq> []" using assms(2) by auto
  with move_actions [of u now utc gps w s s' as f] assms(1) Ev_Move obtain loc body where
    "positpacket utc loc (u_callsign u) (u_station_name u) (u_symbol u) (u_overlay u) (u_dao u) = Inr body"
    "as = [A_Write (body @ crlf) w]" by blast
  then have "own_line u bs" using beacon_own assms(2) by simp
  then show ?thesis by (simp add: Ev_Move)
qed (use assms in \<open>auto simp: handle_stats_def handle_read_def handle_lagged_def Let_def split: read_result.splits\<close>)

text \<open>The packets of a trace, by the events that take them.\<close>

definition packet_of :: "task_event \<Rightarrow> rtp_packet list" where
  "packet_of ev = (case ev of T_Inner (Ev_Packet now clock w p) \<Rightarrow> [p] | _ \<Rightarrow> [])"

lemma packet_of_iff: "p \<in> set (packet_of ev) \<longleftrightarrow> (\<exists>now clock w. ev = T_Inner (Ev_Packet now clock w p))"
  by (auto simp: packet_of_def split: task_event.splits inner_event.splits)

lemma taken_eq: "taken tr = concat (map (\<lambda>x. packet_of (fst x)) tr)"
proof (induction tr rule: rev_induct)
  case (snoc x tr)
  then show ?case by (cases x) (simp add: taken_snoc packet_of_def)
qed (simp add: taken_def aprs_inputs_def List.map_filter_simps)

lemma taken_iff: "p \<in> set (taken tr) \<longleftrightarrow> (\<exists>now clock w as. (T_Inner (Ev_Packet now clock w p), as) \<in> set tr)"
proof -
  have "p \<in> set (taken tr) \<longleftrightarrow> (\<exists>x\<in>set tr. p \<in> set (packet_of (fst x)))" by (auto simp: taken_eq)
  also have "\<dots> \<longleftrightarrow> (\<exists>x\<in>set tr. \<exists>now clock w. fst x = T_Inner (Ev_Packet now clock w p))" by (simp only: packet_of_iff)
  also have "\<dots> \<longleftrightarrow> (\<exists>now clock w as. (T_Inner (Ev_Packet now clock w p), as) \<in> set tr)"
    by (metis eq_fst_iff)
  finally show ?thesis .
qed

lemma list_all2_left: "list_all2 P xs ys \<Longrightarrow> x \<in> set xs \<Longrightarrow> \<exists>y\<in>set ys. P x y"
  by (metis in_set_conv_nth list_all2_conv_all_nth)

lemma subseq_set: "subseq xs ys \<Longrightarrow> set xs \<subseteq> set ys"
  by (induction xs ys rule: list_emb.induct) auto

lemma list_all2_subseq: "list_all2 P ps qs \<Longrightarrow> subseq xs ps \<Longrightarrow> \<exists>ys. subseq ys qs \<and> list_all2 P xs ys"
proof (induction ps qs arbitrary: xs rule: list_all2_induct)
  case Nil
  then show ?case by (auto simp: list_emb_Nil2)
next
  case (Cons p ps q qs)
  show ?case
  proof (cases "subseq xs ps")
    case True
    then show ?thesis using Cons.IH by blast
  next
    case False
    then obtain xs' where x: "xs = p # xs'" "subseq xs' ps"
      using Cons.prems by (cases xs) (auto split: if_splits)
    then obtain ys where "subseq ys qs" "list_all2 P xs' ys" using Cons.IH by blast
    then show ?thesis using Cons.hyps(1) by (intro exI [of _ "q # ys"]) (simp add: x(1))
  qed
qed

text \<open>
  C2. Everything the station puts on APRS-IS after the login is its
  own beacon or report, under its own callsign, or a packet the listener heard: such a line is the
  header and the payload of a mapped frame, which passed the gate at the moment it was taken from
  the channel; and the packets are taken in the order they were heard, each at most once. This is
  of the listener, the channel and the APRS-IS task together, whatever frames and failures they
  meet.
\<close>

theorem only_heard_packets_are_igated:
  assumes "rx_run n s0 rtr ph s" and "rx_inv s0" and "task_run lc u t0 tr ph' t"
    and "delivers (map item_packet sent) (aprs_inputs tr)" and "packets_in sent = published rtr"
  shows "(\<forall>ev as bs v. (ev, as) \<in> set tr \<and> A_Write bs v \<in> set as \<longrightarrow>
      (\<forall>now clock w p. ev \<noteq> T_Inner (Ev_Packet now clock w p)) \<and> own_line u bs
    \<or> (\<exists>now clock w p. ev = T_Inner (Ev_Packet now clock w p) \<and> as = [A_Write bs w] \<and> droppacket now p = None
        \<and> (\<exists>q\<in>set (heard_packets n rtr). same_packet p q
            \<and> wire_lines bs = [rxigate_header q (u_callsign u) @ trim_end_crlf (p_info_bytes q)])))
    \<and> (\<exists>qs. subseq qs (heard_packets n rtr) \<and> list_all2 same_packet (taken tr) qs)"
proof (intro conjI allI impI)
  note pub = run_published [OF assms(1,2)]
  have sub: "subseq (taken tr) (published rtr)" using taken_subseq [OF assms(4)] assms(5) by simp
  show "\<exists>qs. subseq qs (heard_packets n rtr) \<and> list_all2 same_packet (taken tr) qs"
    using list_all2_subseq [OF pub sub] .
  fix ev as bs v
  assume a: "(ev, as) \<in> set tr \<and> A_Write bs v \<in> set as"
  then obtain tr1 tr2 where "tr = tr1 @ (ev, as) # tr2" by (meson split_list)
  from run_prefix [OF assms(3) this] obtain ph1 s1 ph2 s2 where "outer_step lc u ev ph1 s1 = Some (ph2, s2, as)" by blast
  then obtain e f where e: "ev = T_Inner e" "inner_step u e s1 = Some (s2, as, f)"
    by (cases rule: outer_step_cases) (use a in blast)+
  from inner_writes [OF e(2) conjunct2 [OF a]] show "(\<forall>now clock w p. ev \<noteq> T_Inner (Ev_Packet now clock w p)) \<and> own_line u bs
    \<or> (\<exists>now clock w p. ev = T_Inner (Ev_Packet now clock w p) \<and> as = [A_Write bs w] \<and> droppacket now p = None
        \<and> (\<exists>q\<in>set (heard_packets n rtr). same_packet p q
            \<and> wire_lines bs = [rxigate_header q (u_callsign u) @ trim_end_crlf (p_info_bytes q)]))"
  proof (elim disjE exE conjE)
    fix now clock w p
    assume p: "e = Ev_Packet now clock w p" and h: "handle_packet u now clock w p s1 = (s2, as, f)"
    have "p \<in> set (taken tr)" using a e(1) p taken_iff by blast
    then have "p \<in> set (published rtr)" using sub using subseq_set by blast
    then obtain q where q: "q \<in> set (heard_packets n rtr)" "same_packet p q" using list_all2_left [OF pub] by blast
    note w = packet_write [OF h conjunct2 [OF a]]
    have "wire_lines bs = [rxigate_header q (u_callsign u) @ trim_end_crlf (p_info_bytes q)]"
      using w same_packet_flags [OF q(2)] by metis
    then show ?thesis using w e(1) p q by blast
  qed (use a e(1) in simp_all)
qed

section \<open>How the counters of the two tasks add up\<close>



section \<open>Ending and recovering\<close>

lemma aprs_ended: "task_run lc u t0 tr ph t \<Longrightarrow> ph = Ph_Done \<longleftrightarrow> tr \<noteq> [] \<and> fst (last tr) = T_Cancelled"
proof (induction rule: task_run.induct)
  case (step tr ph s ev ph' s' as)
  then show ?case
    by (cases ev; cases ph) (auto simp: attempt_failed_def waited_def connected_def login_ended_def Let_def split: if_splits option.splits)
qed simp

lemma rx_ended: "rx_run n s0 tr ph s \<Longrightarrow> ph = Rx_Done \<longleftrightarrow> (\<exists>ho. tr \<noteq> [] \<and> fst (last tr) = RT_Cancelled ho)"
proof (induction rule: rx_run.induct)
  case (rx_next tr ph s ev ph' s' as)
  from rx_next.hyps(2) show ?case
    by (cases rule: rx_outer_cases) (auto split: arm_end.splits flow.splits)
qed simp

lemma gps_ended: "gps_run g s0 tr ph s \<Longrightarrow> ph = Gp_Done \<longleftrightarrow> tr \<noteq> [] \<and> fst (last tr) = GE_Cancelled"
proof (induction rule: gps_run.induct)
  case (gps_next tr ph s ev ph' s' as)
  then show ?case by (cases ev; cases ph) (auto split: prod.splits)
qed simp

text \<open>
  C5. The tasks run until they are cancelled, and always can be: a
  run of any of the three has ended exactly when its last event is the cancellation; one that has
  not can be ended from the phase it is in, by the cancellation alone, or in the gpsd client after
  the timeout of the watch command, the one wait that is not raced with it; and the end of the two
  counting tasks saves the counters, the sequence number, and every station and frequency that has
  changed.
\<close>

theorem cancellation_ends_every_task:
  assumes "task_run lc u t0 tr ph t" and "rx_run n s0 rtr rph s" and "rph \<noteq> Rx_Aborted" and "gps_run g g0 gtr gph gs"
  shows "(ph = Ph_Done \<longleftrightarrow> tr \<noteq> [] \<and> fst (last tr) = T_Cancelled)
    \<and> (ph \<noteq> Ph_Done \<longrightarrow> (\<exists>as. task_run lc u t0 (tr @ [(T_Cancelled, as)]) Ph_Done t
         \<and> A_SaveLifetime (lifetime_record t) \<in> set as \<and> A_SaveSeq (v_sequence t) \<in> set as))
    \<and> (rph = Rx_Done \<longleftrightarrow> (\<exists>ho. rtr \<noteq> [] \<and> fst (last rtr) = RT_Cancelled ho))
    \<and> (rph \<noteq> Rx_Done \<longrightarrow> (\<forall>ho. \<exists>as. rx_run n s0 (rtr @ [(RT_Cancelled ho, as)]) Rx_Done (clear_dirty s)
         \<and> Save (W_Lifetime (packet_lifetime_of s)) \<in> set as
         \<and> (\<forall>w\<in>set (dirty_writes ho s). Save w \<in> set as)))
    \<and> (gph = Gp_Done \<longleftrightarrow> gtr \<noteq> [] \<and> fst (last gtr) = GE_Cancelled)
    \<and> (gph \<noteq> Gp_Done \<longrightarrow> (\<exists>es. es \<in> {[(GE_Cancelled, [])], [(GE_WatchTimeout, []), (GE_Cancelled, [])]}
         \<and> gps_run g g0 (gtr @ es) Gp_Done gs))"
proof -
  have a: "\<exists>as. task_run lc u t0 (tr @ [(T_Cancelled, as)]) Ph_Done t
      \<and> A_SaveLifetime (lifetime_record t) \<in> set as \<and> A_SaveSeq (v_sequence t) \<in> set as" if live: "ph \<noteq> Ph_Done"
  proof -
    obtain as where "outer_step lc u T_Cancelled ph t = Some (Ph_Done, t, as)" "set (final_flush t) \<subseteq> set as"
      using live by (cases ph) auto
    then show ?thesis using task_run.step [OF assms(1)] by (fastforce simp: final_flush_def)
  qed
  have r: "\<exists>as. rx_run n s0 (rtr @ [(RT_Cancelled ho, as)]) Rx_Done (clear_dirty s)
      \<and> Save (W_Lifetime (packet_lifetime_of s)) \<in> set as \<and> (\<forall>w\<in>set (dirty_writes ho s). Save w \<in> set as)"
    if "rph \<noteq> Rx_Done" for ho
  proof -
    let ?as = "map Save (counter_writes s @ dirty_writes ho s)"
    have "rx_outer_step n (RT_Cancelled ho) rph s = Some (Rx_Done, clear_dirty s, ?as)"
      using that assms(3) by (cases rph) (simp_all add: rx_final_flush_def)
    from rx_run.rx_next [OF assms(2) this] show ?thesis by (auto simp: counter_writes_def)
  qed
  have g: "\<exists>es. es \<in> {[(GE_Cancelled, [])], [(GE_WatchTimeout, []), (GE_Cancelled, [])]} \<and> gps_run g g0 (gtr @ es) Gp_Done gs"
    if "gph \<noteq> Gp_Done"
  proof (cases "gph = Gp_Watch")
    case True
    then have w: "gps_run g g0 (gtr @ [(GE_WatchTimeout, [])]) Gp_Connect gs"
      using gps_run.gps_next [OF assms(4), of GE_WatchTimeout Gp_Connect gs "[]"] by simp
    from gps_run.gps_next [OF w, of GE_Cancelled Gp_Done gs "[]"] show ?thesis by auto
  next
    case False
    with that have "gps_step g GE_Cancelled gph gs = Some (Gp_Done, gs, [])" by (cases gph) simp_all
    from gps_run.gps_next [OF assms(4) this] show ?thesis by auto
  qed
  from a r g aprs_ended [OF assms(1)] rx_ended [OF assms(2)] gps_ended [OF assms(4)] show ?thesis by blast
qed

text \<open>
  What a task relies on to get back: as long as nothing fails, every event brings it nearer to its
  inner loop, and there is one to wait for. The rank counts the events that are left.
\<close>

fun follow :: "('e \<Rightarrow> 'p \<Rightarrow> 's \<Rightarrow> ('p \<times> 's \<times> 'a) option) \<Rightarrow> 'e list \<Rightarrow> 'p \<Rightarrow> 's \<Rightarrow> ('p \<times> 's) option" where
  "follow st [] p s = Some (p, s)"
| "follow st (e # es) p s = (case st e p s of Some (p', s', as) \<Rightarrow> follow st es p' s' | None \<Rightarrow> None)"

locale reconnecting =
  fixes st :: "'e \<Rightarrow> 'p \<Rightarrow> 's \<Rightarrow> ('p \<times> 's \<times> 'a) option" and good :: "'e \<Rightarrow> bool" and rank :: "'p \<Rightarrow> nat" and up :: 'p
  assumes nearer: "good e \<Longrightarrow> st e p s = Some (p', s', as) \<Longrightarrow> rank p = Suc (rank p') \<and> (rank p' = 0 \<longrightarrow> p' = up)"
    and ready: "0 < rank p \<Longrightarrow> \<exists>e. good e \<and> st e p s \<noteq> None"
begin

lemma follow_rank:
  "\<forall>e\<in>set es. good e \<Longrightarrow> follow st es p s = Some (p', s') \<Longrightarrow>
    length es + rank p' = rank p \<and> (es \<noteq> [] \<and> rank p' = 0 \<longrightarrow> p' = up)"
proof (induction es arbitrary: p s)
  case (Cons e es)
  then obtain q r as where q: "st e p s = Some (q, r, as)" "follow st es q r = Some (p', s')"
    by (auto split: option.splits)
  have "rank p = Suc (rank q)" "rank q = 0 \<longrightarrow> q = up" using nearer [OF _ q(1)] Cons.prems(1) by simp_all
  moreover have "length es + rank p' = rank q \<and> (es \<noteq> [] \<and> rank p' = 0 \<longrightarrow> p' = up)"
    using Cons.IH [OF _ q(2)] Cons.prems(1) by simp
  moreover have "es = [] \<Longrightarrow> p' = q" using q(2) by simp
  ultimately show ?case by auto
qed simp

lemma follow_exists: "\<exists>es p' s'. (\<forall>e\<in>set es. good e) \<and> length es = rank p \<and> follow st es p s = Some (p', s')"
proof (induction "rank p" arbitrary: p s)
  case 0
  then show ?case by (intro exI [of _ "[]"]) simp
next
  case (Suc n)
  then obtain e where e: "good e" "st e p s \<noteq> None" using ready [of p s] by auto
  then obtain q r as where q: "st e p s = Some (q, r, as)" by auto
  then have "n = rank q" using nearer [OF e(1) q] Suc.hyps(2) by simp
  from Suc.hyps(1) [OF this, of r] obtain es p' s' where
    "\<forall>e\<in>set es. good e" "length es = rank q" "follow st es q r = Some (p', s')" by blast
  then show ?case using e(1) q \<open>n = rank q\<close> Suc.hyps(2) by (intro exI [of _ "e # es"]) simp
qed

lemma recovers:
  assumes "0 < rank p"
  shows "(\<exists>es s'. (\<forall>e\<in>set es. good e) \<and> length es = rank p \<and> follow st es p s = Some (up, s'))
    \<and> (\<forall>es p' s'. (\<forall>e\<in>set es. good e) \<and> follow st es p s = Some (p', s') \<longrightarrow>
         length es \<le> rank p \<and> (length es = rank p \<longrightarrow> p' = up))"
proof -
  have "length es \<le> rank p \<and> (length es = rank p \<longrightarrow> p' = up)"
    if "\<forall>e\<in>set es. good e" "follow st es p s = Some (p', s')" for es p' s'
    using follow_rank [OF that] assms by auto
  with follow_exists [of p s] show ?thesis by blast
qed

end

fun aprs_rank :: "phase \<Rightarrow> nat" where
  "aprs_rank Ph_Wait = 3"
| "aprs_rank Ph_Connect = 2"
| "aprs_rank Ph_Login = 1"
| "aprs_rank _ = 0"

fun rx_rank :: "rx_phase \<Rightarrow> nat" where
  "rx_rank Rx_Wait = 2"
| "rx_rank Rx_Connect = 1"
| "rx_rank _ = 0"

fun gps_rank :: "gps_phase \<Rightarrow> nat" where
  "gps_rank Gp_Wait = 3"
| "gps_rank Gp_Connect = 2"
| "gps_rank Gp_Watch = 1"
| "gps_rank _ = 0"

text \<open>The events of a connection that goes well; a login is one the server verifies, and there is one.\<close>

fun aprs_good :: "(string \<Rightarrow> string) \<Rightarrow> aprsis_setup \<Rightarrow> task_event \<Rightarrow> bool" where
  "aprs_good lc u T_Waited = True"
| "aprs_good lc u T_Connected = True"
| "aprs_good lc u (T_Login io) = (login_to_aprsis lc u io = Inr True)"
| "aprs_good lc u _ = False"

lemma verified_login: "\<exists>io. login_to_aprsis lc u io = Inr True"
proof -
  have "login_to_aprsis lc u \<lparr> li_version = L_Line [], li_write = None, li_flush = None, li_response = L_Line ''verified'' \<rparr> = Inr True"
    by (simp add: login_ok_iff login_verdict_iff to_lowercase_ascii is_ascii_def ascii_lower_def)
  then show ?thesis by blast
qed

interpretation aprs_back: reconnecting "outer_step lc u" "aprs_good lc u" aprs_rank Ph_Online for lc u
proof
  fix e p s p' s' as
  assume "aprs_good lc u e" and "outer_step lc u e p s = Some (p', s', as)"
  then show "aprs_rank p = Suc (aprs_rank p') \<and> (aprs_rank p' = 0 \<longrightarrow> p' = Ph_Online)"
    by (cases e; cases p) (auto simp: waited_def connected_def login_ended_def Let_def)
next
  fix p :: phase and s
  assume "0 < aprs_rank p"
  then show "\<exists>e. aprs_good lc u e \<and> outer_step lc u e p s \<noteq> None"
  proof (cases p)
    case Ph_Connect
    then show ?thesis by (intro exI [of _ T_Connected]) simp
  next
    case Ph_Wait
    then show ?thesis by (intro exI [of _ T_Waited]) simp
  next
    case Ph_Login
    obtain io where "login_to_aprsis lc u io = Inr True" using verified_login by blast
    then show ?thesis using Ph_Login by (intro exI [of _ "T_Login io"]) simp
  qed simp_all
qed

fun rx_good :: "'p rx_task_event \<Rightarrow> bool" where
  "rx_good RT_Subscribed = True"
| "rx_good RT_Waited = True"
| "rx_good _ = False"

interpretation rx_back: reconnecting "rx_outer_step n" rx_good rx_rank Rx_Online for n
proof
  fix e p s p' s' as
  assume "rx_good e" and "rx_outer_step n e p s = Some (p', s', as)"
  then show "rx_rank p = Suc (rx_rank p') \<and> (rx_rank p' = 0 \<longrightarrow> p' = Rx_Online)"
    by (cases e; cases p) auto
next
  fix p :: rx_phase and s
  assume "0 < rx_rank p"
  then show "\<exists>e. rx_good e \<and> rx_outer_step n e p s \<noteq> None"
  proof (cases p)
    case Rx_Connect
    then show ?thesis by (intro exI [of _ RT_Subscribed]) simp
  next
    case Rx_Wait
    then show ?thesis by (intro exI [of _ RT_Waited]) simp
  qed simp_all
qed

fun gps_good :: "gps_event \<Rightarrow> bool" where
  "gps_good GE_Waited = True"
| "gps_good GE_Connected = True"
| "gps_good GE_WatchOk = True"
| "gps_good _ = False"

interpretation gps_back: reconnecting "gps_step g" gps_good gps_rank Gp_Online for g
proof
  fix e p s p' s' as
  assume "gps_good e" and "gps_step g e p s = Some (p', s', as)"
  then show "gps_rank p = Suc (gps_rank p') \<and> (gps_rank p' = 0 \<longrightarrow> p' = Gp_Online)"
    by (cases e; cases p) auto
next
  fix p :: gps_phase and s
  assume "0 < gps_rank p"
  then show "\<exists>e. gps_good e \<and> gps_step g e p s \<noteq> None"
  proof (cases p)
    case Gp_Connect
    then show ?thesis by (intro exI [of _ GE_Connected]) simp
  next
    case Gp_Wait
    then show ?thesis by (intro exI [of _ GE_Waited]) simp
  next
    case Gp_Watch
    then show ?thesis by (intro exI [of _ GE_WatchOk]) simp
  qed simp_all
qed

text \<open>
  C6. No failure leaves a task stuck: from every phase outside its inner loop,
  whatever has happened before, a task that meets no further failure is back in its inner loop
  after as many events as its rank says: at most the wait, the connection, and the login or the
  watch command; two for the listener. It cannot do more without being back, and such events are
  always possible.
\<close>

theorem every_task_recovers:
  assumes "0 < aprs_rank ph" and "0 < rx_rank rph" and "0 < gps_rank gph"
  shows "(\<exists>es t'. (\<forall>e\<in>set es. aprs_good lc u e) \<and> length es = aprs_rank ph
        \<and> follow (outer_step lc u) es ph t = Some (Ph_Online, t'))
    \<and> (\<forall>es p' t'. (\<forall>e\<in>set es. aprs_good lc u e) \<and> follow (outer_step lc u) es ph t = Some (p', t')
        \<longrightarrow> length es \<le> aprs_rank ph \<and> (length es = aprs_rank ph \<longrightarrow> p' = Ph_Online))
    \<and> (\<exists>es s'. (\<forall>e\<in>set es. rx_good e) \<and> length es = rx_rank rph
        \<and> follow (rx_outer_step n) es rph s = Some (Rx_Online, s'))
    \<and> (\<forall>es p' s'. (\<forall>e\<in>set es. rx_good e) \<and> follow (rx_outer_step n) es rph s = Some (p', s')
        \<longrightarrow> length es \<le> rx_rank rph \<and> (length es = rx_rank rph \<longrightarrow> p' = Rx_Online))
    \<and> (\<exists>es g'. (\<forall>e\<in>set es. gps_good e) \<and> length es = gps_rank gph
        \<and> follow (gps_step g) es gph gs = Some (Gp_Online, g'))
    \<and> (\<forall>es p' g'. (\<forall>e\<in>set es. gps_good e) \<and> follow (gps_step g) es gph gs = Some (p', g')
        \<longrightarrow> length es \<le> gps_rank gph \<and> (length es = gps_rank gph \<longrightarrow> p' = Gp_Online))"
  using aprs_back.recovers [OF assms(1), of lc u t] rx_back.recovers [OF assms(2), of n s]
    gps_back.recovers [OF assms(3), of g gs]
  by (elim conjE, intro conjI) assumption+

theorem every_task_recovers_witness:
  "\<exists>es s'. length es = 2 \<and> follow (rx_outer_step sample_env) es Rx_Wait sample_listener = Some (Rx_Online, s')"
proof -
  have r: "0 < aprs_rank Ph_Wait" "0 < rx_rank Rx_Wait" "0 < gps_rank Gp_Watch" by simp_all
  from every_task_recovers [OF r, of lc sample_setup sample_start sample_env sample_listener] obtain es s' where
    "length es = rx_rank Rx_Wait" "follow (rx_outer_step sample_env) es Rx_Wait sample_listener = Some (Rx_Online, s')" by blast
  then show ?thesis by auto
qed

theorem cancellation_ends_every_task_witness:
  "\<exists>as. rx_run sample_env sample_listener [(RT_Subscribed, []), (RT_Cancelled list_order, as)] Rx_Done
      (clear_dirty sample_listener)"
proof -
  have b: "sample_listener\<lparr>x_backoff_secs := initial_backoff\<rparr> = sample_listener"
    by (simp add: sample_listener_def rx_initial_def)
  have "rx_run sample_env sample_listener ([] @ [(RT_Subscribed, [])]) Rx_Online sample_listener"
    by (rule rx_run.rx_next [OF rx_run.rx_begin]) (simp add: b)
  from cancellation_ends_every_task [OF task_run.start this _ gps_run.gps_begin]
  have "\<exists>as. rx_run sample_env sample_listener (([] @ [(RT_Subscribed, [])]) @ [(RT_Cancelled list_order, as)]) Rx_Done
      (clear_dirty sample_listener)" by blast
  then show ?thesis by simp
qed

section \<open>A sample of the whole\<close>

text \<open>The sample frame, heard by the listener, taken by the APRS-IS task after its login, and written.\<close>

lemma sample_flow:
  "\<exists>p tr t. published rx_sample_trace = [p] \<and> task_run (\<lambda>ch. ch) sample_setup sample_start tr Ph_Online t
     \<and> aprs_inputs tr = [Got (Some p)]
     \<and> (T_Inner (Ev_Packet 0 0 W_Ok p), [A_Write (for_rxigate_bytes p ''N0CALL'' @ crlf) W_Ok]) \<in> set tr"
proof -
  let ?as = "fst (snd (handle_frame sample_env 0 0 0 sample_frame sample_listener))"
  obtain p where p: "packets_in (sends ?as) = [p]" "droppacket 0 p = None" "\<not> embedded_crlf (for_rxigate_bytes p ''N0CALL'')"
    using sample_sent by blast
  have pub: "published rx_sample_trace = [p]"
    using p(1) by (simp add: published_def rx_sample_trace_def packets_in_def List.map_filter_simps)
  let ?s1 = "sample_start\<lparr>v_backoff_secs := initial_backoff, v_first_connect := False\<rparr>"
  let ?w = "A_Write (for_rxigate_bytes p ''N0CALL'' @ crlf) W_Ok"
  have cs: "u_callsign sample_setup = ''N0CALL''" "u_igating sample_setup" "u_rw sample_setup" by (simp_all add: sample_setup_def)
  have "packet_fate sample_setup 0 0 W_Ok p ?s1 = Igated"
    using p(2,3) by (simp add: packet_fate_def cs sample_cache cache_hit_def)
  moreover obtain s2 as f where h: "handle_packet sample_setup 0 0 W_Ok p ?s1 = (s2, as, f)" by (metis prod_cases3)
  ultimately have w: "as = [?w]" "f = Go" using handle_packet_fate [OF h] by (simp_all add: cs)
  let ?tr = "[(T_Connected, []), (T_Login sample_login, [A_Login (u_login sample_setup)]),
    (T_Inner (Ev_Packet 0 0 W_Ok p), [?w])]"
  have l: "login_written sample_login" by (simp add: login_written_def sample_login_def)
  have "exec_events (\<lambda>ch. ch) sample_setup [T_Connected, T_Login sample_login, T_Inner (Ev_Packet 0 0 W_Ok p)]
      (Ph_Connect, sample_start, []) = Some (Ph_Online, s2, ?tr)"
    by (simp add: connected_def login_ended_def sample_login_ok l sample_cache h w Let_def)
  from exec_run [OF this] have "task_run (\<lambda>ch. ch) sample_setup sample_start ?tr Ph_Online s2" .
  moreover have "aprs_inputs ?tr = [Got (Some p)]" by (simp add: aprs_inputs_def List.map_filter_simps)
  ultimately show ?thesis using pub by (intro exI [of _ p] exI [of _ ?tr] exI [of _ s2]) simp
qed

theorem only_heard_packets_are_igated_witness:
  "\<exists>p tr t. task_run (\<lambda>ch. ch) sample_setup sample_start tr Ph_Online t
     \<and> (T_Inner (Ev_Packet 0 0 W_Ok p), [A_Write (for_rxigate_bytes p ''N0CALL'' @ crlf) W_Ok]) \<in> set tr
     \<and> wire_lines (for_rxigate_bytes p ''N0CALL'' @ crlf)
         = [rxigate_header (mp_packet sample_mapped) ''N0CALL'' @ trim_end_crlf (p_info_bytes (mp_packet sample_mapped))]"
proof -
  obtain p tr t where f: "published rx_sample_trace = [p]" "task_run (\<lambda>ch. ch) sample_setup sample_start tr Ph_Online t"
    "aprs_inputs tr = [Got (Some p)]"
    "(T_Inner (Ev_Packet 0 0 W_Ok p), [A_Write (for_rxigate_bytes p ''N0CALL'' @ crlf) W_Ok]) \<in> set tr"
    using sample_flow by blast
  have d: "delivers (map item_packet [Pkt (RTP p)]) (aprs_inputs tr)" by (simp add: f(3))
  have i: "packets_in [Pkt (RTP p)] = published rx_sample_trace" by (simp add: f(1) packets_in_def List.map_filter_simps)
  have cs: "u_callsign sample_setup = ''N0CALL''" by (simp add: sample_setup_def)
  let ?b = "for_rxigate_bytes p ''N0CALL'' @ crlf"
  have m: "(T_Inner (Ev_Packet 0 0 W_Ok p), [A_Write ?b W_Ok]) \<in> set tr \<and> A_Write ?b W_Ok \<in> set [A_Write ?b W_Ok]"
    using f(4) by simp
  note c = only_heard_packets_are_igated [OF rx_sample_run rx_inv_start f(2) d i, THEN conjunct1]
  from c [rule_format, OF m] obtain q where "q \<in> set (heard_packets sample_env rx_sample_trace)"
    "wire_lines ?b = [rxigate_header q ''N0CALL'' @ trim_end_crlf (p_info_bytes q)]"
    unfolding cs by blast
  then show ?thesis using f(2,4) by (auto simp: rx_sample_facts(3))
qed


end
