(* ===== verification/App_Main.thy ===== *)
theory App_Main
  imports Sse_Fanout
begin

text \<open>
  The application (\<open>src/main.rs\<close>): the checks before anything is started, the state seeded from
  the store, the tasks that are spawned, the main loop with the reload on SIGHUP, the shutdown, and
  the HTTP handlers.

  A shared value behind a lock is an option, None once the lock is poisoned. A handler that changes
  the watched stations works in two parts, under the lock on the list and after it on the store;
  the model has both the whole handler and the parts, so that requests can interleave. The file
  system, the TOML parser, the database, the socket and the clocks are parameters; the web
  framework, the static files and the log are left out.
\<close>

section \<open>Before the start\<close>

record 'd app_env =
  ae_arg :: "string option"
  ae_exists :: "string \<Rightarrow> bool"
  ae_read :: "string \<Rightarrow> io_error + string"
  ae_toml :: "string \<Rightarrow> string + config"
  ae_upper :: "string \<Rightarrow> string"
  ae_create :: "string \<Rightarrow> string + 'd"
  ae_db :: "'d native_db"
  ae_from_us :: "int \<Rightarrow> datetime option"
  ae_bind :: "string \<Rightarrow> io_error + unit"

definition max_watched :: nat where
  "max_watched = 20"

definition config_path :: "string option \<Rightarrow> (string \<Rightarrow> bool) \<Rightarrow> string" where
  "config_path arg exists = (case arg of Some p \<Rightarrow> p
   | None \<Rightarrow> if exists ''config.toml'' then ''config.toml''
       else if exists ''/etc/rtpigate/config.toml'' then ''/etc/rtpigate/config.toml''
       else ''config.toml'')"

definition log_level :: "config \<Rightarrow> string" where
  "log_level c = (case sta_verbose (cfg_station c) of Some True \<Rightarrow> ''debug'' | _ \<Rightarrow> ''info'')"

definition needs_write :: "config \<Rightarrow> bool" where
  "needs_write c = (ais_igating (cfg_aprsis c) = Some True \<or> ais_beaconing (cfg_aprsis c) = Some True)"

datatype refusal = Unreadable rtpigate_error | Invalid "string list" | Bad_Passcode | No_Store rtpigate_error

definition check_start :: "(string \<Rightarrow> bool) \<Rightarrow> (string \<Rightarrow> string) \<Rightarrow> config \<Rightarrow> refusal + unit" where
  "check_start exists uc c =
     (if validate exists c \<noteq> [] then Inl (Invalid (validate exists c))
      else if ais_enabled (cfg_aprsis c) = Some True \<and> needs_write c \<and> \<not> passcode_isvalid uc c then Inl Bad_Passcode
      else Inr ())"

text \<open>The configuration the program runs with, and its store.\<close>

definition prepare :: "'d app_env \<Rightarrow> refusal + config \<times> 'd" where
  "prepare e = bind_result (map_error Unreadable (from_file (ae_read e) (ae_toml e) (config_path (ae_arg e) (ae_exists e))))
     (\<lambda>c. bind_result (check_start (ae_exists e) (ae_upper e) c)
       (\<lambda>_. bind_result (map_error No_Store (open_store (ae_create e) (storage_path c))) (\<lambda>d. Inr (c, d))))"

section \<open>The shared state\<close>

datatype watched_op = W_Add string | W_Remove string

text \<open>\<open>app_pending\<close>: changes of the watched stations made in memory and not yet in the store.\<close>

record 'd app_state =
  app_public :: "public_config option"
  app_sat_log :: "rtp_packet list option"
  app_history :: "history_store option"
  app_watched :: "string list option"
  app_pending :: "watched_op list"
  app_db :: 'd

definition seed_sat_log :: "'d native_db \<Rightarrow> (int \<Rightarrow> datetime option) \<Rightarrow> instant \<Rightarrow> 'd \<Rightarrow> rtp_packet list" where
  "seed_sat_log nd from_us clk d = unwrap_or [] (load_sat_packets nd from_us clk d)"

definition seed_history :: "'d native_db \<Rightarrow> datetime \<Rightarrow> 'd \<Rightarrow> history_store \<times> 'd" where
  "seed_history nd now d = (let (hs, pruned) = prune now (from_buckets (unwrap_or [] (load_buckets nd d)))
     in (hs, fst (delete_buckets nd d pruned)))"

definition seed_watched :: "'d native_db \<Rightarrow> 'd \<Rightarrow> string list" where
  "seed_watched nd d = unwrap_or [] (load_watched_stations nd d)"

datatype app_task = Rtp_Listener | Aprsis_Task | Gpsd_Task | Sse_Task

definition spawned :: "config \<Rightarrow> app_task list" where
  "spawned c = Rtp_Listener # (if ais_enabled (cfg_aprsis c) = Some True then [Aprsis_Task] else [])
     @ (if loc_source (cfg_location c) = Src_Gpsd then [Gpsd_Task] else []) @ [Sse_Task]"

definition public_view :: "config \<Rightarrow> datetime \<Rightarrow> public_config" where
  "public_view c started = (to_public c)\<lparr>pc_started_at := Some started\<rparr>"

definition frontend_dir :: "config \<Rightarrow> string" where
  "frontend_dir c = or_default ''frontend'' (Option.bind (cfg_http c) http_frontend)"

definition assets_dir :: "config \<Rightarrow> string" where
  "assets_dir c = frontend_dir c @ ''/assets''"

definition listen_addr :: "config \<Rightarrow> string" where
  "listen_addr c = or_default ''127.0.0.1:3000'' (Option.bind (cfg_http c) http_listen)"

text \<open>\<open>clk\<close> and \<open>now\<close> are the clocks while the state is seeded, \<open>started\<close> the time recorded as the start.\<close>

definition seed :: "'d app_env \<Rightarrow> instant \<Rightarrow> datetime \<Rightarrow> datetime \<Rightarrow> config \<Rightarrow> 'd \<Rightarrow> 'd app_state" where
  "seed e clk now started c d =
     (let sat = seed_sat_log (ae_db e) (ae_from_us e) clk d; (hs, d1) = seed_history (ae_db e) now d;
          watched = seed_watched (ae_db e) d1
      in \<lparr> app_public = Some (public_view c started), app_sat_log = Some sat, app_history = Some hs,
           app_watched = Some watched, app_pending = [], app_db = d1 \<rparr>)"

datatype 'd startup = Refused refusal | Bind_Failed "app_task list" io_error | Serving config "app_task list" "'d app_state"

definition app_start :: "'d app_env \<Rightarrow> instant \<Rightarrow> datetime \<Rightarrow> datetime \<Rightarrow> 'd startup" where
  "app_start e clk now started = (case prepare e of
     Inl r \<Rightarrow> Refused r
   | Inr (c, d) \<Rightarrow> (case ae_bind e (listen_addr c) of
       Inl err \<Rightarrow> Bind_Failed (spawned c) err
     | Inr _ \<Rightarrow> Serving c (spawned c) (seed e clk now started c d)))"

section \<open>The watched stations\<close>

text \<open>
  Under the lock: the new list, the reply (a status or the list) and the change left for the store.
\<close>

definition post_locked :: "string \<Rightarrow> string list option \<Rightarrow> string list option \<times> (nat + string list) \<times> watched_op list" where
  "post_locked body w = (let station = str_trim body in
     if station = [] then (w, Inl 400, [])
     else case w of None \<Rightarrow> (w, Inl 500, [])
     | Some xs \<Rightarrow>
         if list_ex (\<lambda>s. s = station) xs then (w, Inr xs, [])
         else if max_watched \<le> length xs then (w, Inl 409, [])
         else (Some (xs @ [station]), Inr (xs @ [station]), [W_Add station]))"

definition delete_locked :: "string \<Rightarrow> string list option \<Rightarrow> string list option \<times> (nat + string list) \<times> watched_op list" where
  "delete_locked station w = (case w of None \<Rightarrow> (w, Inl 500, [])
   | Some xs \<Rightarrow> (let ys = filter (\<lambda>s. s \<noteq> station) xs in (Some ys, Inr ys, [W_Remove station])))"

text \<open>After the lock: the change goes to the store; a failure is only logged.\<close>

fun write_watched :: "'d native_db \<Rightarrow> datetime \<Rightarrow> watched_op \<Rightarrow> 'd \<Rightarrow> 'd \<times> unit result" where
  "write_watched nd now (W_Add station) d = add_watched_station nd d station now"
| "write_watched nd now (W_Remove station) d = remove_watched_station nd d station"

definition finish_watched :: "'d native_db \<Rightarrow> datetime \<Rightarrow> string list option \<times> (nat + string list) \<times> watched_op list
    \<Rightarrow> 'd app_state \<Rightarrow> 'd app_state \<times> (nat + string list)" where
  "finish_watched nd now r s = (case r of (w, reply, ops) \<Rightarrow>
     (s\<lparr>app_watched := w, app_db := fold (\<lambda>x d. fst (write_watched nd now x d)) ops (app_db s)\<rparr>, reply))"

definition post_watched_handler :: "'d native_db \<Rightarrow> datetime \<Rightarrow> string \<Rightarrow> 'd app_state \<Rightarrow> 'd app_state \<times> (nat + string list)" where
  "post_watched_handler nd now body s = finish_watched nd now (post_locked body (app_watched s)) s"

definition delete_watched_handler :: "'d native_db \<Rightarrow> datetime \<Rightarrow> string \<Rightarrow> 'd app_state \<Rightarrow> 'd app_state \<times> (nat + string list)" where
  "delete_watched_handler nd now station s = finish_watched nd now (delete_locked station (app_watched s)) s"

text \<open>The handlers that only read. \<open>config_handler\<close> unwraps the lock: None when it panics.\<close>

definition config_handler :: "'d app_state \<Rightarrow> public_config option" where
  "config_handler s = app_public s"

definition satellite_packets_handler :: "'d app_state \<Rightarrow> rtp_packet list" where
  "satellite_packets_handler s = (case app_sat_log s of Some l \<Rightarrow> rev l | None \<Rightarrow> [])"

definition history_handler :: "'d app_state \<Rightarrow> stat_bucket list" where
  "history_handler s = (case app_history s of Some h \<Rightarrow> snapshot h | None \<Rightarrow> [])"

definition get_watched_handler :: "'d app_state \<Rightarrow> string list" where
  "get_watched_handler s = (case app_watched s of Some l \<Rightarrow> l | None \<Rightarrow> [])"

definition station_packets_handler :: "'d native_db \<Rightarrow> (int \<Rightarrow> datetime option) \<Rightarrow> instant \<Rightarrow> string
    \<Rightarrow> 'd app_state \<Rightarrow> rtp_packet list" where
  "station_packets_handler nd from_us clk station s =
     unwrap_or [] (load_packets_by_source nd from_us clk (app_db s) station)"

text \<open>What a browser gets of its subscription: Inl is a gap, Inr an event.\<close>

definition sse_handler :: "(nat + sse_event) list \<Rightarrow> sse_event list" where
  "sse_handler items = List.map_filter (\<lambda>i. case i of Inr v \<Rightarrow> Some v | Inl _ \<Rightarrow> None) items"

section \<open>Reload and shutdown\<close>

text \<open>The new state, and the event for the browsers.\<close>

definition reload_config :: "(string \<Rightarrow> io_error + string) \<Rightarrow> (string \<Rightarrow> string + config) \<Rightarrow> (string \<Rightarrow> bool) \<Rightarrow> string
    \<Rightarrow> datetime \<Rightarrow> 'd app_state \<Rightarrow> 'd app_state \<times> sse_event list" where
  "reload_config read toml exists path started s = (case from_file read toml path of
     Inl err \<Rightarrow> (s, [])
   | Inr c \<Rightarrow>
       if validate exists c \<noteq> [] then (s, [])
       else case app_public s of None \<Rightarrow> (s, [])
       | Some _ \<Rightarrow> (s\<lparr>app_public := Some (public_view c started)\<rparr>,
           [\<lparr> sse_name = ''config'', sse_data = D_Config (public_view c started) \<rparr>]))"

text \<open>
  The events of the running program: the select loop's, a request's two parts, a transaction of a
  task on its own tables. \<open>E_Persist\<close> names the pending change that reaches the store.
\<close>

datatype app_event =
    E_Hangup "string \<Rightarrow> io_error + string" "string \<Rightarrow> bool"
  | E_Post string
  | E_Delete string
  | E_Persist nat datetime
  | E_Task_Write "db_op list"
  | E_Server_Ended | E_Interrupt | E_Terminate | E_Task_Ended

fun ends_loop :: "app_event \<Rightarrow> bool" where
  "ends_loop E_Server_Ended = True"
| "ends_loop E_Interrupt = True"
| "ends_loop E_Terminate = True"
| "ends_loop E_Task_Ended = True"
| "ends_loop _ = False"

text \<open>One event: the state, the events sent to the browsers and the results of the writes.\<close>

fun app_step :: "'d app_env \<Rightarrow> datetime \<Rightarrow> app_event \<Rightarrow> 'd app_state \<Rightarrow> 'd app_state \<times> sse_event list \<times> unit result list" where
  "app_step e started (E_Hangup read exists) s =
     (let (s1, evs) = reload_config read (ae_toml e) exists (config_path (ae_arg e) (ae_exists e)) started s in (s1, evs, []))"
| "app_step e started (E_Post body) s = (let (w, reply, ops) = post_locked body (app_watched s)
     in (s\<lparr>app_watched := w, app_pending := app_pending s @ ops\<rparr>, [], []))"
| "app_step e started (E_Delete station) s = (let (w, reply, ops) = delete_locked station (app_watched s)
     in (s\<lparr>app_watched := w, app_pending := app_pending s @ ops\<rparr>, [], []))"
| "app_step e started (E_Persist i now) s =
     (if i < length (app_pending s)
      then let (d, r) = write_watched (ae_db e) now (app_pending s ! i) (app_db s)
        in (s\<lparr>app_pending := take i (app_pending s) @ drop (Suc i) (app_pending s), app_db := d\<rparr>, [], [r])
      else (s, [], []))"
| "app_step e started (E_Task_Write ops) s =
     (let (d, r) = run_txn (ae_db e) (app_db s) ops in (s\<lparr>app_db := d\<rparr>, [], []))"
| "app_step e started _ s = (s, [], [])"

text \<open>The loop until the first event that ends it.\<close>

fun main_loop :: "'d app_env \<Rightarrow> datetime \<Rightarrow> app_event list \<Rightarrow> 'd app_state \<Rightarrow> 'd app_state \<times> sse_event list \<times> unit result list" where
  "main_loop e started [] s = (s, [], [])"
| "main_loop e started (ev # evs) s =
     (if ends_loop ev then (s, [], [])
      else let (s1, out, rs) = app_step e started ev s; (s2, out2, rs2) = main_loop e started evs s1
        in (s2, out @ out2, rs @ rs2))"

text \<open>The backstop after the tasks have ended.\<close>

definition shutdown_flush :: "'d native_db \<Rightarrow> history_store option \<Rightarrow> 'd \<Rightarrow> 'd \<times> unit result" where
  "shutdown_flush nd hist d = upsert_buckets nd d (case hist of Some h \<Rightarrow> snapshot h | None \<Rightarrow> [])"

section \<open>What a start means\<close>

lemma prepare_Inr:
  "prepare e = Inr (c, d) \<longleftrightarrow> from_file (ae_read e) (ae_toml e) (config_path (ae_arg e) (ae_exists e)) = Inr c
     \<and> validate (ae_exists e) c = []
     \<and> (ais_enabled (cfg_aprsis c) = Some True \<and> needs_write c \<longrightarrow> passcode_isvalid (ae_upper e) c)
     \<and> ae_create e (storage_path c) = Inr d"
  by (cases "from_file (ae_read e) (ae_toml e) (config_path (ae_arg e) (ae_exists e))";
      cases "ae_create e (storage_path c)")
    (auto simp: prepare_def bind_result_Inr check_start_def open_store_def split: if_splits)

lemma valid_login:
  "passcode_isvalid uc c \<Longrightarrow> sta_callsign (cfg_station c) = Some cs \<Longrightarrow>
     \<exists>p. ais_passcode (cfg_aprsis c) = Some p \<and> parse_i32 p = Some (passcode uc cs)
       \<and> aprsis_login_string uc c = ''user '' @ cs @ '' pass '' @ p @ '' vers rtpigate 0.5.2'' @ crlf"
  by (auto simp: passcode_isvalid_def aprsis_login_string_def compute_passcode_def Let_def split: option.splits)

section \<open>The watched stations under interleaving\<close>

text \<open>What a start with the list \<open>xs\<close> allows: no station twice, no growth beyond the limit, no blank one added.\<close>

definition watched_within :: "string list \<Rightarrow> string list \<Rightarrow> bool" where
  "watched_within xs ys = (distinct ys \<and> length ys \<le> max max_watched (length xs) \<and> ([] \<in> set ys \<longrightarrow> [] \<in> set xs))"

lemma post_locked_within:
  "post_locked body (Some ys) = (w, r) \<Longrightarrow> watched_within xs ys \<Longrightarrow> \<exists>zs. w = Some zs \<and> watched_within xs zs"
  by (auto simp: post_locked_def watched_within_def Let_def list_ex_iff split: if_splits)

lemma delete_locked_within:
  "delete_locked station (Some ys) = (w, r) \<Longrightarrow> watched_within xs ys \<Longrightarrow> \<exists>zs. w = Some zs \<and> watched_within xs zs"
  using le_trans [OF length_filter_le [of "\<lambda>s. s \<noteq> station" ys], of "max max_watched (length xs)"]
  by (auto simp: delete_locked_def watched_within_def Let_def)

lemma reload_watched:
  "app_watched (fst (reload_config read toml exists path started s)) = app_watched s"
  by (auto simp: reload_config_def split: sum.split option.split)

lemma app_step_inv:
  assumes "app_watched s = Some xs" and "watched_within ws xs" and "app_step e started ev s = (s', out, rs)"
  shows "\<exists>ys. app_watched s' = Some ys \<and> watched_within ws ys"
proof (cases ev)
  case (E_Post body)
  then show ?thesis using assms post_locked_within [of body xs] by (auto simp: Let_def split: prod.splits)
next
  case (E_Delete st)
  then show ?thesis using assms delete_locked_within [of st xs] by (auto simp: Let_def split: prod.splits)
next
  case (E_Hangup read exists)
  then have "s' = fst (reload_config read (ae_toml e) exists (config_path (ae_arg e) (ae_exists e)) started s)"
    using assms(3) by (auto split: prod.splits)
  then show ?thesis using assms(1,2) by (simp add: reload_watched)
qed (use assms in \<open>auto split: prod.splits if_splits\<close>)

lemma main_loop_inv:
  "app_watched s = Some xs \<Longrightarrow> watched_within ws xs \<Longrightarrow> main_loop e started evs s = (s', out, rs)
     \<Longrightarrow> \<exists>ys. app_watched s' = Some ys \<and> watched_within ws ys"
proof (induction evs arbitrary: s xs out rs)
  case (Cons ev evs)
  show ?case
  proof (cases "ends_loop ev")
    case False
    obtain s1 o1 r1 o2 r2 where st: "app_step e started ev s = (s1, o1, r1)" "main_loop e started evs s1 = (s', o2, r2)"
      using Cons.prems(3) False by (auto split: prod.splits)
    from app_step_inv [OF Cons.prems(1,2) st(1)] obtain ys where "app_watched s1 = Some ys" "watched_within ws ys" by blast
    from Cons.IH [OF this st(2)] show ?thesis .
  qed (use Cons.prems in simp)
qed simp

section \<open>The watched stations in the store\<close>

definition watched_at :: "(db_key \<Rightarrow> db_row option) \<Rightarrow> string \<Rightarrow> int option" where
  "watched_at m k = (case m (K_Str T_Watched k) of Some (R_Watched r) \<Rightarrow> Some (ws_added_micros r) | _ \<Rightarrow> None)"

text \<open>
  The table holds the stations of \<open>xs\<close>, stamped in the order of the list, no stamp after \<open>b\<close>.
\<close>

definition holds_watched :: "(db_key \<Rightarrow> db_row option) \<Rightarrow> int \<Rightarrow> string list \<Rightarrow> bool" where
  "holds_watched m b xs = ((\<forall>k. watched_at m k \<noteq> None \<longleftrightarrow> k \<in> set xs)
     \<and> sorted_wrt (\<lambda>x y. the (watched_at m x) < the (watched_at m y)) xs
     \<and> (\<forall>k t. watched_at m k = Some t \<longrightarrow> t \<le> b))"

text \<open>The effect of a change on the ordered list: a station added again moves to the end.\<close>

fun watched_effect :: "watched_op \<Rightarrow> string list \<Rightarrow> string list" where
  "watched_effect (W_Add k) xs = filter (\<lambda>x. x \<noteq> k) xs @ [k]"
| "watched_effect (W_Remove k) xs = filter (\<lambda>x. x \<noteq> k) xs"

fun watched_row :: "datetime \<Rightarrow> watched_op \<Rightarrow> db_op" where
  "watched_row now (W_Add k) = Put (R_Watched \<lparr> ws_callsign = k, ws_added_micros = to_micros now \<rparr>)"
| "watched_row now (W_Remove k) = Del (K_Str T_Watched k)"

lemma write_watched_txn: "write_watched nd now x d = run_txn nd d [watched_row now x]"
  by (cases x) (simp_all add: add_watched_station_def remove_watched_station_def)

lemma watched_at_apply:
  "watched_at (apply_op (watched_row now (W_Add k)) m) j = (if j = k then Some (to_micros now) else watched_at m j)"
  "watched_at (apply_op (watched_row now (W_Remove k)) m) j = (if j = k then None else watched_at m j)"
  by (simp_all add: watched_at_def)

lemma sorted_wrt_weaken: "sorted_wrt P xs \<Longrightarrow> (\<forall>x\<in>set xs. \<forall>y\<in>set xs. P x y \<longrightarrow> Q x y) \<Longrightarrow> sorted_wrt Q xs"
  by (induction xs) auto

lemma holds_watched_effect:
  assumes "holds_watched m b xs" and "b < to_micros now"
  shows "holds_watched (apply_op (watched_row now x) m) (to_micros now) (watched_effect x xs)"
proof -
  define m' where "m' = apply_op (watched_row now x) m"
  have dom: "\<And>k. watched_at m k \<noteq> None \<longleftrightarrow> k \<in> set xs" and b: "\<And>k t. watched_at m k = Some t \<Longrightarrow> t \<le> b"
    and s: "sorted_wrt (\<lambda>x y. the (watched_at m x) < the (watched_at m y)) xs"
    using assms(1) unfolding holds_watched_def by blast+
  have lt: "the (watched_at m j) < to_micros now" if "j \<in> set xs" for j
    using that dom [of j] b [of j] assms(2) by fastforce
  have f: "sorted_wrt (\<lambda>x y. the (watched_at m' x) < the (watched_at m' y)) (filter (\<lambda>x. x \<noteq> k) xs)"
    if "\<And>j. j \<noteq> k \<Longrightarrow> watched_at m' j = watched_at m j" for k
    by (rule sorted_wrt_weaken [OF sorted_wrt_filter [OF s]]) (simp add: that)
  have "holds_watched m' (to_micros now) (watched_effect x xs)"
  proof (cases x)
    case (W_Add k)
    have at: "watched_at m' i = (if i = k then Some (to_micros now) else watched_at m i)" for i
      unfolding W_Add m'_def by (rule watched_at_apply(1))
    have "sorted_wrt (\<lambda>x y. the (watched_at m' x) < the (watched_at m' y)) (watched_effect x xs)"
      using f [of k] lt by (simp add: W_Add sorted_wrt_append at)
    moreover have "\<forall>i. watched_at m' i \<noteq> None \<longleftrightarrow> i \<in> set (watched_effect x xs)"
      using dom by (auto simp: at W_Add simp del: not_None_eq)
    moreover have "\<forall>i t. watched_at m' i = Some t \<longrightarrow> t \<le> to_micros now"
      using b assms(2) by (auto simp: at dest: order_le_less_trans split: if_splits intro: less_imp_le)
    ultimately show ?thesis unfolding holds_watched_def by blast
  next
    case (W_Remove k)
    have at: "watched_at m' i = (if i = k then None else watched_at m i)" for i
      unfolding W_Remove m'_def by (rule watched_at_apply(2))
    have "sorted_wrt (\<lambda>x y. the (watched_at m' x) < the (watched_at m' y)) (watched_effect x xs)"
      using f [of k] by (simp add: W_Remove at)
    moreover have "\<forall>i. watched_at m' i \<noteq> None \<longleftrightarrow> i \<in> set (watched_effect x xs)"
      using dom by (auto simp: at W_Remove simp del: not_None_eq)
    moreover have "\<forall>i t. watched_at m' i = Some t \<longrightarrow> t \<le> to_micros now"
      using b assms(2) by (auto simp: at dest: order_le_less_trans split: if_splits intro: less_imp_le)
    ultimately show ?thesis unfolding holds_watched_def by blast
  qed
  then show ?thesis by (simp only: m'_def)
qed

lemma key_sorted_unique:
  assumes "sorted_wrt (\<lambda>x y. (f x :: int) < f y) xs" and "sorted_wrt (\<lambda>x y. f x < f y) ys" and "set xs = set ys"
  shows "xs = ys"
proof -
  have "sorted_wrt (<) (map f xs)" "sorted_wrt (<) (map f ys)" using assms by (simp_all add: sorted_wrt_map)
  then have s: "sorted (map f xs)" "distinct (map f xs)" "sorted (map f ys)" "distinct (map f ys)"
    using strict_sorted_iff by blast+
  have "map f xs = map f ys"
    by (rule sorted_distinct_set_unique [OF s(1,2,3,4)]) (simp add: assms(3))
  moreover have "inj_on f (set xs)" using s(2) by (simp add: distinct_map)
  ultimately show ?thesis using assms(3) by (metis inj_on_map_eq_map sup.idem)
qed

context native_db_laws
begin

lemma watched_scan:
  assumes "ok d" and "scan_rows nd d T_Watched = Inr rs"
  shows "distinct (map ws_callsign (watched_rows rs))
    \<and> (\<forall>r. r \<in> set (watched_rows rs) \<longleftrightarrow> rows d (K_Str T_Watched (ws_callsign r)) = Some (R_Watched r))"
proof -
  note sc = scan_rows_Inr [OF assms]
  have mem: "r \<in> set (watched_rows rs) \<longleftrightarrow> rows d (K_Str T_Watched (ws_callsign r)) = Some (R_Watched r)" for r
  proof -
    have "r \<in> set (watched_rows rs) \<longleftrightarrow> R_Watched r \<in> set rs"
    proof
      assume "R_Watched r \<in> set rs"
      then show "r \<in> set (watched_rows rs)" unfolding watched_rows_def map_filter_mem by (rule bexI [rotated]) simp
    next
      assume "r \<in> set (watched_rows rs)"
      then obtain x where x: "x \<in> set rs" "(case x of R_Watched s \<Rightarrow> Some s | _ \<Rightarrow> None) = Some r"
        unfolding watched_rows_def map_filter_mem by blast
      show "R_Watched r \<in> set rs" by (cases x rule: db_row.exhaust) (use x in simp_all)
    qed
    then show ?thesis using sc by simp
  qed
  moreover have "distinct (map ws_callsign (watched_rows rs))"
  proof -
    have "distinct rs" using sc strict_sorted_iff distinct_map by blast
    then have "distinct (watched_rows rs)"
      unfolding watched_rows_def by (induction rs) (auto simp: List.map_filter_simps map_filter_mem split: db_row.splits option.splits)
    moreover have "inj_on ws_callsign (set (watched_rows rs))"
      unfolding inj_on_def using mem by (metis db_row.inject(9) option.inject)
    ultimately show ?thesis by (simp add: distinct_map)
  qed
  ultimately show ?thesis by blast
qed

lemma load_watched_distinct: "ok d \<Longrightarrow> distinct (seed_watched nd d)"
proof (cases "load_watched_stations nd d")
  case (Inr ys)
  assume "ok d"
  then obtain rs where rs: "scan_rows nd d T_Watched = Inr rs" "ys = map ws_callsign (sort_key ws_added_micros (watched_rows rs))"
    using Inr by (auto simp: load_watched_stations_def bind_result_Inr)
  have "distinct (map ws_callsign (watched_rows rs))" using watched_scan [OF \<open>ok d\<close> rs(1)] by blast
  then have "distinct ys" by (simp add: rs(2) distinct_map)
  then show ?thesis by (simp add: seed_watched_def Inr)
qed (simp add: seed_watched_def)

text \<open>The list of a start is what the store gives; the store decides how long it is.\<close>

lemma start_watched:
  assumes "\<forall>p d. ae_create e p = Inr d \<longrightarrow> ok d" and "ae_db e = nd"
    and "app_start e clk now started = Serving c tasks s"
  shows "ok (app_db s) \<and> app_watched s = Some (seed_watched nd (app_db s)) \<and> distinct (seed_watched nd (app_db s))"
proof -
  obtain d where p: "prepare e = Inr (c, d)" and s: "s = seed e clk now started c d"
    using assms(3) by (auto simp: app_start_def split: sum.splits prod.splits)
  have "ok d" using p assms(1)
    by (cases "ae_create e (storage_path c)") (auto simp: prepare_def open_store_def bind_result_Inr split: sum.splits)
  then have "ok (snd (seed_history nd now d))"
    using run_txn_ok by (auto simp: seed_history_def delete_buckets_def case_prod_unfold Let_def intro: run_txn_ok [OF _ prod.collapse [symmetric]])
  then show ?thesis using assms(2) load_watched_distinct by (auto simp: s seed_def case_prod_unfold Let_def)
qed

lemma load_holds_watched:
  assumes "ok d" and "holds_watched (rows d) b xs" and "load_watched_stations nd d = Inr ys"
  shows "ys = xs"
proof -
  obtain rs where rs: "scan_rows nd d T_Watched = Inr rs" "ys = map ws_callsign (sort_key ws_added_micros (watched_rows rs))"
    using assms(3) by (auto simp: load_watched_stations_def bind_result_Inr)
  note sc = scan_rows_Inr [OF assms(1) rs(1)]
  have mem: "r \<in> set (watched_rows rs) \<longleftrightarrow> rows d (K_Str T_Watched (ws_callsign r)) = Some (R_Watched r)" for r
    using watched_scan [OF assms(1) rs(1)] by blast
  have at: "watched_at (rows d) (ws_callsign r) = Some (ws_added_micros r)" if "r \<in> set (watched_rows rs)" for r
    using that by (simp add: mem watched_at_def)
  have D: "distinct (map ws_callsign (watched_rows rs))" using watched_scan [OF assms(1) rs(1)] by blast
  have h: "\<And>k. watched_at (rows d) k \<noteq> None \<longleftrightarrow> k \<in> set xs"
      "sorted_wrt (\<lambda>x y. the (watched_at (rows d) x) < the (watched_at (rows d) y)) xs"
    using assms(2) unfolding holds_watched_def by blast+
  have set: "set ys = set xs"
  proof -
    have "k \<in> set ys \<longleftrightarrow> watched_at (rows d) k \<noteq> None" for k
    proof
      assume "k \<in> set ys"
      then show "watched_at (rows d) k \<noteq> None" using at by (auto simp: rs(2))
    next
      assume "watched_at (rows d) k \<noteq> None"
      then obtain r where r: "rows d (K_Str T_Watched k) = Some (R_Watched r)"
        by (auto simp: watched_at_def split: option.splits db_row.splits)
      then have "ws_callsign r = k" using watched_key_row [OF assms(1) r] by auto
      with r have "r \<in> set (watched_rows rs)" by (simp add: mem)
      then show "k \<in> set ys" using \<open>ws_callsign r = k\<close> by (auto simp: rs(2))
    qed
    then show ?thesis using h(1) by blast
  qed
  have "sorted_wrt (\<lambda>x y. the (watched_at (rows d) x) < the (watched_at (rows d) y)) ys"
  proof -
    let ?q = "sort_key ws_added_micros (watched_rows rs)"
    have "sorted (map ws_added_micros ?q)" by simp
    moreover have "map ws_added_micros ?q = map (\<lambda>k. the (watched_at (rows d) k)) ys"
      using at by (simp add: rs(2))
    ultimately have s: "sorted (map (\<lambda>k. the (watched_at (rows d) k)) ys)" by simp
    have "distinct ys" using D by (simp add: rs(2) distinct_map)
    moreover have "inj_on (\<lambda>k. the (watched_at (rows d) k)) (set xs)"
    proof -
      have "distinct (map (\<lambda>k. the (watched_at (rows d) k)) xs)"
        using h(2) by (intro conjunct2 [OF iffD1 [OF strict_sorted_iff]]) (simp add: sorted_wrt_map)
      then show ?thesis by (simp add: distinct_map)
    qed
    ultimately have "distinct (map (\<lambda>k. the (watched_at (rows d) k)) ys)" by (simp add: distinct_map set)
    with s have "sorted_wrt (<) (map (\<lambda>k. the (watched_at (rows d) k)) ys)" using strict_sorted_iff by blast
    then show ?thesis by (simp add: sorted_wrt_map)
  qed
  then show ?thesis by (rule key_sorted_unique [OF _ h(2) set])
qed

end

section \<open>Changes reach the store in order\<close>

fun spares_watched :: "db_op \<Rightarrow> bool" where
  "spares_watched (Put (R_Watched r)) = False"
| "spares_watched (Del (K_Str T_Watched k)) = False"
| "spares_watched _ = True"

text \<open>
  The order of the locks: the oldest pending change is written first, at strictly increasing
  microseconds after \<open>b\<close>; the tasks write their own tables only.
\<close>

fun in_order :: "int \<Rightarrow> app_event list \<Rightarrow> bool" where
  "in_order b [] = True"
| "in_order b (E_Persist i now # evs) = (i = 0 \<and> b < to_micros now \<and> in_order (to_micros now) evs)"
| "in_order b (E_Task_Write ops # evs) = (list_all spares_watched ops \<and> in_order b evs)"
| "in_order b (_ # evs) = in_order b evs"

lemma watched_at_spared: "spares_watched x \<Longrightarrow> watched_at (apply_op x m) = watched_at m"
  by (induction x rule: spares_watched.induct) (auto simp: watched_at_def fun_eq_iff split: db_key.splits)

lemma watched_at_spared_all: "list_all spares_watched ops \<Longrightarrow> watched_at (fold apply_op ops m) = watched_at m"
  by (induction ops arbitrary: m) (simp_all add: watched_at_spared)

lemma holds_watched_cong: "watched_at m = watched_at n \<Longrightarrow> holds_watched m b xs = holds_watched n b xs"
  by (simp add: holds_watched_def)

lemma holds_watched_later: "holds_watched m b xs \<Longrightarrow> b \<le> c \<Longrightarrow> holds_watched m c xs"
  unfolding holds_watched_def by (blast intro: order_trans)

lemma post_locked_effect:
  "post_locked body (Some xs) = (w, reply, ops) \<Longrightarrow> distinct xs
     \<Longrightarrow> w = Some (fold watched_effect ops xs) \<and> distinct (fold watched_effect ops xs)"
  by (auto simp: post_locked_def Let_def list_ex_iff split: if_splits intro!: filter_True [symmetric])

lemma delete_locked_effect:
  "delete_locked station (Some xs) = (w, reply, ops) \<Longrightarrow> distinct xs
     \<Longrightarrow> w = Some (fold watched_effect ops xs) \<and> distinct (fold watched_effect ops xs)"
  by (auto simp: delete_locked_def Let_def)

context native_db_laws
begin

text \<open>The table holds what is left when the pending changes are taken back; \<open>b\<close> bounds its stamps.\<close>

definition watched_mirror :: "int \<Rightarrow> 'd app_state \<Rightarrow> bool" where
  "watched_mirror b s = (ok (app_db s) \<and> (\<exists>xs stored. app_watched s = Some xs \<and> distinct xs
     \<and> holds_watched (rows (app_db s)) b stored \<and> fold watched_effect (app_pending s) stored = xs))"

lemma mirror_change:
  assumes "watched_mirror b s" and "\<And>xs. app_watched s = Some xs \<Longrightarrow> distinct xs \<Longrightarrow>
      w = Some (fold watched_effect ops xs) \<and> distinct (fold watched_effect ops xs)"
  shows "watched_mirror b (s\<lparr>app_watched := w, app_pending := app_pending s @ ops\<rparr>)"
proof -
  obtain xs stored where s: "ok (app_db s)" "app_watched s = Some xs" "distinct xs"
    "holds_watched (rows (app_db s)) b stored" "fold watched_effect (app_pending s) stored = xs"
    using assms(1) unfolding watched_mirror_def by blast
  then show ?thesis using assms(2) [OF s(2,3)] by (auto simp: watched_mirror_def)
qed

lemma mirror_persist:
  assumes "watched_mirror b s" and "b < to_micros now" and "app_pending s = x # ops"
    and "write_watched nd now x (app_db s) = (d, Inr u)"
  shows "watched_mirror (to_micros now) (s\<lparr>app_pending := ops, app_db := d\<rparr>)"
proof -
  obtain xs stored where s: "ok (app_db s)" "app_watched s = Some xs" "distinct xs"
    "holds_watched (rows (app_db s)) b stored" "fold watched_effect (app_pending s) stored = xs"
    using assms(1) unfolding watched_mirror_def by blast
  have t: "run_txn nd (app_db s) [watched_row now x] = (d, Inr u)" using assms(4) by (simp add: write_watched_txn)
  have "rows d = apply_op (watched_row now x) (rows (app_db s))" using run_txn_Inr [OF s(1) t] by simp
  then have "holds_watched (rows d) (to_micros now) (watched_effect x stored)"
    using holds_watched_effect [OF s(4) assms(2), of x] by simp
  moreover have "fold watched_effect ops (watched_effect x stored) = xs" using s(5) by (simp add: assms(3))
  ultimately show ?thesis using run_txn_ok [OF s(1) t] s(2,3) unfolding watched_mirror_def by auto
qed

lemma mirror_task_write:
  assumes "watched_mirror b s" and "list_all spares_watched ops" and "run_txn nd (app_db s) ops = (d, r)"
  shows "watched_mirror b (s\<lparr>app_db := d\<rparr>)"
proof -
  have o: "ok (app_db s)" using assms(1) by (simp add: watched_mirror_def)
  note c = run_txn_cases [OF o assms(3)]
  have "watched_at (rows d) = watched_at (rows (app_db s))"
    using c watched_at_spared_all [OF assms(2)] by (cases r) simp_all
  note h = holds_watched_cong [OF this]
  have "ok d" using c by simp
  with assms(1) show ?thesis by (simp add: watched_mirror_def h)
qed

lemma mirror_step:
  assumes "watched_mirror b s" and "in_order b (ev # evs)" and "app_step e started ev s = (s', out, rs)"
    and "ae_db e = nd" and "\<forall>r\<in>set rs. is_ok r"
  shows "\<exists>c. watched_mirror c s' \<and> in_order c evs"
proof (cases ev)
  case (E_Post body)
  obtain w reply ops where l: "post_locked body (app_watched s) = (w, reply, ops)" by (metis prod_cases3)
  have "watched_mirror b (s\<lparr>app_watched := w, app_pending := app_pending s @ ops\<rparr>)"
    by (rule mirror_change [OF assms(1)]) (rule post_locked_effect, use l in simp)
  then have "watched_mirror b s'" using assms(3) by (simp add: E_Post l)
  then show ?thesis using assms(2) E_Post by auto
next
  case (E_Delete st)
  obtain w reply ops where l: "delete_locked st (app_watched s) = (w, reply, ops)" by (metis prod_cases3)
  have "watched_mirror b (s\<lparr>app_watched := w, app_pending := app_pending s @ ops\<rparr>)"
    by (rule mirror_change [OF assms(1)]) (rule delete_locked_effect, use l in simp)
  then have "watched_mirror b s'" using assms(3) by (simp add: E_Delete l)
  then show ?thesis using assms(2) E_Delete by auto
next
  case (E_Persist i now)
  then have o: "i = 0" "b < to_micros now" "in_order (to_micros now) evs" using assms(2) by simp_all
  show ?thesis
  proof (cases "app_pending s")
    case Nil
    have "watched_mirror (to_micros now) s"
      using assms(1) holds_watched_later [OF _ less_imp_le [OF o(2)]] unfolding watched_mirror_def by blast
    then show ?thesis using assms(3) o(3) by (auto simp: E_Persist Nil)
  next
    case (Cons x ops)
    obtain d r where w: "write_watched nd now x (app_db s) = (d, r)" by (cases "write_watched nd now x (app_db s)")
    have s': "s' = s\<lparr>app_pending := ops, app_db := d\<rparr>" "rs = [r]"
      using assms(3) by (simp_all add: E_Persist Cons o(1) assms(4) w)
    obtain u where "r = Inr u" using assms(5) s'(2) by (cases r) auto
    then show ?thesis using mirror_persist [OF assms(1) o(2) Cons] w o(3) s'(1) by blast
  qed
next
  case (E_Task_Write ops)
  then have "watched_mirror b s'" using assms mirror_task_write [OF assms(1), of ops]
    by (auto simp: Let_def split: prod.splits)
  then show ?thesis using assms(2) E_Task_Write by auto
next
  case (E_Hangup read exists)
  have "app_watched s' = app_watched s \<and> app_pending s' = app_pending s \<and> app_db s' = app_db s"
    using assms(3) by (auto simp: E_Hangup reload_config_def split: sum.splits option.splits if_splits)
  then have "watched_mirror b s'" using assms(1) by (simp add: watched_mirror_def)
  then show ?thesis using assms(2) E_Hangup by auto
qed (use assms in auto)

lemma mirror_loop:
  "watched_mirror b s \<Longrightarrow> in_order b evs \<Longrightarrow> main_loop e started evs s = (s', out, rs) \<Longrightarrow> ae_db e = nd
     \<Longrightarrow> \<forall>r\<in>set rs. is_ok r \<Longrightarrow> \<exists>c. watched_mirror c s'"
proof (induction evs arbitrary: b s out rs)
  case (Cons ev evs)
  show ?case
  proof (cases "ends_loop ev")
    case True
    then show ?thesis using Cons.prems by auto
  next
    case False
    obtain s1 o1 r1 o2 r2 where st: "app_step e started ev s = (s1, o1, r1)" "main_loop e started evs s1 = (s', o2, r2)"
        "rs = r1 @ r2"
      using Cons.prems(3) False by (auto split: prod.splits)
    have "\<forall>r\<in>set r1. is_ok r" "\<forall>r\<in>set r2. is_ok r" using Cons.prems(5) st(3) by auto
    with mirror_step [OF Cons.prems(1,2) st(1) Cons.prems(4)] obtain c where "watched_mirror c s1" "in_order c evs" by blast
    from Cons.IH [OF this st(2) Cons.prems(4)] \<open>\<forall>r\<in>set r2. is_ok r\<close> show ?thesis by blast
  qed
qed auto

lemma mirror_drained:
  "watched_mirror b s \<Longrightarrow> app_pending s = [] \<Longrightarrow> \<exists>xs. app_watched s = Some xs \<and> holds_watched (rows (app_db s)) b xs
     \<and> (\<forall>ys. load_watched_stations nd (app_db s) = Inr ys \<longrightarrow> ys = xs)"
  using load_holds_watched unfolding watched_mirror_def by force

end

section \<open>The history across a restart\<close>

lemma prune_cutoff_mono: "t \<le> now \<Longrightarrow> prune_cutoff t \<le> prune_cutoff now"
  by (simp add: prune_cutoff_def bucket_key_eq timestamp_def nanos_per_sec_def zdiv_mono1)

context history_update
begin

text \<open>A bucket leaves the history only when it is a day old.\<close>

lemma feed_keeps:
  assumes "history_inv h" and "feed_history upd now (Some h) = (Some h2, touched, pruned)" and "map_of h k \<noteq> None"
  shows "map_of h2 k \<noteq> None \<or> k < prune_cutoff now"
proof -
  let ?h1 = "fst (upd h)"
  have "om_inv ?h1" using upd_inv [OF assms(1)] by (simp add: history_inv_def)
  moreover have "h2 = fst (prune now ?h1)"
    using assms(2) by (auto simp: feed_history_def case_prod_unfold Let_def)
  moreover have "map_of ?h1 k \<noteq> None"
    using upd_touched [OF assms(1), of k] upd_other [OF assms(1), of k] assms(3) by (cases "k \<in> set (snd (upd h))") simp_all
  ultimately show ?thesis using prune_spec [of ?h1 now k] by auto
qed

end

context native_db_laws
begin

text \<open>Every row has its bucket in memory, or is older than \<open>c\<close>.\<close>

definition rows_covered :: "int \<Rightarrow> 'd \<Rightarrow> history_store \<Rightarrow> bool" where
  "rows_covered c d h = (ok d \<and> history_inv h \<and> (\<forall>k. bucket_view rows d k \<noteq> None \<longrightarrow> map_of h k \<noteq> None \<or> k < c))"

lemma upsert_keys:
  assumes "ok d" and "upsert_buckets nd d bs = (d', r)"
  shows "ok d' \<and> (bucket_view rows d' k \<noteq> None \<longrightarrow> bucket_view rows d k \<noteq> None \<or> k \<in> sb_ts ` set bs)"
proof (cases r)
  case (Inl err)
  then show ?thesis using run_txn_cases [OF assms(1), of _ d' r] assms(2) by (simp add: upsert_buckets_def bucket_view_at)
next
  case (Inr u)
  then show ?thesis using upsert_buckets_view [OF assms(1), of bs d' u] assms(2) fold_upd_keys(2) [of k bs] by fastforce
qed

lemma delete_keys:
  assumes "ok d" and "delete_buckets nd d ks = (d', r)"
  shows "ok d' \<and> (bucket_view rows d' k \<noteq> None \<longrightarrow> bucket_view rows d k \<noteq> None)"
proof (cases r)
  case (Inl err)
  then show ?thesis using run_txn_cases [OF assms(1), of _ d' r] assms(2)
    by (auto simp: delete_buckets_def bucket_view_at split: if_splits)
next
  case (Inr u)
  then show ?thesis using delete_buckets_view [OF assms(1), of ks d' u] assms(2) by auto
qed

lemma feed_covered:
  assumes "history_update upd" and "rows_covered c (sse_db s) h" and "sse_history s = Some h"
    and "feed nd upd now s = (s', rs)" and "prune_cutoff now \<le> c"
  shows "\<exists>h2. sse_history s' = Some h2 \<and> rows_covered c (sse_db s') h2"
proof -
  have m: "ok (sse_db s)" "history_inv h" "\<And>k. bucket_view rows (sse_db s) k \<noteq> None \<Longrightarrow> map_of h k \<noteq> None \<or> k < c"
    using assms(2) by (simp_all add: rows_covered_def)
  obtain h2 touched pruned where f: "feed_history upd now (Some h) = (Some h2, touched, pruned)"
    by (simp add: feed_history_def case_prod_unfold Let_def)
  obtain d1 r1 d2 r2 where p: "upsert_buckets nd (sse_db s) touched = (d1, r1)" "delete_buckets nd d1 pruned = (d2, r2)"
      "s' = s\<lparr>sse_history := Some h2, sse_db := d2\<rparr>"
    using assms(4) by (auto simp: feed_def assms(3) f persist_history_def Let_def split: prod.splits)
  note cov = history_update.feed_covers [OF assms(1) m(2) f]
  have "map_of h2 k \<noteq> None \<or> k < c" if v: "bucket_view rows d2 k \<noteq> None" for k
  proof (cases "k \<in> sb_ts ` set touched")
    case True
    then show ?thesis using cov by auto
  next
    case False
    have "bucket_view rows d1 k \<noteq> None" using delete_keys [OF _ p(2), of k] upsert_keys [OF m(1) p(1), of k] v by blast
    then have "bucket_view rows (sse_db s) k \<noteq> None" using upsert_keys [OF m(1) p(1), of k] False by blast
    then show ?thesis using m(3) [of k] history_update.feed_keeps [OF assms(1) m(2) f, of k] assms(5) by linarith
  qed
  moreover have "ok d2" using delete_keys [OF _ p(2)] upsert_keys [OF m(1) p(1)] by blast
  ultimately show ?thesis using cov p(3) by (auto simp: rows_covered_def)
qed

lemma item_covered:
  assumes "rows_covered c (sse_db s) h" and "sse_history s = Some h" and "sse_item nd now x s = (s', rs)"
    and "prune_cutoff now \<le> c"
  shows "\<exists>h2. sse_history s' = Some h2 \<and> rows_covered c (sse_db s') h2"
proof -
  consider (packet) u where "x = Tlm (PacketStatus u)" | (aprsis) u where "x = Tlm (AprsisStatus u)" | (other) "s' = s"
  proof (cases x)
    case (Tlm t)
    then show ?thesis using assms(3) that by (cases t) simp_all
  qed (use assms(3) that in simp)
  then show ?thesis
  proof cases
    case packet
    then show ?thesis using feed_covered [OF packet_update.history_update_axioms assms(1,2) _ assms(4)] assms(3) by simp
  next
    case aprsis
    then show ?thesis using feed_covered [OF aprsis_update.history_update_axioms assms(1,2) _ assms(4)] assms(3) by simp
  qed (use assms in simp)
qed

lemma task_covered:
  "rows_covered c (sse_db s) h \<Longrightarrow> sse_history s = Some h \<Longrightarrow> sse_task nd is s = (s', evs, rs)
     \<Longrightarrow> \<forall>t x. SI_Item t x \<in> set is \<longrightarrow> prune_cutoff t \<le> c
     \<Longrightarrow> \<exists>h2. sse_history s' = Some h2 \<and> rows_covered c (sse_db s') h2"
proof (induction "is" arbitrary: s h evs rs)
  case (Cons i "is")
  show ?case
  proof (cases i)
    case (SI_Item now x)
    obtain s1 rs1 evs2 rs2 where a: "sse_item nd now x s = (s1, rs1)" "sse_task nd is s1 = (s', evs2, rs2)"
      using Cons.prems(3) by (auto simp: SI_Item Let_def split: prod.splits)
    have "prune_cutoff now \<le> c" using Cons.prems(4) SI_Item by simp
    with item_covered [OF Cons.prems(1,2) a(1)] obtain h1 where h1: "sse_history s1 = Some h1" "rows_covered c (sse_db s1) h1" by blast
    have "\<forall>t x. SI_Item t x \<in> set is \<longrightarrow> prune_cutoff t \<le> c" using Cons.prems(4) by simp
    from Cons.IH [OF h1(2,1) a(2) this] show ?thesis .
  qed (use Cons in auto)
qed auto

end

context native_db_laws
begin

lemma load_buckets_map:
  assumes "ok d" and "load_buckets nd d = Inr bs"
  shows "om_inv (from_buckets bs) \<and> map_of (from_buckets bs) = bucket_view rows d"
proof -
  note l = load_buckets_view [OF assms]
  have D: "distinct (map fst (map (\<lambda>b. (sb_ts b, b)) bs))" using l strict_sorted_iff by (force simp: comp_def)
  have key: "sb_ts b = k" if v: "bucket_view rows d k = Some b" for b k
  proof -
    obtain r where r: "rows d (K_Int T_Bucket k) = Some (R_Bucket r)" "b = bucket_of_rec r"
      using v by (auto simp: bucket_view_def split: option.splits db_row.splits)
    then have "hb_ts r = k" using bucket_key_row [OF assms(1) r(1)] by simp
    then show ?thesis by (simp add: r(2) bucket_of_rec_def)
  qed
  have "map_of (from_buckets bs) k = bucket_view rows d k" for k
  proof -
    have m: "map_of (from_buckets bs) k = map_of (map (\<lambda>b. (sb_ts b, b)) bs) k"
      using from_buckets_lookup [of bs k] map_of_rev_distinct [OF D, of k] by simp
    have "map_of (map (\<lambda>b. (sb_ts b, b)) bs) k = Some b \<longleftrightarrow> bucket_view rows d k = Some b" for b
      using l key [of k b] by (auto simp: map_of_eq_Some_iff [OF D])
    then show ?thesis unfolding m by (metis option.exhaust)
  qed
  then show ?thesis using from_buckets_lookup by (simp add: fun_eq_iff)
qed

lemma seed_covered:
  assumes "ok d" and "load_buckets nd d = Inr bs" and "\<forall>b\<in>set bs. sb_ts b mod 15 = 0"
    and "seed_history nd t d = (h, d0)" and "prune_cutoff t \<le> c"
  shows "rows_covered c d0 h"
proof -
  note g = load_buckets_map [OF assms(1,2)]
  have s: "h = fst (prune t (from_buckets bs))" "delete_buckets nd d (snd (prune t (from_buckets bs))) = (d0, snd (delete_buckets nd d (snd (prune t (from_buckets bs)))))"
    using assms(4) by (auto simp: seed_history_def assms(2) Let_def case_prod_unfold)
  have p: "map_of h k = (if k < prune_cutoff t then None else map_of (from_buckets bs) k)" for k
    using prune_spec [of "from_buckets bs" t k] g s(1) by simp
  have "history_inv h" using prune_inv [OF from_buckets_inv [OF assms(3)]] s(1) by simp
  moreover have "map_of h k \<noteq> None \<or> k < c" if "bucket_view rows d0 k \<noteq> None" for k
    using delete_keys [OF assms(1) s(2), of k] that p [of k] g assms(5) by auto
  ultimately show ?thesis using delete_keys [OF assms(1) s(2)] by (simp add: rows_covered_def)
qed

lemma flush_restores:
  assumes "rows_covered c d h" and "shutdown_flush nd (Some h) d = (d2, Inr u)" and "c \<le> prune_cutoff now"
    and "load_buckets nd d2 = Inr bs"
  shows "fst (seed_history nd now d2) = fst (prune now h)"
proof -
  have m: "ok d" "history_inv h" "\<And>k. bucket_view rows d k \<noteq> None \<Longrightarrow> map_of h k \<noteq> None \<or> k < c"
    using assms(1) by (simp_all add: rows_covered_def)
  have v: "ok d2 \<and> bucket_view rows d2 = fold (\<lambda>b n. n(sb_ts b \<mapsto> b)) (snapshot h) (bucket_view rows d)"
    using upsert_buckets_view [OF m(1)] assms(2) by (simp add: shutdown_flush_def)
  have view: "bucket_view rows d2 k = (case map_of h k of Some b \<Rightarrow> Some b | None \<Rightarrow> bucket_view rows d k)" for k
  proof (cases "map_of h k")
    case None
    then have "k \<notin> sb_ts ` set (snapshot h)" using snapshot_mem [OF m(2)] by fastforce
    then show ?thesis using v fold_upd_keys(2) [of k "snapshot h"] None by simp
  next
    case (Some b)
    then have "b \<in> set (snapshot h)" using map_of_SomeD [OF Some] by (force simp: snapshot_def)
    moreover have "sb_ts b = k" using Some m(2) by (auto simp: history_inv_lookup bucket_ok_def)
    ultimately have "k \<in> sb_ts ` set (snapshot h)" by blast
    then show ?thesis using v fold_upd_keys(1) [of k "snapshot h" "map_of h"] snapshot_mem [OF m(2)] Some by simp
  qed
  have g: "om_inv (from_buckets bs)" "map_of (from_buckets bs) = bucket_view rows d2"
    using load_buckets_map [of d2 bs] v assms(4) by blast+
  have om: "om_inv h" using m(2) by (simp add: history_inv_def)
  have "fst (prune now (from_buckets bs)) = fst (prune now h)"
  proof (rule om_ext)
    fix k
    show "map_of (fst (prune now (from_buckets bs))) k = map_of (fst (prune now h)) k"
      using prune_spec [OF g(1), of now k] prune_spec [OF om, of now k] view [of k] m(3) [of k] assms(3)
      by (cases "bucket_view rows d k") (auto simp: g(2) split: option.splits)
  qed (use prune_spec [OF g(1)] prune_spec [OF om] in blast)+
  then show ?thesis by (simp add: seed_history_def assms(4) Let_def case_prod_unfold)
qed

end

lemma app_step_events:
  assumes "app_step e started ev s = (s', out, rs)"
  shows "out = [] \<and> app_public s' = app_public s
    \<or> (\<exists>c exists. validate exists c = [] \<and> out = [\<lparr> sse_name = ''config'', sse_data = D_Config (public_view c started) \<rparr>]
        \<and> app_public s' = Some (public_view c started))"
proof (cases ev)
  case (E_Hangup read exists)
  then show ?thesis using assms by (auto simp: reload_config_def split: sum.splits option.splits if_splits)
qed (use assms in \<open>auto simp: Let_def split: prod.splits if_splits\<close>)

section \<open>Properties\<close>

text \<open>
  C36. The program serves only with a configuration that was read from the resolved
  file and passes validation; when it may write to APRS-IS, the login carries a passcode that is the
  one of its callsign. It then runs exactly the tasks the configuration asks for, shows the sanitized
  configuration, and has no change of the watched stations outstanding.
\<close>

theorem startup_gate:
  assumes "app_start e clk now started = Serving c tasks s"
  shows "from_file (ae_read e) (ae_toml e) (config_path (ae_arg e) (ae_exists e)) = Inr c
    \<and> required_ok c \<and> positions_ok c \<and> storage_ok (ae_exists e) c
    \<and> (ais_enabled (cfg_aprsis c) = Some True \<and> (ais_igating (cfg_aprsis c) = Some True \<or> ais_beaconing (cfg_aprsis c) = Some True) \<longrightarrow>
        (\<exists>cs p. sta_callsign (cfg_station c) = Some cs \<and> parse_i32 p = Some (passcode (ae_upper e) cs)
          \<and> aprsis_login_string (ae_upper e) c = ''user '' @ cs @ '' pass '' @ p @ '' vers rtpigate 0.5.2'' @ crlf))
    \<and> (Aprsis_Task \<in> set tasks \<longleftrightarrow> ais_enabled (cfg_aprsis c) = Some True)
    \<and> (Gpsd_Task \<in> set tasks \<longleftrightarrow> loc_source (cfg_location c) = Src_Gpsd)
    \<and> Rtp_Listener \<in> set tasks \<and> Sse_Task \<in> set tasks \<and> distinct tasks
    \<and> app_public s = Some ((to_public c)\<lparr>pc_started_at := Some started\<rparr>) \<and> app_pending s = []"
proof -
  obtain d where p: "prepare e = Inr (c, d)" and t: "tasks = spawned c" and s: "s = seed e clk now started c d"
    using assms by (auto simp: app_start_def split: sum.splits prod.splits)
  have v: "required_ok c \<and> positions_ok c \<and> storage_ok (ae_exists e) c"
    using p validate_Nil [of "ae_exists e" c] by (simp add: prepare_Inr)
  have "\<exists>cs p. sta_callsign (cfg_station c) = Some cs \<and> parse_i32 p = Some (passcode (ae_upper e) cs)
      \<and> aprsis_login_string (ae_upper e) c = ''user '' @ cs @ '' pass '' @ p @ '' vers rtpigate 0.5.2'' @ crlf"
    if "ais_enabled (cfg_aprsis c) = Some True \<and> (ais_igating (cfg_aprsis c) = Some True \<or> ais_beaconing (cfg_aprsis c) = Some True)"
  proof -
    obtain cs where cs: "sta_callsign (cfg_station c) = Some cs" using v by (auto simp: required_ok_def Let_def)
    have "passcode_isvalid (ae_upper e) c" using p that by (simp add: prepare_Inr needs_write_def)
    with valid_login [OF _ cs] cs show ?thesis by blast
  qed
  moreover have "app_public s = Some ((to_public c)\<lparr>pc_started_at := Some started\<rparr>) \<and> app_pending s = []"
    by (simp add: s seed_def public_view_def Let_def split: prod.split)
  ultimately show ?thesis using v p by (simp add: prepare_Inr t spawned_def)
qed

text \<open>
  C40. Over a run with any number of reloads, every event sent is a
  configuration that passed validation, with the start time of the program, and the configuration
  served afterwards is the one of the last event sent, or the old one when none was.
\<close>

theorem reload_keeps_browsers_current:
  assumes "main_loop e started evs s = (s', out, rs)"
  shows "(\<forall>v\<in>set out. sse_name v = ''config'' \<and> (\<exists>c exists. validate exists c = []
        \<and> sse_data v = D_Config ((to_public c)\<lparr>pc_started_at := Some started\<rparr>)))
    \<and> (if out = [] then app_public s' = app_public s else map_option D_Config (app_public s') = Some (sse_data (last out)))"
  using assms
proof (induction evs arbitrary: s out rs)
  case (Cons ev evs)
  show ?case
  proof (cases "ends_loop ev")
    case False
    obtain s1 o1 r1 o2 r2 where st: "app_step e started ev s = (s1, o1, r1)" "main_loop e started evs s1 = (s', o2, r2)"
        "out = o1 @ o2"
      using Cons.prems False by (auto split: prod.splits)
    note step = app_step_events [OF st(1)]
    note ih = Cons.IH [OF st(2)]
    have "\<forall>v\<in>set o1. sse_name v = ''config'' \<and> (\<exists>c exists. validate exists c = []
        \<and> sse_data v = D_Config ((to_public c)\<lparr>pc_started_at := Some started\<rparr>))"
      using step by (elim disjE exE conjE) (auto simp: public_view_def)
    moreover have "if out = [] then app_public s' = app_public s else map_option D_Config (app_public s') = Some (sse_data (last out))"
      using step ih by (elim disjE exE conjE) (simp_all add: st(3) split: if_splits)
    ultimately show ?thesis using ih st(3) by auto
  qed (use Cons.prems in simp)
qed simp

text \<open>
  C38. From the start on, however requests, their writes to the store and reloads
  interleave: the list served is the one read from the store at the start, without repetitions,
  changed by the requests; it never holds a station twice, never a blank one that the store did not
  hold, and is never longer than twenty stations or than the list of the start (a store written in
  another order than the lock's can hold more than twenty: \<open>crossed_writes\<close>). A POST is refused with
  400 exactly for a blank name, with 409 exactly for a new station when twenty or more are watched,
  and otherwise answers the list, with a new station at its end.
\<close>

theorem watched_bounded:
  assumes "native_db_laws (ae_db e) rows ok" and "\<forall>p d. ae_create e p = Inr d \<longrightarrow> ok d"
    and "app_start e clk t started = Serving c tasks s" and "main_loop e started evs s = (s', out, rs)"
  shows "\<exists>xs ys. app_watched s = Some xs \<and> xs = seed_watched (ae_db e) (app_db s) \<and> distinct xs
    \<and> app_watched s' = Some ys \<and> distinct ys \<and> length ys \<le> max 20 (length xs) \<and> ([] \<in> set ys \<longrightarrow> [] \<in> set xs)
    \<and> (snd (post_watched_handler nd now body s') = Inl 400 \<longleftrightarrow> str_trim body = [])
    \<and> (snd (post_watched_handler nd now body s') = Inl 409 \<longleftrightarrow>
        str_trim body \<noteq> [] \<and> str_trim body \<notin> set ys \<and> 20 \<le> length ys)
    \<and> (\<forall>zs. snd (post_watched_handler nd now body s') = Inr zs \<longleftrightarrow> str_trim body \<noteq> []
        \<and> (if str_trim body \<in> set ys then zs = ys else length ys < 20 \<and> zs = ys @ [str_trim body]))"
proof -
  let ?xs = "seed_watched (ae_db e) (app_db s)"
  have x: "app_watched s = Some ?xs" "distinct ?xs"
    using native_db_laws.start_watched [OF assms(1,2) refl assms(3)] by blast+
  have "watched_within ?xs ?xs" using x(2) by (simp add: watched_within_def)
  then obtain ys where y: "app_watched s' = Some ys" "watched_within ?xs ys"
    using main_loop_inv [OF x(1) _ assms(4)] by blast
  have r: "snd (post_watched_handler nd now body s') =
      (if str_trim body = [] then Inl 400 else if str_trim body \<in> set ys then Inr ys
       else if 20 \<le> length ys then Inl 409 else Inr (ys @ [str_trim body]))"
    by (simp add: post_watched_handler_def finish_watched_def post_locked_def y(1) Let_def list_ex_iff max_watched_def)
  have "snd (post_watched_handler nd now body s') = Inl 400 \<longleftrightarrow> str_trim body = []"
    "snd (post_watched_handler nd now body s') = Inl 409 \<longleftrightarrow> str_trim body \<noteq> [] \<and> str_trim body \<notin> set ys \<and> 20 \<le> length ys"
    "\<forall>zs. snd (post_watched_handler nd now body s') = Inr zs \<longleftrightarrow> str_trim body \<noteq> []
        \<and> (if str_trim body \<in> set ys then zs = ys else length ys < 20 \<and> zs = ys @ [str_trim body])"
    by (auto simp: r)
  then show ?thesis using x y unfolding watched_within_def max_watched_def by blast
qed

text \<open>
  C39. As long as the changes reach the store in the order of the locks, at
  increasing microseconds, and no write fails, the stations read back at the next start are those
  watched at the end, in tab order; the tasks' own writes in between do not matter.
\<close>

theorem watched_tabs_restored:
  assumes "native_db_laws (ae_db e) rows ok" and "ok (app_db s)" and "app_watched s = Some xs" and "app_pending s = []"
    and "distinct xs" and "holds_watched (rows (app_db s)) b xs" and "in_order b evs"
    and "main_loop e started evs s = (s', out, rs)" and "\<forall>r\<in>set rs. is_ok r" and "app_pending s' = []"
  shows "\<exists>ys c. app_watched s' = Some ys \<and> holds_watched (rows (app_db s')) c ys
    \<and> (\<forall>zs. load_watched_stations (ae_db e) (app_db s') = Inr zs \<longrightarrow> zs = ys \<and> seed_watched (ae_db e) (app_db s') = ys)"
proof -
  have "native_db_laws.watched_mirror rows ok b s"
    unfolding native_db_laws.watched_mirror_def [OF assms(1)] using assms(2-6) by auto
  then obtain c where "native_db_laws.watched_mirror rows ok c s'"
    using native_db_laws.mirror_loop [OF assms(1) _ assms(7,8) refl assms(9)] by blast
  from native_db_laws.mirror_drained [OF assms(1) this assms(10)] show ?thesis
    by (auto simp: seed_watched_def)
qed

text \<open>
  C37. From one start to the next: whatever items the SSE task takes and whichever
  of its writes fail, once the backstop at the shutdown has succeeded, the next start restores
  exactly the history in memory at the end, less what is then older than a day. The wall clock is
  taken not to go back: the first start (\<open>t\<close>) and every item of the run are not later than the
  next start (\<open>now\<close>); and the buckets found at the first start lie on multiples of 15 seconds.
\<close>

theorem history_restart:
  assumes "native_db_laws nd rows ok" and "ok d" and "load_buckets nd d = Inr bs" and "\<forall>b\<in>set bs. sb_ts b mod 15 = 0"
    and "seed_history nd t d = (h, d0)" and "sse_task nd is \<lparr> sse_history = Some h, sse_db = d0 \<rparr> = (s', evs, rs)"
    and "t \<le> now" and "\<forall>u x. SI_Item u x \<in> set is \<longrightarrow> u \<le> now"
    and "shutdown_flush nd (sse_history s') (sse_db s') = (d2, Inr ())" and "load_buckets nd d2 = Inr bs2"
  shows "\<exists>h'. sse_history s' = Some h' \<and> history_inv h' \<and> fst (seed_history nd now d2) = fst (prune now h')"
proof -
  let ?c = "prune_cutoff now"
  have c: "native_db_laws.rows_covered rows ok ?c (sse_db \<lparr> sse_history = Some h, sse_db = d0 \<rparr>) h"
    using native_db_laws.seed_covered [OF assms(1-5) prune_cutoff_mono [OF assms(7)]] by simp
  have "\<forall>u x. SI_Item u x \<in> set is \<longrightarrow> prune_cutoff u \<le> ?c"
    using assms(8) prune_cutoff_mono by blast
  from native_db_laws.task_covered [OF assms(1) c _ assms(6) this]
  obtain h' where h': "sse_history s' = Some h'" "native_db_laws.rows_covered rows ok ?c (sse_db s') h'"
    by auto
  then have "history_inv h'" by (simp add: native_db_laws.rows_covered_def [OF assms(1)])
  then show ?thesis
    using native_db_laws.flush_restores [OF assms(1) h'(2), of d2 "()" now bs2] assms(9,10) h'(1) by simp
qed

section \<open>Samples\<close>

definition sample_app_env :: "mem_state app_env" where
  "sample_app_env = \<lparr> ae_arg = None, ae_exists = (\<lambda>_. True), ae_read = (\<lambda>_. Inr ''[station]''),
     ae_toml = (\<lambda>_. Inr sample_config), ae_upper = (\<lambda>ch. ch), ae_create = (\<lambda>_. Inr []), ae_db = mem_db 8,
     ae_from_us = Some, ae_bind = (\<lambda>_. Inr ()) \<rparr>"

lemma sample_passcode: "passcode_isvalid (\<lambda>ch. ch) sample_config"
proof -
  have "passcode (\<lambda>ch. ch) ''N0CALL'' = 13023"
    by (simp add: passcode_def to_uppercase_ascii utf8_chars_ascii is_ascii_def is_cont_def ascii_upper_def)
  then show ?thesis
    by (simp add: passcode_isvalid_def compute_passcode_def sample_config_def parse_i32_def parse_int_def digit_val_def)
qed

lemma sample_prepare: "prepare sample_app_env = Inr (sample_config, [])"
  using sample_config_valid sample_passcode
  by (simp add: prepare_Inr sample_app_env_def from_file_def)

theorem startup_gate_witness:
  "\<exists>s. app_start sample_app_env 0 0 7 = Serving sample_config [Rtp_Listener, Aprsis_Task, Sse_Task] s
     \<and> aprsis_login_string (\<lambda>ch. ch) sample_config = ''user N0CALL pass 13023 vers rtpigate 0.5.2'' @ crlf
     \<and> app_pending s = []"
proof -
  let ?s = "seed sample_app_env 0 0 7 sample_config []"
  have t: "spawned sample_config = [Rtp_Listener, Aprsis_Task, Sse_Task]" by (simp add: spawned_def sample_config_def)
  have a: "app_start sample_app_env 0 0 7 = Serving sample_config [Rtp_Listener, Aprsis_Task, Sse_Task] ?s"
    by (simp add: app_start_def sample_prepare) (simp add: sample_app_env_def t)
  have "app_pending ?s = []" using startup_gate [OF a] by blast
  moreover have "aprsis_login_string (\<lambda>ch. ch) sample_config = ''user N0CALL pass 13023 vers rtpigate 0.5.2'' @ crlf"
    using sample_passcode by (simp add: aprsis_login_string_def Let_def) (simp add: sample_config_def)
  ultimately show ?thesis using a by blast
qed

definition sample_app :: "mem_state app_state" where
  "sample_app = \<lparr> app_public = Some (public_view sample_config 7), app_sat_log = Some [], app_history = Some [],
     app_watched = Some [], app_pending = [], app_db = [] \<rparr>"

lemmas app_eval = sample_app_def post_locked_def delete_locked_def max_watched_def add_watched_station_def
  remove_watched_station_def mem_eval to_micros_def timestamp_micros_def

lemma sample_start_seeded:
  "app_start sample_app_env 0 0 7 = Serving sample_config [Rtp_Listener, Aprsis_Task, Sse_Task] sample_app"
proof -
  have "seed sample_app_env 0 0 7 sample_config [] = sample_app"
    by (simp add: seed_def seed_sat_log_def seed_history_def seed_watched_def load_sat_packets_def load_buckets_def
        load_watched_stations_def sample_app_env_def sample_app_def prune_def from_buckets_def history_new_def
        delete_buckets_def mem_eval bucket_rows_def sat_rows_def watched_rows_def List.map_filter_def Let_def)
  moreover have "spawned sample_config = [Rtp_Listener, Aprsis_Task, Sse_Task]" by (simp add: spawned_def sample_config_def)
  ultimately show ?thesis by (simp add: app_start_def sample_prepare) (simp add: sample_app_env_def)
qed

lemma sample_reload:
  "main_loop sample_app_env 7 [E_Hangup (\<lambda>_. Inr ''[station]'') (\<lambda>_. True), E_Interrupt] sample_app
     = (sample_app, [\<lparr> sse_name = ''config'', sse_data = D_Config (public_view sample_config 7) \<rparr>], [])"
  using sample_config_valid by (simp add: reload_config_def from_file_def sample_app_def) (simp add: sample_app_env_def)

theorem reload_keeps_browsers_current_witness:
  "\<exists>out. main_loop sample_app_env 7 [E_Hangup (\<lambda>_. Inr ''[station]'') (\<lambda>_. True), E_Interrupt] sample_app
     = (sample_app, out, []) \<and> map_option D_Config (app_public sample_app) = Some (sse_data (last out))"
  using reload_keeps_browsers_current [OF sample_reload] sample_reload by auto

definition sample_events :: "app_event list" where
  "sample_events = [E_Post '' N0CALL'', E_Post ''K1ABC'', E_Persist 0 1000, E_Delete ''N0CALL'',
     E_Persist 0 2000, E_Persist 0 3000, E_Terminate]"

lemma sample_trims: "str_trim '' N0CALL'' = ''N0CALL''" "str_trim ''K1ABC'' = ''K1ABC''" "str_trim ''N0CALL'' = ''N0CALL''"
  by (simp_all add: str_trim_def utf8_chars_ascii is_ascii_def is_cont_def is_whitespace_def Let_def)

lemma sample_keys: "K_Str T_Watched ''K1ABC'' < K_Str T_Watched ''N0CALL''" "\<not> K_Str T_Watched ''N0CALL'' < K_Str T_Watched ''K1ABC''"
  by (simp_all add: less_db_key_def)

definition sample_final :: "mem_state app_state" where
  "sample_final = sample_app\<lparr>app_watched := Some [''K1ABC''], app_db :=
     [(K_Str T_Watched ''K1ABC'', R_Watched \<lparr> ws_callsign = ''K1ABC'', ws_added_micros = 2 \<rparr>)]\<rparr>"

lemma sample_watch:
  "main_loop sample_app_env 7 sample_events sample_app = (sample_final, [], [Inr (), Inr (), Inr ()])"
  by (simp add: sample_events_def sample_final_def app_eval Let_def sample_app_env_def sample_trims sample_keys om_remove_def)

theorem watched_bounded_witness:
  "\<exists>s0 s. app_start sample_app_env 0 0 7 = Serving sample_config [Rtp_Listener, Aprsis_Task, Sse_Task] s0
     \<and> main_loop sample_app_env 7 sample_events s0 = (s, [], [Inr (), Inr (), Inr ()])
     \<and> snd (post_watched_handler (mem_db 8) 0 '' N0CALL'' s) = Inr [''K1ABC'', ''N0CALL'']"
proof -
  have env: "ae_db sample_app_env = mem_db 8" by (simp add: sample_app_env_def)
  have laws: "native_db_laws (ae_db sample_app_env) map_of mem_ok" unfolding env by (rule mem.native_db_laws_axioms)
  have ok: "\<forall>p d. ae_create sample_app_env p = Inr d \<longrightarrow> mem_ok d" by (simp add: sample_app_env_def mem_ok_Nil)
  from watched_bounded [OF laws ok sample_start_seeded sample_watch, of "mem_db 8" 0 "'' N0CALL''"]
  have "snd (post_watched_handler (mem_db 8) 0 '' N0CALL'' sample_final) = Inr [''K1ABC'', ''N0CALL'']"
    by (auto simp: sample_final_def sample_trims)
  with sample_start_seeded sample_watch show ?thesis by blast
qed

theorem watched_tabs_restored_witness:
  "\<exists>s rs. main_loop sample_app_env 7 sample_events sample_app = (s, [], rs) \<and> seed_watched (mem_db 8) (app_db s) = [''K1ABC'']"
proof -
  have a: "app_watched sample_app = Some []" "app_pending sample_app = []" "app_db sample_app = []" "app_pending sample_final = []"
    by (simp_all add: sample_app_def sample_final_def)
  have env: "ae_db sample_app_env = mem_db 8" by (simp add: sample_app_env_def)
  have h: "holds_watched (map_of (app_db sample_app)) 0 []" by (simp add: a holds_watched_def watched_at_def)
  have o: "in_order 0 sample_events" by (simp add: sample_events_def to_micros_def timestamp_micros_def)
  have laws: "native_db_laws (ae_db sample_app_env) map_of mem_ok" unfolding env by (rule mem.native_db_laws_axioms)
  have ok: "mem_ok (app_db sample_app)" by (simp add: a mem_ok_Nil)
  obtain zs where z: "load_watched_stations (ae_db sample_app_env) (app_db sample_final) = Inr zs"
    by (simp add: load_watched_stations_def env mem_eval)
  have "\<exists>ys. app_watched sample_final = Some ys \<and> seed_watched (ae_db sample_app_env) (app_db sample_final) = ys"
    using watched_tabs_restored [OF laws ok a(1,2) _ h o sample_watch _ a(4)] z by auto
  then show ?thesis using sample_watch by (auto simp: env sample_final_def)
qed

text \<open>The whole life of a program whose only item is a telemetry; a store large enough never fails.\<close>

theorem history_restart_witness:
  "\<exists>cap d2. fst (seed_history (mem_db cap) 0 d2) = fst (prune 0 fed_history)"
proof -
  let ?cap = "length fed_touched + length (snapshot fed_history)"
  obtain d where d: "length d \<le> length fed_touched"
    "sse_item (mem_db ?cap) 0 (Tlm (PacketStatus sample_packet_telemetry)) \<lparr> sse_history = Some [], sse_db = [] \<rparr>
       = (\<lparr> sse_history = Some fed_history, sse_db = d \<rparr>, [Inr (), Inr ()])"
    using sample_feed [of ?cap] by auto
  let ?is = "[SI_Item 0 (Tlm (PacketStatus sample_packet_telemetry)), SI_Cancelled]"
  have run: "sse_task (mem_db ?cap) ?is \<lparr> sse_history = Some [], sse_db = [] \<rparr>
      = (\<lparr> sse_history = Some fed_history, sse_db = d \<rparr>, [event_of (Tlm (PacketStatus sample_packet_telemetry))], [Inr (), Inr ()])"
    unfolding sse_task.simps d by simp
  have l: "load_buckets (mem_db ?cap) [] = Inr []" by (simp add: load_buckets_def mem_eval bucket_rows_def List.map_filter_simps)
  have s: "seed_history (mem_db ?cap) 0 [] = ([], [])"
    by (simp add: seed_history_def l from_buckets_def history_new_def prune_def delete_buckets_def)
  obtain d2 where f: "shutdown_flush (mem_db ?cap) (Some fed_history) d = (d2, Inr ())"
    using mem_upserts_ok [of d "snapshot fed_history" ?cap] d(1) by (auto simp: shutdown_flush_def)
  obtain bs where b: "load_buckets (mem_db ?cap) d2 = Inr bs" by (simp add: load_buckets_def mem_eval)
  have "fst (seed_history (mem_db ?cap) 0 d2) = fst (prune 0 fed_history)"
    using history_restart [OF mem.native_db_laws_axioms mem_ok_Nil l _ s run _ _ _ b] f by simp
  then show ?thesis by blast
qed

section \<open>Requests that cross\<close>

text \<open>
  The store is written after the lock is released, so two requests for one station can reach it in
  the other order: the tab is closed in memory, and the next start opens it again.
\<close>

lemma crossed_writes:
  "\<exists>s rs. main_loop sample_app_env 7 [E_Post ''K1ABC'', E_Delete ''K1ABC'', E_Persist 1 1000, E_Persist 0 2000, E_Terminate] sample_app
     = (s, [], rs) \<and> app_watched s = Some [] \<and> app_pending s = [] \<and> seed_watched (mem_db 8) (app_db s) = [''K1ABC'']"
  by (simp add: app_eval Let_def sample_app_env_def sample_trims om_remove_def seed_watched_def load_watched_stations_def
      watched_rows_def List.map_filter_simps)

text \<open>A DELETE is not trimmed as a POST is: it leaves the station it names with a blank in place.\<close>

lemma delete_not_trimmed:
  "delete_locked '' K1ABC'' (Some [''K1ABC'']) = (Some [''K1ABC''], Inr [''K1ABC''], [W_Remove '' K1ABC''])"
  by (simp add: delete_locked_def Let_def)

end
